(* ===== verification/Prelude.thy ===== *)
theory Prelude
  imports Main "HOL-Library.Word"
begin

text \<open>
  Vocabulary shared by every component: the C integer types at their LP64 widths, output
  pointers, byte-addressed memory with little-endian loads and stores, and the generic facts
  about them. A pointer is a \<^typ>\<open>64 word\<close> with \<open>NULL\<close> the word \<open>0\<close>; signed 64-bit
  values are words read through \<^const>\<open>sint\<close>.

  An output pointer \<open>T *out\<close> is a value of type \<open>'a outp\<close>: \<open>None\<close> for \<open>NULL\<close> and
  \<open>Some old\<close> for storage that holds \<open>old\<close> before the call. A C function
  \<open>bool f(x, T *out)\<close> becomes \<open>f x out = (returned value, storage after the call)\<close>, so that
  "the output is left unchanged on failure" is a statement about the model. The locale
  \<open>out_param\<close> states that contract once; each checked operation of the code interprets it.
\<close>

unbundle bit_operations_syntax

section \<open>Types\<close>

type_synonym u8 = "8 word"
type_synonym u16 = "16 word"
type_synonym u32 = "32 word"
type_synonym u64 = "64 word"
type_synonym i64 = "64 word"
type_synonym memory = "u64 \<Rightarrow> u8"
type_synonym 'a outp = "'a option"
type_synonym cstring = "u8 list"

abbreviation UINT64_MAX :: u64 where "UINT64_MAX \<equiv> - 1"
abbreviation UINTPTR_MAX :: u64 where "UINTPTR_MAX \<equiv> - 1"
abbreviation SIZE_MAX :: u64 where "SIZE_MAX \<equiv> - 1"
abbreviation INTPTR_MAX :: u64 where "INTPTR_MAX \<equiv> 0x7fffffffffffffff"
abbreviation INTPTR_MIN :: i64 where "INTPTR_MIN \<equiv> 0x8000000000000000"

named_theorems layout_simps \<open>sizes and field offsets of the binary records\<close>
named_theorems agree_intros \<open>reads that depend only on a bounded byte range\<close>
named_theorems event_simps \<open>what an operation adds to the trace of system calls\<close>

section \<open>Memory\<close>

definition load_bytes :: "memory \<Rightarrow> u64 \<Rightarrow> nat \<Rightarrow> u8 list" where
  "load_bytes m a n = map (\<lambda>i. m (a + of_nat i)) [0..<n]"

definition store_bytes :: "memory \<Rightarrow> u64 \<Rightarrow> u8 list \<Rightarrow> memory" where
  "store_bytes m a bs =
     (\<lambda>x. if unat (x - a) < length bs then bs ! unat (x - a) else m x)"

fun le_word :: "u8 list \<Rightarrow> 'a::len word" where
  "le_word [] = 0"
| "le_word (b # bs) = ucast b OR push_bit 8 (le_word bs)"

fun le_bytes :: "nat \<Rightarrow> 'a::len word \<Rightarrow> u8 list" where
  "le_bytes 0 w = []"
| "le_bytes (Suc n) w = ucast w # le_bytes n (drop_bit 8 w)"

definition load32 :: "memory \<Rightarrow> u64 \<Rightarrow> u32" where
  "load32 m a = le_word (load_bytes m a 4)"

definition load64 :: "memory \<Rightarrow> u64 \<Rightarrow> u64" where
  "load64 m a = le_word (load_bytes m a 8)"

text \<open>Two memories agree on the \<open>n\<close> bytes that start at \<open>p\<close>.\<close>

definition agree :: "memory \<Rightarrow> memory \<Rightarrow> u64 \<Rightarrow> nat \<Rightarrow> bool" where
  "agree m m' p n \<longleftrightarrow> (\<forall>i<n. m (p + of_nat i) = m' (p + of_nat i))"

section \<open>C strings\<close>

definition c_literal :: "string \<Rightarrow> u8 list" where
  "c_literal s = map of_char s @ [0]"

text \<open>\<open>strncmp(a, b, n) == 0\<close> on byte sequences that hold \<open>n\<close> bytes or a terminator.\<close>

fun strncmp_equal :: "u8 list \<Rightarrow> u8 list \<Rightarrow> nat \<Rightarrow> bool" where
  "strncmp_equal as bs 0 = True"
| "strncmp_equal (a # as) (b # bs) (Suc n) = (a = b \<and> (a = 0 \<or> strncmp_equal as bs n))"
| "strncmp_equal _ _ (Suc n) = False"

section \<open>Words\<close>

text \<open>Equality of words bit by bit at numeral positions, for the widths of instruction words
  and of their operand fields: masks and fields are then decided by the simplifier.\<close>

lemma word_eq_list_all:
  fixes a b :: "'a::len word"
  shows "a = b \<longleftrightarrow> list_all (\<lambda>n. bit a n = bit b n) [0..<LENGTH('a)]"
  by (auto simp: list_all_iff bit_eq_iff dest: bit_imp_le_length)

lemma bit_beyond: "LENGTH('a) \<le> n \<Longrightarrow> bit (w :: 'a::len word) n = False"
  by (auto dest: bit_imp_le_length)

lemma word2_eq_bits:
  fixes a b :: "2 word"
  shows "a = b \<longleftrightarrow>
     (bit a 0 = bit b 0) \<and> (bit a 1 = bit b 1)"
proof -
  have "[0..<2] =
       [0, 1]"
    by (simp add: upt_rec)
  then show ?thesis by (simp add: word_eq_list_all del: upt_rec_numeral)
qed

lemma word5_eq_bits:
  fixes a b :: "5 word"
  shows "a = b \<longleftrightarrow>
     (bit a 0 = bit b 0) \<and> (bit a 1 = bit b 1) \<and> (bit a 2 = bit b 2) \<and> (bit a 3 = bit b 3) \<and>
     (bit a 4 = bit b 4)"
proof -
  have "[0..<5] =
       [0, 1, 2, 3, 4]"
    by (simp add: upt_rec)
  then show ?thesis by (simp add: word_eq_list_all del: upt_rec_numeral)
qed

lemma word9_eq_bits:
  fixes a b :: "9 word"
  shows "a = b \<longleftrightarrow>
     (bit a 0 = bit b 0) \<and> (bit a 1 = bit b 1) \<and> (bit a 2 = bit b 2) \<and> (bit a 3 = bit b 3) \<and>
     (bit a 4 = bit b 4) \<and> (bit a 5 = bit b 5) \<and> (bit a 6 = bit b 6) \<and> (bit a 7 = bit b 7) \<and>
     (bit a 8 = bit b 8)"
proof -
  have "[0..<9] =
       [0, 1, 2, 3, 4, 5, 6, 7, 8]"
    by (simp add: upt_rec)
  then show ?thesis by (simp add: word_eq_list_all del: upt_rec_numeral)
qed

lemma word12_eq_bits:
  fixes a b :: "12 word"
  shows "a = b \<longleftrightarrow>
     (bit a 0 = bit b 0) \<and> (bit a 1 = bit b 1) \<and> (bit a 2 = bit b 2) \<and> (bit a 3 = bit b 3) \<and>
     (bit a 4 = bit b 4) \<and> (bit a 5 = bit b 5) \<and> (bit a 6 = bit b 6) \<and> (bit a 7 = bit b 7) \<and>
     (bit a 8 = bit b 8) \<and> (bit a 9 = bit b 9) \<and> (bit a 10 = bit b 10) \<and> (bit a 11 = bit b 11)"
proof -
  have "[0..<12] =
       [0, 1, 2, 3, 4, 5, 6, 7, 8, 9, 10, 11]"
    by (simp add: upt_rec)
  then show ?thesis by (simp add: word_eq_list_all del: upt_rec_numeral)
qed

lemma word16_eq_bits:
  fixes a b :: "16 word"
  shows "a = b \<longleftrightarrow>
     (bit a 0 = bit b 0) \<and> (bit a 1 = bit b 1) \<and> (bit a 2 = bit b 2) \<and> (bit a 3 = bit b 3) \<and>
     (bit a 4 = bit b 4) \<and> (bit a 5 = bit b 5) \<and> (bit a 6 = bit b 6) \<and> (bit a 7 = bit b 7) \<and>
     (bit a 8 = bit b 8) \<and> (bit a 9 = bit b 9) \<and> (bit a 10 = bit b 10) \<and> (bit a 11 = bit b 11) \<and>
     (bit a 12 = bit b 12) \<and> (bit a 13 = bit b 13) \<and> (bit a 14 = bit b 14) \<and> (bit a 15 = bit b 15)"
proof -
  have "[0..<16] =
       [0, 1, 2, 3, 4, 5, 6, 7, 8, 9, 10, 11, 12, 13, 14, 15]"
    by (simp add: upt_rec)
  then show ?thesis by (simp add: word_eq_list_all del: upt_rec_numeral)
qed

lemma word21_eq_bits:
  fixes a b :: "21 word"
  shows "a = b \<longleftrightarrow>
     (bit a 0 = bit b 0) \<and> (bit a 1 = bit b 1) \<and> (bit a 2 = bit b 2) \<and> (bit a 3 = bit b 3) \<and>
     (bit a 4 = bit b 4) \<and> (bit a 5 = bit b 5) \<and> (bit a 6 = bit b 6) \<and> (bit a 7 = bit b 7) \<and>
     (bit a 8 = bit b 8) \<and> (bit a 9 = bit b 9) \<and> (bit a 10 = bit b 10) \<and> (bit a 11 = bit b 11) \<and>
     (bit a 12 = bit b 12) \<and> (bit a 13 = bit b 13) \<and> (bit a 14 = bit b 14) \<and> (bit a 15 = bit b 15) \<and>
     (bit a 16 = bit b 16) \<and> (bit a 17 = bit b 17) \<and> (bit a 18 = bit b 18) \<and> (bit a 19 = bit b 19) \<and>
     (bit a 20 = bit b 20)"
proof -
  have "[0..<21] =
       [0, 1, 2, 3, 4, 5, 6, 7, 8, 9, 10, 11, 12, 13, 14, 15, 16, 17, 18, 19, 20]"
    by (simp add: upt_rec)
  then show ?thesis by (simp add: word_eq_list_all del: upt_rec_numeral)
qed

lemma word26_eq_bits:
  fixes a b :: "26 word"
  shows "a = b \<longleftrightarrow>
     (bit a 0 = bit b 0) \<and> (bit a 1 = bit b 1) \<and> (bit a 2 = bit b 2) \<and> (bit a 3 = bit b 3) \<and>
     (bit a 4 = bit b 4) \<and> (bit a 5 = bit b 5) \<and> (bit a 6 = bit b 6) \<and> (bit a 7 = bit b 7) \<and>
     (bit a 8 = bit b 8) \<and> (bit a 9 = bit b 9) \<and> (bit a 10 = bit b 10) \<and> (bit a 11 = bit b 11) \<and>
     (bit a 12 = bit b 12) \<and> (bit a 13 = bit b 13) \<and> (bit a 14 = bit b 14) \<and> (bit a 15 = bit b 15) \<and>
     (bit a 16 = bit b 16) \<and> (bit a 17 = bit b 17) \<and> (bit a 18 = bit b 18) \<and> (bit a 19 = bit b 19) \<and>
     (bit a 20 = bit b 20) \<and> (bit a 21 = bit b 21) \<and> (bit a 22 = bit b 22) \<and> (bit a 23 = bit b 23) \<and>
     (bit a 24 = bit b 24) \<and> (bit a 25 = bit b 25)"
proof -
  have "[0..<26] =
       [0, 1, 2, 3, 4, 5, 6, 7, 8, 9, 10, 11, 12, 13, 14, 15, 16, 17, 18, 19, 20, 
        21, 22, 23, 24, 25]"
    by (simp add: upt_rec)
  then show ?thesis by (simp add: word_eq_list_all del: upt_rec_numeral)
qed

lemma word32_eq_bits:
  fixes a b :: "32 word"
  shows "a = b \<longleftrightarrow>
     (bit a 0 = bit b 0) \<and> (bit a 1 = bit b 1) \<and> (bit a 2 = bit b 2) \<and> (bit a 3 = bit b 3) \<and>
     (bit a 4 = bit b 4) \<and> (bit a 5 = bit b 5) \<and> (bit a 6 = bit b 6) \<and> (bit a 7 = bit b 7) \<and>
     (bit a 8 = bit b 8) \<and> (bit a 9 = bit b 9) \<and> (bit a 10 = bit b 10) \<and> (bit a 11 = bit b 11) \<and>
     (bit a 12 = bit b 12) \<and> (bit a 13 = bit b 13) \<and> (bit a 14 = bit b 14) \<and> (bit a 15 = bit b 15) \<and>
     (bit a 16 = bit b 16) \<and> (bit a 17 = bit b 17) \<and> (bit a 18 = bit b 18) \<and> (bit a 19 = bit b 19) \<and>
     (bit a 20 = bit b 20) \<and> (bit a 21 = bit b 21) \<and> (bit a 22 = bit b 22) \<and> (bit a 23 = bit b 23) \<and>
     (bit a 24 = bit b 24) \<and> (bit a 25 = bit b 25) \<and> (bit a 26 = bit b 26) \<and> (bit a 27 = bit b 27) \<and>
     (bit a 28 = bit b 28) \<and> (bit a 29 = bit b 29) \<and> (bit a 30 = bit b 30) \<and> (bit a 31 = bit b 31)"
proof -
  have "[0..<32] =
       [0, 1, 2, 3, 4, 5, 6, 7, 8, 9, 10, 11, 12, 13, 14, 15, 16, 17, 18, 19, 20, 
        21, 22, 23, 24, 25, 26, 27, 28, 29, 30, 31]"
    by (simp add: upt_rec)
  then show ?thesis by (simp add: word_eq_list_all del: upt_rec_numeral)
qed

lemmas word_eq_bits =
  word2_eq_bits word5_eq_bits word9_eq_bits word12_eq_bits word16_eq_bits word21_eq_bits word26_eq_bits word32_eq_bits

lemma uint_bounds_u64: "0 \<le> uint (w :: u64)" "uint (w :: u64) < 2 ^ 64"
  using uint_lt2p [of w] by auto

lemma sint_u64: "sint (w :: i64) = (if uint w < 2 ^ 63 then uint w else uint w - 2 ^ 64)"
proof -
  have s: "sint w = (uint w + 2 ^ 63) mod 2 ^ 64 - 2 ^ 63"
    using int_word_sint [where ?'a = 64, of "uint w"] by simp
  have b: "0 \<le> uint w" "uint w < 2 ^ 64" by (rule uint_bounds_u64)+
  show ?thesis
  proof (cases "uint w < 2 ^ 63")
    case True
    then have "(uint w + 2 ^ 63) mod 2 ^ 64 = uint w + 2 ^ 63"
      using b by (intro mod_pos_pos_trivial) auto
    with s True show ?thesis by simp
  next
    case False
    have "(uint w + 2 ^ 63) mod 2 ^ 64 = ((uint w - 2 ^ 63) + 2 ^ 64) mod (2 ^ 64 :: int)"
      by (rule arg_cong [where f = "\<lambda>x. x mod 2 ^ 64"]) simp
    also have "\<dots> = (uint w - 2 ^ 63) mod 2 ^ 64"
      by (rule mod_add_self2)
    also have "\<dots> = uint w - 2 ^ 63"
      using b False by (intro mod_pos_pos_trivial) auto
    finally show ?thesis using s False by simp
  qed
qed

lemma uint_max_u64: "uint UINT64_MAX = 2 ^ 64 - 1"
  by (simp add: unsigned_minus_1_eq_mask mask_eq_exp_minus_1)

lemma uint_sub_le: "b \<le> a \<Longrightarrow> uint (a - b) = uint a - uint (b :: u64)"
  by (simp add: uint_sub_lem word_le_def)

lemma unat_sub_le: "b \<le> a \<Longrightarrow> unat (a - b) = unat a - unat (b :: u64)"
  by (rule unat_sub)

lemma uint_add_no_wrap:
  "uint a + uint b < 2 ^ 64 \<Longrightarrow> uint (a + b) = uint a + uint (b :: u64)"
  by (simp add: uint_word_ariths)

lemma unat_add_no_wrap:
  "unat a + unat b < 2 ^ 64 \<Longrightarrow> unat (a + b) = unat a + unat (b :: u64)"
  by (simp add: unat_word_ariths)

lemma unat_widen [simp]: "unat (ucast (w :: u32) :: u64) = unat w"
proof -
  have "unat w < 2 ^ 32" using unsigned_less [of w, where ?'a = nat] by simp
  then show ?thesis by (simp add: unsigned_ucast_eq take_bit_nat_eq_self)
qed

lemma unat_inc:
  fixes i n :: "'a::len word"
  assumes "i < n"
  shows "unat (i + 1) = Suc (unat i)"
proof -
  have "unat i < unat n" using assms by (simp add: word_less_nat_alt)
  moreover have "unat n < 2 ^ LENGTH('a)" by (rule unsigned_less)
  ultimately have "Suc (unat i) < 2 ^ LENGTH('a)" by linarith
  then show ?thesis by (simp add: unat_word_ariths)
qed

lemma word_index_decreases: "i < (n :: 'a::len word) \<Longrightarrow> unat n - unat (i + 1) < unat n - unat i"
  by (simp add: unat_inc word_less_nat_alt diff_less_mono2)

lemma index_room_decreases:
  assumes "i < (n :: 'a::len word)"
  shows "2 ^ LENGTH('a) - unat (i + 1) < 2 ^ LENGTH('a) - unat i"
  using assms unsigned_less [of i, where ?'a = nat] unat_inc [OF assms] by linarith

section \<open>Loads and stores\<close>

lemma length_load_bytes [simp]: "length (load_bytes m a n) = n"
  by (simp add: load_bytes_def)

lemma nth_load_bytes [simp]: "i < n \<Longrightarrow> load_bytes m a n ! i = m (a + of_nat i)"
  by (simp add: load_bytes_def)

lemma length_le_bytes [simp]: "length (le_bytes n w) = n"
  by (induction n arbitrary: w) auto

lemma le_word_le_bytes: "le_word (le_bytes n w) = take_bit (8 * n) (w :: 'a::len word)"
proof (induction n arbitrary: w)
  case 0
  then show ?case by simp
next
  case (Suc n)
  have "le_word (le_bytes (Suc n) w) =
      (ucast (ucast w :: u8) OR push_bit 8 (take_bit (8 * n) (drop_bit 8 w)) :: 'a word)"
    by (simp add: Suc)
  also have "\<dots> = take_bit (8 * Suc n) w"
    by (rule bit_word_eqI) (auto simp: bit_simps)
  finally show ?case .
qed

lemma store_bytes_same:
  assumes "length bs \<le> 2 ^ 64"
  shows "load_bytes (store_bytes m a bs) a (length bs) = bs"
proof (rule nth_equalityI)
  fix i assume "i < length (load_bytes (store_bytes m a bs) a (length bs))"
  then have i: "i < length bs" by simp
  then have "unat (of_nat i :: u64) = i"
    using assms by (simp add: unat_of_nat)
  then show "load_bytes (store_bytes m a bs) a (length bs) ! i = bs ! i"
    using i by (simp add: store_bytes_def)
qed simp

lemma store_bytes_restore:
  assumes "length bs = n" "n \<le> 2 ^ 64"
  shows "store_bytes (store_bytes m a bs) a (load_bytes m a n) = m"
  using assms by (auto simp: store_bytes_def)

lemma store_bytes_frame: "length bs \<le> unat (x - a) \<Longrightarrow> store_bytes m a bs x = m x"
  by (simp add: store_bytes_def)

lemma load64_store64: "load64 (store_bytes m a (le_bytes 8 v)) a = (v :: u64)"
proof -
  have "load_bytes (store_bytes m a (le_bytes 8 v)) a 8 = le_bytes 8 v"
    using store_bytes_same [of "le_bytes 8 v" m a] by simp
  then show ?thesis
    by (simp add: load64_def le_word_le_bytes take_bit_word_eq_self)
qed

lemma store_bytes_byte_frame:
  assumes "unat a + length bs \<le> 2 ^ 64" "unat x < unat a \<or> unat a + length bs \<le> unat x"
  shows "store_bytes m a bs x = m x"
proof -
  have "length bs \<le> unat (x - a)"
    using assms unsigned_less [of a, where ?'a = nat] by (auto simp: unat_sub_if')
  then show ?thesis by (rule store_bytes_frame)
qed

lemma load_store_frame:
  assumes "unat a + length bs \<le> 2 ^ 64" "unat b + n \<le> 2 ^ 64"
    and "unat b + n \<le> unat a \<or> unat a + length bs \<le> unat b"
  shows "load_bytes (store_bytes m a bs) b n = load_bytes m b n"
proof (rule nth_equalityI)
  fix i assume "i < length (load_bytes (store_bytes m a bs) b n)"
  then have i: "i < n" by simp
  then have "unat (of_nat i :: u64) = i" using assms(2) by (simp add: unat_of_nat)
  then have "unat (b + of_nat i) = unat b + i"
    using i assms(2) by (subst unat_add_no_wrap) auto
  then have "unat (b + of_nat i) < unat a \<or> unat a + length bs \<le> unat (b + of_nat i)"
    using i assms(3) by linarith
  then show "load_bytes (store_bytes m a bs) b n ! i = load_bytes m b n ! i"
    using i store_bytes_byte_frame [OF assms(1)] by simp
qed simp

section \<open>Reads bounded by a byte range\<close>

lemma agree_refl [simp]: "agree m m p n"
  by (simp add: agree_def)

lemma agree_sym: "agree m m' p n \<Longrightarrow> agree m' m p n"
  by (simp add: agree_def)

lemma agree_byte: "agree m m' p n \<Longrightarrow> i < n \<Longrightarrow> m (p + of_nat i) = m' (p + of_nat i)"
  by (simp add: agree_def)

lemma agree_word:
  assumes "agree m m' p n" "unat (w :: u64) < n"
  shows "m (p + w) = m' (p + w)"
  using agree_byte [OF assms] by simp

lemma agree_sub_nat:
  assumes "agree m m' p n" "j + k \<le> n"
  shows "agree m m' (p + of_nat j) k"
  unfolding agree_def
proof (intro allI impI)
  fix i assume "i < k"
  then have "m (p + of_nat (j + i)) = m' (p + of_nat (j + i))"
    using assms(2) by (intro agree_byte [OF assms(1)]) simp
  then show "m (p + of_nat j + of_nat i) = m' (p + of_nat j + of_nat i)"
    by (simp add: add.assoc)
qed

lemma agree_sub:
  assumes "agree m m' p n" "unat (w :: u64) + k \<le> n"
  shows "agree m m' (p + w) k"
  using agree_sub_nat [OF assms] by simp

lemma agree_update: "n \<le> unat (a - p) \<Longrightarrow> agree m (m(a := v)) p n"
proof -
  assume n: "n \<le> unat (a - p)"
  have "p + of_nat i \<noteq> a" if "i < n" for i
  proof
    assume "p + of_nat i = a"
    then have "unat (a - p) \<le> i" by (auto simp: unat_of_nat)
    with n that show False by simp
  qed
  then show ?thesis by (simp add: agree_def)
qed

lemma agree_mono: "agree m m' p n \<Longrightarrow> k \<le> n \<Longrightarrow> agree m m' p k"
  by (simp add: agree_def)

lemma agree_load_bytes [agree_intros]:
  "agree m m' p n \<Longrightarrow> k \<le> n \<Longrightarrow> load_bytes m p k = load_bytes m' p k"
  by (simp add: load_bytes_def agree_def)

lemma agree_load32 [agree_intros]:
  "agree m m' p n \<Longrightarrow> 4 \<le> n \<Longrightarrow> load32 m p = load32 m' p"
  by (simp add: load32_def agree_load_bytes)

lemma agree_load64 [agree_intros]:
  "agree m m' p n \<Longrightarrow> 8 \<le> n \<Longrightarrow> load64 m p = load64 m' p"
  by (simp add: load64_def agree_load_bytes)

text \<open>The same for a field at a numeral offset of a record.\<close>

lemma agree_field32 [agree_intros]:
  "agree m m' p n \<Longrightarrow> numeral k + 4 \<le> n \<Longrightarrow> load32 m (p + numeral k) = load32 m' (p + numeral k)"
  using agree_sub_nat [of m m' p n "numeral k" 4] by (simp add: agree_load32)

lemma agree_field64 [agree_intros]:
  "agree m m' p n \<Longrightarrow> numeral k + 8 \<le> n \<Longrightarrow> load64 m (p + numeral k) = load64 m' (p + numeral k)"
  using agree_sub_nat [of m m' p n "numeral k" 8] by (simp add: agree_load64)

text \<open>The same bytes at two places, for data that may be mapped anywhere.\<close>

definition same_bytes :: "memory \<Rightarrow> u64 \<Rightarrow> memory \<Rightarrow> u64 \<Rightarrow> nat \<Rightarrow> bool" where
  "same_bytes m p m' p' n \<longleftrightarrow> (\<forall>i<n. m (p + of_nat i) = m' (p' + of_nat i))"

lemma agree_same: "agree m m' p n = same_bytes m p m' p n"
  by (simp add: agree_def same_bytes_def)

lemma same_sub_nat:
  assumes "same_bytes m p m' p' n" "j + k \<le> n"
  shows "same_bytes m (p + of_nat j) m' (p' + of_nat j) k"
  unfolding same_bytes_def
proof (intro allI impI)
  fix i assume "i < k"
  then have "m (p + of_nat (j + i)) = m' (p' + of_nat (j + i))"
    using assms unfolding same_bytes_def by (meson add_less_cancel_left less_le_trans)
  then show "m (p + of_nat j + of_nat i) = m' (p' + of_nat j + of_nat i)"
    by (simp add: add.assoc)
qed

lemma same_byte: "same_bytes m p m' p' n \<Longrightarrow> i < n \<Longrightarrow> m (p + of_nat i) = m' (p' + of_nat i)"
  by (simp add: same_bytes_def)

lemma same_load_bytes:
  "same_bytes m p m' p' n \<Longrightarrow> k \<le> n \<Longrightarrow> load_bytes m p k = load_bytes m' p' k"
  by (simp add: load_bytes_def same_bytes_def)

lemma same_load32: "same_bytes m p m' p' n \<Longrightarrow> 4 \<le> n \<Longrightarrow> load32 m p = load32 m' p'"
  by (simp add: load32_def same_load_bytes)

lemma same_load64: "same_bytes m p m' p' n \<Longrightarrow> 8 \<le> n \<Longrightarrow> load64 m p = load64 m' p'"
  by (simp add: load64_def same_load_bytes)

lemma same_field32:
  "same_bytes m p m' p' n \<Longrightarrow> numeral k + 4 \<le> n \<Longrightarrow> load32 m (p + numeral k) = load32 m' (p' + numeral k)"
  using same_sub_nat [of m p m' p' n "numeral k" 4] by (simp add: same_load32)

lemma same_field64:
  "same_bytes m p m' p' n \<Longrightarrow> numeral k + 8 \<le> n \<Longrightarrow> load64 m (p + numeral k) = load64 m' (p' + numeral k)"
  using same_sub_nat [of m p m' p' n "numeral k" 8] by (simp add: same_load64)

lemma same_bytes_iff:
  "same_bytes m p m' p' n \<longleftrightarrow> load_bytes m p n = load_bytes m' p' n"
  by (auto simp: same_bytes_def load_bytes_def)

lemma load_store_same:
  assumes "length bs < 2 ^ 64"
  shows "load_bytes (store_bytes m a bs) a (length bs) = bs"
proof (rule nth_equalityI)
  fix i assume "i < length (load_bytes (store_bytes m a bs) a (length bs))"
  then have i: "i < length bs" by (simp add: load_bytes_def)
  then have "unat (of_nat i :: u64) = i" using assms by (simp add: unat_of_nat)
  then show "load_bytes (store_bytes m a bs) a (length bs) ! i = bs ! i"
    using i by (simp add: load_bytes_def store_bytes_def)
qed (simp add: load_bytes_def)

section \<open>Output parameters\<close>

text \<open>
  The contract of a checked operation with an output pointer: it fails without storage, it
  leaves the storage alone when it fails, and on success it overwrites it with a value that
  does not depend on the old contents. The parameter \<open>result\<close> is the mathematical value.
\<close>

locale out_param =
  fixes run :: "'i \<Rightarrow> 'o outp \<Rightarrow> bool \<times> 'o outp"
    and result :: "'i \<Rightarrow> 'o option"
  assumes null_storage: "run i None = (False, None)"
    and no_result: "result i = None \<Longrightarrow> run i (Some old) = (False, Some old)"
    and has_result: "result i = Some v \<Longrightarrow> run i (Some old) = (True, Some v)"
begin

lemma run_cases:
  "run i out = (case out of None \<Rightarrow> (False, None)
     | Some old \<Rightarrow> (case result i of None \<Rightarrow> (False, Some old) | Some v \<Rightarrow> (True, Some v)))"
  by (simp add: null_storage no_result has_result split: option.split)

lemma returns_iff: "fst (run i out) \<longleftrightarrow> out \<noteq> None \<and> result i \<noteq> None"
  by (auto simp: run_cases split: option.split)

lemma failure_keeps_storage: "\<not> fst (run i out) \<Longrightarrow> snd (run i out) = out"
  by (auto simp: run_cases split: option.splits)

lemma success_writes: "fst (run i out) \<Longrightarrow> snd (run i out) = result i"
  by (auto simp: run_cases split: option.splits)

lemma storage_cases: "(fst (run i out) \<and> out \<noteq> None) \<or> run i out = (False, out)"
  by (auto simp: run_cases split: option.split)

lemma old_contents_irrelevant:
  "fst (run i (Some old)) = fst (run i (Some old'))"
  "fst (run i (Some old)) \<Longrightarrow> snd (run i (Some old)) = snd (run i (Some old'))"
  by (auto simp: run_cases split: option.splits)

end

end
