(* ===== verification/Arm64.thy ===== *)
theory Arm64
  imports Prelude
begin

text \<open>
  The instruction decoders of \<open>Sources/RorkHook/RorkHookArm64.c\<close>, one definition per C
  function. Their reference is the A64 encoding itself: \<open>arm64_instr\<close> lists the instructions
  the library inspects or emits with their architectural operand fields, and \<open>encode\<close> lays
  them out as instruction words. Each decoder is shown to accept exactly the words of its
  class and to recover the operands, including the sign of displacements and the rejection of
  displacements that leave the address space.
\<close>

section \<open>The decoders\<close>

definition RorkHookAddSignedOffset ::
  "u64 \<Rightarrow> i64 \<Rightarrow> u64 outp \<Rightarrow> bool \<times> u64 outp" where
  "RorkHookAddSignedOffset base offset resultOut =
     (case resultOut of
        None \<Rightarrow> (False, resultOut)
      | Some _ \<Rightarrow>
          if offset <s 0 then
            let magnitude = (- (offset + 1)) + 1 in
            if UINTPTR_MAX < magnitude \<or> base < magnitude then (False, resultOut)
            else (True, Some (base - magnitude))
          else
            let magnitude = offset in
            if UINTPTR_MAX < magnitude \<or> UINTPTR_MAX - magnitude < base then (False, resultOut)
            else (True, Some (base + magnitude)))"

definition RorkHookArm64SignExtend :: "u64 \<Rightarrow> int \<Rightarrow> i64" where
  "RorkHookArm64SignExtend value bits =
     (if bits \<le> 0 \<or> 64 < bits then 0
      else if bits = 64 then value
      else
        let value = value AND (push_bit (nat bits) 1 - 1);
            signBit = push_bit (nat (bits - 1)) 1
        in (value XOR signBit) - signBit)"

definition RorkHookDecodeADRP ::
  "u32 \<Rightarrow> u64 \<Rightarrow> u8 outp \<Rightarrow> u64 outp \<Rightarrow> bool \<times> u8 outp \<times> u64 outp" where
  "RorkHookDecodeADRP instruction pc targetRegister pageAddress =
     (if targetRegister = None \<or> pageAddress = None \<or>
         instruction AND 0x9f000000 \<noteq> 0x90000000
      then (False, targetRegister, pageAddress)
      else
        let immlo = ucast (drop_bit 29 instruction AND 0x3) :: u64;
            immhi = ucast (drop_bit 5 instruction AND 0x7ffff) :: u64;
            signedPages = RorkHookArm64SignExtend (push_bit 2 immhi OR immlo) 21
        in case RorkHookAddSignedOffset (pc AND NOT 0xfff) (signedPages * 4096) (Some 0) of
             (True, Some decodedPage) \<Rightarrow>
               (True, Some (ucast (instruction AND 0x1f)), Some decodedPage)
           | _ \<Rightarrow> (False, targetRegister, pageAddress))"

definition RorkHookDecodeADDImmediate ::
  "u32 \<Rightarrow> u8 \<Rightarrow> u64 outp \<Rightarrow> bool \<times> u64 outp" where
  "RorkHookDecodeADDImmediate instruction baseRegister offset =
     (if offset = None \<or> instruction AND 0xff800000 \<noteq> 0x91000000 then (False, offset)
      else
        let destination = ucast (instruction AND 0x1f) :: u8;
            source = ucast (drop_bit 5 instruction AND 0x1f) :: u8
        in
        if destination \<noteq> baseRegister \<or> source \<noteq> baseRegister then (False, offset)
        else
          let imm12 = drop_bit 10 instruction AND 0xfff;
              shift = drop_bit 22 instruction AND 0x3
          in (True, Some (if shift = 1 then push_bit 12 (ucast imm12) else ucast imm12)))"

definition RorkHookDecodeLDRUnsigned64 ::
  "u32 \<Rightarrow> u8 \<Rightarrow> u64 outp \<Rightarrow> bool \<times> u64 outp" where
  "RorkHookDecodeLDRUnsigned64 instruction baseRegister offset =
     (if offset = None \<or> instruction AND 0xffc00000 \<noteq> 0xf9400000 then (False, offset)
      else
        let source = ucast (drop_bit 5 instruction AND 0x1f) :: u8 in
        if source \<noteq> baseRegister then (False, offset)
        else
          let imm12 = drop_bit 10 instruction AND 0xfff
          in (True, Some (push_bit 3 (ucast imm12))))"

definition RorkHookDecodeLDRUnsignedOffset64 ::
  "u32 \<Rightarrow> u64 outp \<Rightarrow> bool \<times> u64 outp" where
  "RorkHookDecodeLDRUnsignedOffset64 instruction offset =
     (if offset = None \<or> instruction AND 0xffc00000 \<noteq> 0xf9400000 then (False, offset)
      else
        let imm12 = drop_bit 10 instruction AND 0xfff
        in (True, Some (push_bit 3 (ucast imm12))))"

definition RorkHookDecodeLDRSignedPreIndex64 ::
  "u32 \<Rightarrow> i64 outp \<Rightarrow> bool \<times> i64 outp" where
  "RorkHookDecodeLDRSignedPreIndex64 instruction offset =
     (if offset = None \<or> instruction AND 0xffe00c00 \<noteq> 0xf8400c00 then (False, offset)
      else
        let imm9 = ucast (drop_bit 12 instruction AND 0x1ff) :: u64
        in (True, Some (RorkHookArm64SignExtend imm9 9)))"

definition RorkHookDecodeLDUR64 ::
  "u32 \<Rightarrow> u8 \<Rightarrow> i64 outp \<Rightarrow> bool \<times> i64 outp" where
  "RorkHookDecodeLDUR64 instruction baseRegister offset =
     (if offset = None \<or> instruction AND 0xffe00c00 \<noteq> 0xf8400000 then (False, offset)
      else
        let source = ucast (drop_bit 5 instruction AND 0x1f) :: u8 in
        if source \<noteq> baseRegister then (False, offset)
        else
          let imm9 = ucast (drop_bit 12 instruction AND 0x1ff) :: u64
          in (True, Some (RorkHookArm64SignExtend imm9 9)))"

definition RorkHookDecodeMOVZImmediate :: "u32 \<Rightarrow> u64 outp \<Rightarrow> bool \<times> u64 outp" where
  "RorkHookDecodeMOVZImmediate instruction value =
     (if value = None \<or> instruction AND 0xff800000 \<noteq> 0xd2800000 then (False, value)
      else
        let imm16 = drop_bit 5 instruction AND 0xffff;
            shift = (drop_bit 21 instruction AND 0x3) * 16
        in (True, Some (push_bit (unat shift) (ucast imm16))))"

definition RorkHookFollowOneBranch :: "memory \<Rightarrow> u64 \<Rightarrow> u64" where
  "RorkHookFollowOneBranch m instructions =
     (if instructions = 0 then instructions
      else
        let instruction = load32 m instructions in
        if instruction AND 0xfc000000 \<noteq> 0x14000000 then instructions
        else
          let imm26 = RorkHookArm64SignExtend (ucast (instruction AND 0x03ffffff)) 26 in
          case RorkHookAddSignedOffset instructions (imm26 * 4) (Some 0) of
            (True, Some target) \<Rightarrow> target
          | _ \<Rightarrow> instructions)"

section \<open>The instruction words, by class\<close>

datatype arm64_instr =
    ADRP "5 word" "21 word"
  | ADD_immediate "5 word" "5 word" "12 word" bool
  | LDR_unsigned "5 word" "5 word" "12 word"
  | LDR_pre_index "5 word" "5 word" "9 word"
  | LDUR "5 word" "5 word" "9 word"
  | MOVZ "5 word" "16 word" "2 word"
  | MOVK "5 word" "16 word" "2 word"
  | B "26 word"
  | BR "5 word"

text \<open>Operands come in the order destination (or transferred) register, base register,
  immediate; the Boolean of \<open>ADD\<close> is its 12-bit shift, the last field of \<open>MOVZ\<close> and \<open>MOVK\<close>
  the halfword they address.\<close>

fun encode :: "arm64_instr \<Rightarrow> u32" where
  "encode (ADRP rd imm) =
     0x90000000 OR push_bit 29 (ucast (take_bit 2 imm)) OR push_bit 5 (ucast (drop_bit 2 imm))
       OR ucast rd"
| "encode (ADD_immediate rd rn imm shifted) =
     0x91000000 OR push_bit 22 (of_bool shifted) OR push_bit 10 (ucast imm)
       OR push_bit 5 (ucast rn) OR ucast rd"
| "encode (LDR_unsigned rt rn imm) =
     0xf9400000 OR push_bit 10 (ucast imm) OR push_bit 5 (ucast rn) OR ucast rt"
| "encode (LDR_pre_index rt rn imm) =
     0xf8400c00 OR push_bit 12 (ucast imm) OR push_bit 5 (ucast rn) OR ucast rt"
| "encode (LDUR rt rn imm) =
     0xf8400000 OR push_bit 12 (ucast imm) OR push_bit 5 (ucast rn) OR ucast rt"
| "encode (MOVZ rd imm hw) =
     0xd2800000 OR push_bit 21 (ucast hw) OR push_bit 5 (ucast imm) OR ucast rd"
| "encode (MOVK rd imm hw) =
     0xf2800000 OR push_bit 21 (ucast hw) OR push_bit 5 (ucast imm) OR ucast rd"
| "encode (B imm) = 0x14000000 OR ucast imm"
| "encode (BR rn) = 0xd61f0000 OR push_bit 5 (ucast rn)"

text \<open>The decoding table: which class an instruction word belongs to, with its operands.\<close>

definition disassemble :: "u32 \<Rightarrow> arm64_instr option" where
  "disassemble i =
     (if i AND 0x9f000000 = 0x90000000 then
        Some (ADRP (ucast i) (ucast (push_bit 2 (drop_bit 5 i) OR take_bit 2 (drop_bit 29 i))))
      else if i AND 0xff800000 = 0x91000000 then
        Some (ADD_immediate (ucast i) (ucast (drop_bit 5 i)) (ucast (drop_bit 10 i)) (bit i 22))
      else if i AND 0xffc00000 = 0xf9400000 then
        Some (LDR_unsigned (ucast i) (ucast (drop_bit 5 i)) (ucast (drop_bit 10 i)))
      else if i AND 0xffe00c00 = 0xf8400c00 then
        Some (LDR_pre_index (ucast i) (ucast (drop_bit 5 i)) (ucast (drop_bit 12 i)))
      else if i AND 0xffe00c00 = 0xf8400000 then
        Some (LDUR (ucast i) (ucast (drop_bit 5 i)) (ucast (drop_bit 12 i)))
      else if i AND 0xff800000 = 0xd2800000 then
        Some (MOVZ (ucast i) (ucast (drop_bit 5 i)) (ucast (drop_bit 21 i)))
      else if i AND 0xff800000 = 0xf2800000 then
        Some (MOVK (ucast i) (ucast (drop_bit 5 i)) (ucast (drop_bit 21 i)))
      else if i AND 0xfc000000 = 0x14000000 then Some (B (ucast i))
      else if i AND 0xfffffc1f = 0xd61f0000 then Some (BR (ucast (drop_bit 5 i)))
      else None)"

section \<open>Sign extension and checked displacement\<close>

lemma signed_take_bit_cases:
  "signed_take_bit n (k :: int) = take_bit n k - (if bit k n then 2 ^ n else 0)"
  by (simp add: signed_take_bit_eq_take_bit_minus take_bit_Suc_from_most)

lemma push_bit_minus_1: "Suc n < 64 \<Longrightarrow> push_bit (Suc n) 1 - 1 = (mask (Suc n) :: u64)"
  by (simp add: push_bit_eq_mult mask_eq_exp_minus_1)

lemma sign_extend_word:
  fixes v :: u64
  assumes "n < 63"
  shows "((v AND (push_bit (Suc n) 1 - 1)) XOR push_bit n 1) - push_bit n 1 =
     take_bit n v - (if bit v n then push_bit n 1 else 0)"
proof -
  have m: "push_bit (Suc n) 1 - 1 = (mask (Suc n) :: u64)"
    using assms by (intro push_bit_minus_1) simp
  show ?thesis
  proof (cases "bit v n")
    case True
    have "(v AND mask (Suc n)) XOR push_bit n 1 = take_bit n v"
      using True assms by (intro bit_word_eqI) (auto simp: bit_simps less_Suc_eq)
    then show ?thesis using True unfolding m by simp
  next
    case False
    have "(v AND mask (Suc n)) XOR push_bit n 1 = take_bit n v OR push_bit n 1"
      using False assms by (intro bit_word_eqI) (auto simp: bit_simps less_Suc_eq)
    also have "\<dots> = take_bit n v + push_bit n 1"
      by (rule disjunctive_add [symmetric]) (auto simp: bit_simps)
    finally show ?thesis using False unfolding m by simp
  qed
qed

lemma sint_sign_extend:
  assumes "0 < bits" "bits \<le> 64"
  shows "sint (RorkHookArm64SignExtend v bits) = signed_take_bit (nat bits - 1) (uint v)"
proof (cases "bits = 64")
  case True
  then show ?thesis by (simp add: RorkHookArm64SignExtend_def sint_uint)
next
  case False
  define n where "n = nat bits - 1"
  then have n: "bits = 1 + int n" "n < 63"
    using assms False by auto
  let ?x = "take_bit n (uint v) - (if bit (uint v) n then 2 ^ n else 0)"
  have "RorkHookArm64SignExtend v bits =
      take_bit n v - (if bit v n then push_bit n 1 else 0)"
    using n sign_extend_word [of n v]
    by (simp add: RorkHookArm64SignExtend_def nat_add_distrib Let_def)
  also have "\<dots> = word_of_int ?x"
  proof -
    have "take_bit n v = word_of_int (take_bit n (uint v))"
      by (metis unsigned_take_bit_eq word_of_int_uint)
    moreover have "bit (uint v) n = bit v n"
      using n by (simp add: bit_uint_iff)
    ultimately show ?thesis by (simp add: push_bit_eq_mult)
  qed
  finally have "sint (RorkHookArm64SignExtend v bits) = sint (word_of_int ?x :: i64)"
    by (rule arg_cong)
  also have "\<dots> = signed_take_bit 63 ?x"
    unfolding sint_sbintrunc' by simp
  also have "\<dots> = ?x"
  proof (rule signed_take_bit_int_eq_self)
    have n62: "(2 :: int) ^ n \<le> 2 ^ 62" using n by (intro power_increasing) auto
    have t: "0 \<le> take_bit n (uint v)" "take_bit n (uint v) < 2 ^ n" by simp_all
    have "(2 :: int) ^ 63 = 2 * 2 ^ 62" by simp
    with n62 t show "- (2 ^ 63) \<le> ?x" "?x < 2 ^ 63"
      by (cases "bit (uint v) n"; simp only: if_True if_False; linarith)+
  qed
  finally show ?thesis
    by (simp only: n_def signed_take_bit_cases)
qed

definition offset_sum :: "u64 \<Rightarrow> i64 \<Rightarrow> u64 option" where
  "offset_sum base offset =
     (if 0 \<le> uint base + sint offset \<and> uint base + sint offset < 2 ^ 64
      then Some (base + offset) else None)"

lemma AddSignedOffset_value:
  "RorkHookAddSignedOffset base offset (Some old) =
     (case offset_sum base offset of None \<Rightarrow> (False, Some old) | Some v \<Rightarrow> (True, Some v))"
proof -
  have neg: "offset <s 0 \<longleftrightarrow> 2 ^ 63 \<le> uint offset"
    using uint_bounds_u64 [of offset] by (simp add: word_sless_alt sint_u64)
  have mag: "- (offset + 1) + 1 = - offset" by simp
  show ?thesis
  proof (cases "offset <s 0")
    case True
    then have o: "2 ^ 63 \<le> uint offset" by (simp add: neg)
    then have "uint (- offset) = 2 ^ 64 - uint offset"
      using uint_bounds_u64 [of offset] by (simp add: uint_word_ariths zmod_zminus1_eq_if)
    then show ?thesis
      using True o uint_bounds_u64 [of base] uint_bounds_u64 [of offset]
      by (auto simp: RorkHookAddSignedOffset_def offset_sum_def mag Let_def sint_u64
          word_less_def uint_max_u64)
  next
    case False
    then have o: "uint offset < 2 ^ 63" by (simp add: neg)
    have "uint (UINTPTR_MAX - offset) = 2 ^ 64 - 1 - uint offset"
      using uint_sub_le [of offset UINTPTR_MAX] by (simp add: uint_max_u64)
    then show ?thesis
      using False o uint_bounds_u64 [of base] uint_bounds_u64 [of offset]
      by (auto simp: RorkHookAddSignedOffset_def offset_sum_def Let_def sint_u64
          word_less_def uint_max_u64)
  qed
qed

interpretation add_signed: out_param
  "\<lambda>(base, offset). RorkHookAddSignedOffset base offset"
  "\<lambda>(base, offset). offset_sum base offset"
proof
  fix i :: "u64 \<times> i64"
  show "(case i of (base, offset) \<Rightarrow> RorkHookAddSignedOffset base offset) None = (False, None)"
    by (cases i) (simp add: RorkHookAddSignedOffset_def)
qed (auto simp: AddSignedOffset_value split: prod.splits)

lemma offset_sum_Some:
  "offset_sum base offset = Some v \<longleftrightarrow> uint v = uint base + sint offset"
proof
  assume "offset_sum base offset = Some v"
  then show "uint v = uint base + sint offset"
    using uint_bounds_u64 [of base] uint_bounds_u64 [of offset]
    by (auto simp: offset_sum_def sint_u64 uint_plus_if' split: if_splits)
next
  assume v: "uint v = uint base + sint offset"
  then have "(word_of_int (uint v) :: u64) = word_of_int (uint base + sint offset)"
    by simp
  then have "v = base + offset" by simp
  with v show "offset_sum base offset = Some v"
    using uint_bounds_u64 [of v] by (simp add: offset_sum_def)
qed

section \<open>Operand fields\<close>

lemma field_masks:
  fixes w :: u32
  shows "w AND 0x3 = take_bit 2 w" "w AND 0x1f = take_bit 5 w" "w AND 0x1ff = take_bit 9 w"
    "w AND 0xfff = take_bit 12 w" "w AND 0xffff = take_bit 16 w"
    "w AND 0x7ffff = take_bit 19 w" "w AND 0x03ffffff = take_bit 26 w"
  by (simp_all add: take_bit_eq_mask mask_numeral)

text \<open>A word of each class, as the mask test of its decoder recognises it.\<close>

lemma word_class_iff:
  fixes i :: u32
  shows ADRP_word: "i AND 0x9f000000 = 0x90000000 \<longleftrightarrow>
      encode (ADRP (ucast i) (ucast (push_bit 2 (drop_bit 5 i) OR take_bit 2 (drop_bit 29 i)))) = i"
    and ADD_word: "i AND 0xff800000 = 0x91000000 \<longleftrightarrow>
      encode (ADD_immediate (ucast i) (ucast (drop_bit 5 i)) (ucast (drop_bit 10 i)) (bit i 22)) = i"
    and LDR_unsigned_word: "i AND 0xffc00000 = 0xf9400000 \<longleftrightarrow>
      encode (LDR_unsigned (ucast i) (ucast (drop_bit 5 i)) (ucast (drop_bit 10 i))) = i"
    and LDR_pre_index_word: "i AND 0xffe00c00 = 0xf8400c00 \<longleftrightarrow>
      encode (LDR_pre_index (ucast i) (ucast (drop_bit 5 i)) (ucast (drop_bit 12 i))) = i"
    and LDUR_word: "i AND 0xffe00c00 = 0xf8400000 \<longleftrightarrow>
      encode (LDUR (ucast i) (ucast (drop_bit 5 i)) (ucast (drop_bit 12 i))) = i"
    and MOVZ_word: "i AND 0xff800000 = 0xd2800000 \<longleftrightarrow>
      encode (MOVZ (ucast i) (ucast (drop_bit 5 i)) (ucast (drop_bit 21 i))) = i"
    and MOVK_word: "i AND 0xff800000 = 0xf2800000 \<longleftrightarrow>
      encode (MOVK (ucast i) (ucast (drop_bit 5 i)) (ucast (drop_bit 21 i))) = i"
    and B_word: "i AND 0xfc000000 = 0x14000000 \<longleftrightarrow> encode (B (ucast i)) = i"
    and BR_word: "i AND 0xfffffc1f = 0xd61f0000 \<longleftrightarrow> encode (BR (ucast (drop_bit 5 i))) = i"
  by (simp_all add: word32_eq_bits bit_simps)

lemma encode_disassemble: "disassemble i = Some x \<Longrightarrow> encode x = i"
  unfolding disassemble_def
  by (simp only: word_class_iff split: if_splits option.splits) (simp_all only: option.inject option.distinct simp_thms)

lemma disassemble_encode: "disassemble (encode x) = Some x"
proof (cases x)
  case (ADRP rd imm)
  then show ?thesis
    by (simp add: disassemble_def word_eq_bits bit_beyond bit_simps)
next
  case (ADD_immediate rd rn imm sh)
  then show ?thesis
    by (simp add: disassemble_def word_eq_bits bit_beyond bit_simps)
next
  case (LDR_unsigned rt rn imm)
  then show ?thesis
    by (simp add: disassemble_def word_eq_bits bit_beyond bit_simps)
next
  case (LDR_pre_index rt rn imm)
  then show ?thesis
    by (simp add: disassemble_def word_eq_bits bit_beyond bit_simps)
next
  case (LDUR rt rn imm)
  then show ?thesis
    by (simp add: disassemble_def word_eq_bits bit_beyond bit_simps)
next
  case (MOVZ rd imm hw)
  then show ?thesis
    by (simp add: disassemble_def word_eq_bits bit_beyond bit_simps)
next
  case (MOVK rd imm hw)
  then show ?thesis
    by (simp add: disassemble_def word_eq_bits bit_beyond bit_simps)
next
  case (B imm)
  then show ?thesis
    by (simp add: disassemble_def word_eq_bits bit_beyond bit_simps)
next
  case (BR rn)
  then show ?thesis
    by (simp add: disassemble_def word_eq_bits bit_beyond bit_simps)
qed

lemma ADRP_fields:
  shows "encode (ADRP rd imm) AND 0x1f = ucast rd"
    and "drop_bit 29 (encode (ADRP rd imm)) AND 0x3 = ucast (take_bit 2 imm)"
    and "drop_bit 5 (encode (ADRP rd imm)) AND 0x7ffff = ucast (drop_bit 2 imm)"
  by (simp_all add: word_eq_bits bit_beyond bit_simps)

lemma ADD_fields:
  shows "encode (ADD_immediate rd rn imm sh) AND 0x1f = ucast rd"
    and "drop_bit 5 (encode (ADD_immediate rd rn imm sh)) AND 0x1f = ucast rn"
    and "drop_bit 10 (encode (ADD_immediate rd rn imm sh)) AND 0xfff = ucast imm"
    and "drop_bit 22 (encode (ADD_immediate rd rn imm sh)) AND 0x3 = of_bool sh"
  by (simp_all add: word_eq_bits bit_beyond bit_simps)

lemma LDR_unsigned_fields:
  shows "drop_bit 5 (encode (LDR_unsigned rt rn imm)) AND 0x1f = ucast rn"
    and "drop_bit 10 (encode (LDR_unsigned rt rn imm)) AND 0xfff = ucast imm"
  by (simp_all add: word_eq_bits bit_beyond bit_simps)

lemma LDR_pre_index_fields: "drop_bit 12 (encode (LDR_pre_index rt rn imm)) AND 0x1ff = ucast imm"
  by (simp add: word_eq_bits bit_beyond bit_simps)

lemma LDUR_fields:
  shows "drop_bit 5 (encode (LDUR rt rn imm)) AND 0x1f = ucast rn"
    and "drop_bit 12 (encode (LDUR rt rn imm)) AND 0x1ff = ucast imm"
  by (simp_all add: word_eq_bits bit_beyond bit_simps)

lemma MOVZ_fields:
  shows "drop_bit 5 (encode (MOVZ rd imm hw)) AND 0xffff = ucast imm"
    and "drop_bit 21 (encode (MOVZ rd imm hw)) AND 0x3 = ucast hw"
  by (simp_all add: word_eq_bits bit_beyond bit_simps)

lemma B_fields: "encode (B imm) AND 0x03ffffff = ucast imm"
  by (simp add: word_eq_bits bit_beyond bit_simps)

lemma ADRP_immediate:
  "push_bit 2 (ucast (drop_bit 2 imm)) OR ucast (take_bit 2 imm) = (ucast (imm :: 21 word) :: u64)"
proof (rule bit_word_eqI)
  fix n :: nat
  have "2 \<le> n \<Longrightarrow> Suc (Suc (n - 2)) = n" by simp
  then show "bit (push_bit 2 (ucast (drop_bit 2 imm)) OR ucast (take_bit 2 imm) :: u64) n =
      bit (ucast imm :: u64) n"
    if "n < LENGTH(64)"
    by (auto simp: bit_simps not_less dest: bit_imp_le_length)
qed

lemma ucast_via_u32:
  assumes "LENGTH('a::len) \<le> 32"
  shows "ucast (ucast (w :: 'a word) :: u32) = (ucast w :: 'b::len word)"
  using assms by (intro bit_word_eqI) (auto simp: bit_simps dest: bit_imp_le_length)

lemma sign_extend_scast:
  fixes imm :: "'a::len word"
  assumes "LENGTH('a) < 64"
  shows "RorkHookArm64SignExtend (ucast imm) (int LENGTH('a)) = scast imm"
proof -
  have "sint (RorkHookArm64SignExtend (ucast imm) (int LENGTH('a))) =
      signed_take_bit (LENGTH('a) - 1) (uint (ucast imm :: u64))"
    using assms by (simp only: sint_sign_extend nat_int of_nat_0_less_iff len_gt_0 of_nat_less_iff)
  also have "\<dots> = signed_take_bit (LENGTH('a) - 1) (uint imm)"
    using assms by (simp add: unsigned_ucast_eq signed_take_bit_take_bit)
  also have "\<dots> = sint imm"
    by (simp add: sint_uint)
  also have "\<dots> = sint (scast imm :: i64)"
  proof -
    have "sint (scast imm :: i64) = signed_take_bit 63 (signed_take_bit (LENGTH('a) - 1) (uint imm))"
      by (simp only: signed_scast_eq) (simp add: sint_uint)
    then show ?thesis using assms by (simp add: sint_uint min_def)
  qed
  finally show ?thesis by (rule signed_word_eqI)
qed

lemma class_test:
  fixes i :: u32
  shows ADRP_test: "i AND 0x9f000000 = 0x90000000 \<longleftrightarrow> (\<exists>rd imm. disassemble i = Some (ADRP rd imm))"
    and ADD_test: "i AND 0xff800000 = 0x91000000 \<longleftrightarrow>
      (\<exists>rd rn imm sh. disassemble i = Some (ADD_immediate rd rn imm sh))"
    and LDR_unsigned_test: "i AND 0xffc00000 = 0xf9400000 \<longleftrightarrow>
      (\<exists>rt rn imm. disassemble i = Some (LDR_unsigned rt rn imm))"
    and LDR_pre_index_test: "i AND 0xffe00c00 = 0xf8400c00 \<longleftrightarrow>
      (\<exists>rt rn imm. disassemble i = Some (LDR_pre_index rt rn imm))"
    and LDUR_test: "i AND 0xffe00c00 = 0xf8400000 \<longleftrightarrow>
      (\<exists>rt rn imm. disassemble i = Some (LDUR rt rn imm))"
    and MOVZ_test: "i AND 0xff800000 = 0xd2800000 \<longleftrightarrow>
      (\<exists>rd imm hw. disassemble i = Some (MOVZ rd imm hw))"
    and B_test: "i AND 0xfc000000 = 0x14000000 \<longleftrightarrow> (\<exists>imm. disassemble i = Some (B imm))"
  by (rule iffI, drule word_class_iff [THEN iffD1], metis disassemble_encode,
      elim exE, drule encode_disassemble, drule sym, simp add: word_eq_bits bit_beyond bit_simps)+

text \<open>What each class of instruction yields, for the base register the caller asks for.\<close>

fun add_offset :: "u8 \<Rightarrow> arm64_instr \<Rightarrow> u64 option" where
  "add_offset r (ADD_immediate rd rn imm shifted) =
     (if ucast rd = r \<and> ucast rn = r
      then Some (if shifted then push_bit 12 (ucast imm) else ucast imm) else None)"
| "add_offset r _ = None"

fun ldr_scaled_offset :: "arm64_instr \<Rightarrow> u64 option" where
  "ldr_scaled_offset (LDR_unsigned rt rn imm) = Some (8 * ucast imm)"
| "ldr_scaled_offset _ = None"

fun ldr_scaled_offset_from :: "u8 \<Rightarrow> arm64_instr \<Rightarrow> u64 option" where
  "ldr_scaled_offset_from r (LDR_unsigned rt rn imm) =
     (if ucast rn = r then Some (8 * ucast imm) else None)"
| "ldr_scaled_offset_from r _ = None"

fun ldr_pre_offset :: "arm64_instr \<Rightarrow> i64 option" where
  "ldr_pre_offset (LDR_pre_index rt rn imm) = Some (scast imm)"
| "ldr_pre_offset _ = None"

fun ldur_offset_from :: "u8 \<Rightarrow> arm64_instr \<Rightarrow> i64 option" where
  "ldur_offset_from r (LDUR rt rn imm) = (if ucast rn = r then Some (scast imm) else None)"
| "ldur_offset_from r _ = None"

fun movz_value :: "arm64_instr \<Rightarrow> u64 option" where
  "movz_value (MOVZ rd imm hw) = Some (push_bit (16 * unat hw) (ucast imm))"
| "movz_value _ = None"

lemma sign_extend_9: "RorkHookArm64SignExtend (ucast (imm :: 9 word)) 9 = scast imm"
  using sign_extend_scast [of imm] by simp

lemma sign_extend_21: "RorkHookArm64SignExtend (ucast (imm :: 21 word)) 21 = scast imm"
  using sign_extend_scast [of imm] by simp

lemma sign_extend_26: "RorkHookArm64SignExtend (ucast (imm :: 26 word)) 26 = scast imm"
  using sign_extend_scast [of imm] by simp

lemma push_bit_3: "push_bit 3 (w :: u64) = 8 * w"
  by (simp add: push_bit_eq_mult)

lemma unat_halfword: "unat (ucast (hw :: 2 word) * 16 :: u32) = 16 * unat hw"
proof -
  have "unat hw < 2 ^ LENGTH(2)" by (rule unsigned_less)
  then have "unat hw < 4" by simp
  then show ?thesis by (simp add: unat_word_ariths unsigned_ucast_eq take_bit_nat_eq_self)
qed

lemma DecodeADDImmediate_value:
  "RorkHookDecodeADDImmediate i r (Some old) =
     (case Option.bind (disassemble i) (add_offset r) of
        None \<Rightarrow> (False, Some old) | Some v \<Rightarrow> (True, Some v))"
proof (cases "disassemble i")
  case None
  then show ?thesis by (simp add: RorkHookDecodeADDImmediate_def ADD_test)
next
  case (Some x)
  then have "i = encode x" by (simp add: encode_disassemble)
  then show ?thesis
    by (cases x)
       (simp_all add: RorkHookDecodeADDImmediate_def ADD_test ADD_fields disassemble_encode
          ucast_via_u32 Let_def del: encode.simps)
qed

lemma DecodeLDRUnsigned64_value:
  "RorkHookDecodeLDRUnsigned64 i r (Some old) =
     (case Option.bind (disassemble i) (ldr_scaled_offset_from r) of
        None \<Rightarrow> (False, Some old) | Some v \<Rightarrow> (True, Some v))"
proof (cases "disassemble i")
  case None
  then show ?thesis by (simp add: RorkHookDecodeLDRUnsigned64_def LDR_unsigned_test)
next
  case (Some x)
  then have "i = encode x" by (simp add: encode_disassemble)
  then show ?thesis
    by (cases x)
       (simp_all add: RorkHookDecodeLDRUnsigned64_def LDR_unsigned_test LDR_unsigned_fields disassemble_encode
          ucast_via_u32 push_bit_3 Let_def del: encode.simps)
qed

lemma DecodeLDRUnsignedOffset64_value:
  "RorkHookDecodeLDRUnsignedOffset64 i (Some old) =
     (case Option.bind (disassemble i) (ldr_scaled_offset) of
        None \<Rightarrow> (False, Some old) | Some v \<Rightarrow> (True, Some v))"
proof (cases "disassemble i")
  case None
  then show ?thesis by (simp add: RorkHookDecodeLDRUnsignedOffset64_def LDR_unsigned_test)
next
  case (Some x)
  then have "i = encode x" by (simp add: encode_disassemble)
  then show ?thesis
    by (cases x)
       (simp_all add: RorkHookDecodeLDRUnsignedOffset64_def LDR_unsigned_test LDR_unsigned_fields disassemble_encode
          ucast_via_u32 push_bit_3 Let_def del: encode.simps)
qed

lemma DecodeLDRSignedPreIndex64_value:
  "RorkHookDecodeLDRSignedPreIndex64 i (Some old) =
     (case Option.bind (disassemble i) (ldr_pre_offset) of
        None \<Rightarrow> (False, Some old) | Some v \<Rightarrow> (True, Some v))"
proof (cases "disassemble i")
  case None
  then show ?thesis by (simp add: RorkHookDecodeLDRSignedPreIndex64_def LDR_pre_index_test)
next
  case (Some x)
  then have "i = encode x" by (simp add: encode_disassemble)
  then show ?thesis
    by (cases x)
       (simp_all add: RorkHookDecodeLDRSignedPreIndex64_def LDR_pre_index_test LDR_pre_index_fields disassemble_encode
          ucast_via_u32 sign_extend_9 Let_def del: encode.simps)
qed

lemma DecodeLDUR64_value:
  "RorkHookDecodeLDUR64 i r (Some old) =
     (case Option.bind (disassemble i) (ldur_offset_from r) of
        None \<Rightarrow> (False, Some old) | Some v \<Rightarrow> (True, Some v))"
proof (cases "disassemble i")
  case None
  then show ?thesis by (simp add: RorkHookDecodeLDUR64_def LDUR_test)
next
  case (Some x)
  then have "i = encode x" by (simp add: encode_disassemble)
  then show ?thesis
    by (cases x)
       (simp_all add: RorkHookDecodeLDUR64_def LDUR_test LDUR_fields disassemble_encode
          ucast_via_u32 sign_extend_9 Let_def del: encode.simps)
qed

lemma DecodeMOVZImmediate_value:
  "RorkHookDecodeMOVZImmediate i (Some old) =
     (case Option.bind (disassemble i) (movz_value) of
        None \<Rightarrow> (False, Some old) | Some v \<Rightarrow> (True, Some v))"
proof (cases "disassemble i")
  case None
  then show ?thesis by (simp add: RorkHookDecodeMOVZImmediate_def MOVZ_test)
next
  case (Some x)
  then have "i = encode x" by (simp add: encode_disassemble)
  then show ?thesis
    by (cases x)
       (simp_all add: RorkHookDecodeMOVZImmediate_def MOVZ_test MOVZ_fields disassemble_encode
          ucast_via_u32 unat_halfword Let_def del: encode.simps)
qed

section \<open>The shared output contract\<close>

interpretation dec_add: out_param
  "\<lambda>(i, r). RorkHookDecodeADDImmediate i r"
  "\<lambda>(i, r). Option.bind (disassemble i) (add_offset r)"
  by unfold_locales
     (auto simp: DecodeADDImmediate_value, simp add: RorkHookDecodeADDImmediate_def)

interpretation dec_ldr: out_param
  "\<lambda>(i, r). RorkHookDecodeLDRUnsigned64 i r"
  "\<lambda>(i, r). Option.bind (disassemble i) (ldr_scaled_offset_from r)"
  by unfold_locales
     (auto simp: DecodeLDRUnsigned64_value, simp add: RorkHookDecodeLDRUnsigned64_def)

interpretation dec_ldr_any: out_param
  RorkHookDecodeLDRUnsignedOffset64 "\<lambda>i. Option.bind (disassemble i) ldr_scaled_offset"
  by unfold_locales
     (auto simp: DecodeLDRUnsignedOffset64_value, simp add: RorkHookDecodeLDRUnsignedOffset64_def)

interpretation dec_ldr_pre: out_param
  RorkHookDecodeLDRSignedPreIndex64 "\<lambda>i. Option.bind (disassemble i) ldr_pre_offset"
  by unfold_locales
     (auto simp: DecodeLDRSignedPreIndex64_value, simp add: RorkHookDecodeLDRSignedPreIndex64_def)

interpretation dec_ldur: out_param
  "\<lambda>(i, r). RorkHookDecodeLDUR64 i r"
  "\<lambda>(i, r). Option.bind (disassemble i) (ldur_offset_from r)"
  by unfold_locales (auto simp: DecodeLDUR64_value, simp add: RorkHookDecodeLDUR64_def)

interpretation dec_movz: out_param
  RorkHookDecodeMOVZImmediate "\<lambda>i. Option.bind (disassemble i) movz_value"
  by unfold_locales
     (auto simp: DecodeMOVZImmediate_value, simp add: RorkHookDecodeMOVZImmediate_def)

section \<open>Page and branch displacements\<close>

lemma sint_scaled_displacement:
  fixes imm :: "'a::len word"
  assumes "LENGTH('a) \<le> 32" and k: "0 \<le> k" "k \<le> 4096"
  shows "sint (scast imm * word_of_int k :: i64) = sint imm * k"
proof -
  have "2 ^ (LENGTH('a) - 1) \<le> (2 :: int) ^ 31"
    using assms(1) by (intro power_increasing) auto
  then have b: "- (2 ^ 31) \<le> sint imm" "sint imm < 2 ^ 31"
    using sint_ge [of imm] sint_lt [of imm] by linarith+
  have "\<bar>sint imm\<bar> \<le> 2 ^ 31" "\<bar>k\<bar> \<le> 4096" using b k by linarith+
  from mult_mono [OF this] have "\<bar>sint imm * k\<bar> \<le> 2 ^ 31 * 4096"
    by (simp add: abs_mult)
  moreover have "sint (scast imm * word_of_int k :: i64) = signed_take_bit 63 (sint imm * k)"
  proof -
    have "(scast imm * word_of_int k :: i64) = word_of_int (sint imm * k)"
      by (simp only: scast_eq wi_hom_mult)
    then show ?thesis by (simp only: sint_sbintrunc') simp
  qed
  ultimately show ?thesis
    by (simp add: signed_take_bit_int_eq_self abs_le_iff)
qed

lemma DecodeADRP_encode:
  "RorkHookDecodeADRP (encode (ADRP rd imm)) pc (Some r0) (Some p0) =
     (case offset_sum (pc AND NOT 0xfff) (scast imm * 4096) of
        None \<Rightarrow> (False, Some r0, Some p0)
      | Some page \<Rightarrow> (True, Some (ucast rd), Some page))"
proof -
  have "encode (ADRP rd imm) AND 0x9f000000 = 0x90000000"
    by (simp only: ADRP_test disassemble_encode) blast
  then show ?thesis
    by (simp add: RorkHookDecodeADRP_def ADRP_fields ADRP_immediate ucast_via_u32 sign_extend_21
        AddSignedOffset_value Let_def del: encode.simps split: option.split)
qed

lemma FollowOneBranch_value:
  "RorkHookFollowOneBranch m p =
     (case disassemble (load32 m p) of
        Some (B imm) \<Rightarrow> if p = 0 then 0 else
          (case offset_sum p (scast imm * 4) of None \<Rightarrow> p | Some target \<Rightarrow> target)
      | _ \<Rightarrow> p)"
proof (cases "disassemble (load32 m p)")
  case None
  then show ?thesis by (simp add: RorkHookFollowOneBranch_def B_test Let_def)
next
  case (Some x)
  then have "load32 m p = encode x" by (simp add: encode_disassemble)
  then show ?thesis
    by (cases x)
       (simp_all add: RorkHookFollowOneBranch_def B_test B_fields disassemble_encode ucast_via_u32
          sign_extend_26 AddSignedOffset_value Let_def del: encode.simps split: option.split)
qed

section \<open>Correctness of the decoders\<close>

lemma disassemble_iff: "disassemble i = Some x \<longleftrightarrow> i = encode x"
  by (auto simp: disassemble_encode encode_disassemble)

lemma operand_iff:
  "Option.bind (disassemble i) f = Some v \<longleftrightarrow> (\<exists>x. i = encode x \<and> f x = Some v)"
  by (auto simp: bind_eq_Some_conv disassemble_iff)

lemma operand_some:
  "add_offset r x = Some u \<longleftrightarrow>
     (\<exists>rd rn imm sh. x = ADD_immediate rd rn imm sh \<and> ucast rd = r \<and> ucast rn = r \<and>
        u = (if sh then push_bit 12 (ucast imm) else ucast imm))"
  "ldr_scaled_offset x = Some u \<longleftrightarrow> (\<exists>rt rn imm. x = LDR_unsigned rt rn imm \<and> u = 8 * ucast imm)"
  "ldr_scaled_offset_from r x = Some u \<longleftrightarrow>
     (\<exists>rt rn imm. x = LDR_unsigned rt rn imm \<and> ucast rn = r \<and> u = 8 * ucast imm)"
  "ldr_pre_offset x = Some v \<longleftrightarrow> (\<exists>rt rn imm. x = LDR_pre_index rt rn imm \<and> v = scast imm)"
  "ldur_offset_from r x = Some v \<longleftrightarrow>
     (\<exists>rt rn imm. x = LDUR rt rn imm \<and> ucast rn = r \<and> v = scast imm)"
  "movz_value x = Some u \<longleftrightarrow>
     (\<exists>rd imm hw. x = MOVZ rd imm hw \<and> u = push_bit (16 * unat hw) (ucast imm))"
  by (cases x; auto)+

lemma case_out_iff:
  "(case r of None \<Rightarrow> (False, Some old) | Some v \<Rightarrow> (True, Some v)) = (True, Some w) \<longleftrightarrow> r = Some w"
  by (cases r) auto

lemmas decoder_values =
  DecodeADDImmediate_value DecodeLDRUnsigned64_value DecodeLDRUnsignedOffset64_value
  DecodeLDRSignedPreIndex64_value DecodeLDUR64_value DecodeMOVZImmediate_value

lemma DecodeADRP_cases:
  "(fst (RorkHookDecodeADRP i pc rOut pOut) \<and> rOut \<noteq> None \<and> pOut \<noteq> None) \<or>
     RorkHookDecodeADRP i pc rOut pOut = (False, rOut, pOut)"
  by (auto simp: RorkHookDecodeADRP_def Let_def split: prod.splits bool.splits option.splits)

text \<open>
  \<open>RorkHookArm64SignExtend\<close> is two's-complement sign extension of the low \<open>bits\<close> bits for
  every width from 1 to 64, ignores the bits above, and returns 0 for any other width.
\<close>

lemma SignExtend_correct:
  "RorkHookArm64SignExtend v bits =
     (if 1 \<le> bits \<and> bits \<le> 64
      then word_of_int (signed_take_bit (nat bits - 1) (uint v)) else 0)"
proof (cases "1 \<le> bits \<and> bits \<le> 64")
  case True
  then have "word_of_int (sint (RorkHookArm64SignExtend v bits)) =
      (word_of_int (signed_take_bit (nat bits - 1) (uint v)) :: i64)"
    using sint_sign_extend [of bits v] by (simp del: of_int_sint)
  with True show ?thesis by simp
qed (auto simp: RorkHookArm64SignExtend_def)

text \<open>
  \<open>RorkHookDecodeADRP\<close> succeeds exactly on \<open>ADRP\<close> words whose target page exists: the
  register is the destination field and the page is the page of \<open>pc\<close> plus the signed 21-bit
  page count times 4096, computed without wrap-around of the address space.
\<close>

lemma DecodeADRP_exact:
  "RorkHookDecodeADRP i pc (Some r0) (Some p0) = (True, Some r, Some p) \<longleftrightarrow>
     (\<exists>rd imm. i = encode (ADRP rd imm) \<and> r = ucast rd \<and>
        uint p = uint (pc AND NOT 0xfff) + 4096 * sint imm)"
proof -
  have "sint (scast imm * 4096 :: i64) = 4096 * sint imm" for imm :: "21 word"
    using sint_scaled_displacement [of 4096 imm] by simp
  note enc = DecodeADRP_encode offset_sum_Some this
  show ?thesis
  proof
    assume d: "RorkHookDecodeADRP i pc (Some r0) (Some p0) = (True, Some r, Some p)"
    then have "i AND 0x9f000000 = 0x90000000"
      by (auto simp: RorkHookDecodeADRP_def split: if_splits)
    then obtain rd imm where "i = encode (ADRP rd imm)"
      unfolding ADRP_test disassemble_iff by blast
    with d show "\<exists>rd imm. i = encode (ADRP rd imm) \<and> r = ucast rd \<and>
        uint p = uint (pc AND NOT 0xfff) + 4096 * sint imm"
      by (auto simp: enc simp del: encode.simps split: option.splits)
  next
    assume "\<exists>rd imm. i = encode (ADRP rd imm) \<and> r = ucast rd \<and>
        uint p = uint (pc AND NOT 0xfff) + 4096 * sint imm"
    then obtain rd imm where i: "i = encode (ADRP rd imm)" "r = ucast rd"
      and "offset_sum (pc AND NOT 0xfff) (scast imm * 4096) = Some p"
      by (auto simp: enc simp del: encode.simps)
    then show "RorkHookDecodeADRP i pc (Some r0) (Some p0) = (True, Some r, Some p)"
      by (simp add: DecodeADRP_encode del: encode.simps)
  qed
qed

text \<open>
  C35: The decoders accept exactly their own instruction class, with the requested base register where
  there is one: \<open>ADRP\<close> yields its register and the page of \<open>pc\<close> plus 4096 times the signed page count,
  if that is an address, \<open>ADD\<close> yields the plain or 12-bit-shifted immediate, \<open>LDR\<close> the
  immediate scaled by eight, \<open>LDUR\<close> and pre-indexed \<open>LDR\<close> the sign-extended displacement (and
  never each other's words), \<open>MOVZ\<close> the immediate in its halfword.
\<close>

theorem operand_decoders_exact:
  "(RorkHookDecodeADRP i pc (Some r0) (Some p0) = (True, Some rr, Some p) \<longleftrightarrow>
     (\<exists>rd imm. i = encode (ADRP rd imm) \<and> rr = ucast rd \<and>
        uint p = uint (pc AND NOT 0xfff) + 4096 * sint imm)) \<and>
   (RorkHookDecodeADDImmediate i r (Some old) = (True, Some u) \<longleftrightarrow>
     (\<exists>rd rn imm sh. i = encode (ADD_immediate rd rn imm sh) \<and> ucast rd = r \<and> ucast rn = r \<and>
        u = (if sh then push_bit 12 (ucast imm) else ucast imm))) \<and>
   (RorkHookDecodeLDRUnsigned64 i r (Some old) = (True, Some u) \<longleftrightarrow>
     (\<exists>rt rn imm. i = encode (LDR_unsigned rt rn imm) \<and> ucast rn = r \<and> u = 8 * ucast imm)) \<and>
   (RorkHookDecodeLDRUnsignedOffset64 i (Some old) = (True, Some u) \<longleftrightarrow>
     (\<exists>rt rn imm. i = encode (LDR_unsigned rt rn imm) \<and> u = 8 * ucast imm)) \<and>
   (RorkHookDecodeLDRSignedPreIndex64 i (Some old) = (True, Some v) \<longleftrightarrow>
     (\<exists>rt rn imm. i = encode (LDR_pre_index rt rn imm) \<and> v = scast imm)) \<and>
   (RorkHookDecodeLDUR64 i r (Some old) = (True, Some v) \<longleftrightarrow>
     (\<exists>rt rn imm. i = encode (LDUR rt rn imm) \<and> ucast rn = r \<and> v = scast imm)) \<and>
   (RorkHookDecodeMOVZImmediate i (Some old) = (True, Some u) \<longleftrightarrow>
     (\<exists>rd imm hw. i = encode (MOVZ rd imm hw) \<and> u = push_bit (16 * unat hw) (ucast imm)))"
  by (rule conjI [OF DecodeADRP_exact], unfold decoder_values case_out_iff operand_iff operand_some, intro conjI) blast+

text \<open>
  No decoder touches its output storage unless it succeeds, and none succeeds without
  storage.
\<close>

lemma decoders_keep_storage:
  "((fst (RorkHookDecodeADRP i pc rOut pOut) \<and> rOut \<noteq> None \<and> pOut \<noteq> None) \<or>
     RorkHookDecodeADRP i pc rOut pOut = (False, rOut, pOut)) \<and>
   ((fst (RorkHookDecodeADDImmediate i r out) \<and> out \<noteq> None) \<or>
     RorkHookDecodeADDImmediate i r out = (False, out)) \<and>
   ((fst (RorkHookDecodeLDRUnsigned64 i r out) \<and> out \<noteq> None) \<or>
     RorkHookDecodeLDRUnsigned64 i r out = (False, out)) \<and>
   ((fst (RorkHookDecodeLDRUnsignedOffset64 i out) \<and> out \<noteq> None) \<or>
     RorkHookDecodeLDRUnsignedOffset64 i out = (False, out)) \<and>
   ((fst (RorkHookDecodeLDRSignedPreIndex64 i out) \<and> out \<noteq> None) \<or>
     RorkHookDecodeLDRSignedPreIndex64 i out = (False, out)) \<and>
   ((fst (RorkHookDecodeLDUR64 i r out) \<and> out \<noteq> None) \<or>
     RorkHookDecodeLDUR64 i r out = (False, out)) \<and>
   ((fst (RorkHookDecodeMOVZImmediate i out) \<and> out \<noteq> None) \<or>
     RorkHookDecodeMOVZImmediate i out = (False, out))"
  using DecodeADRP_cases [of i pc rOut pOut]
    dec_add.storage_cases [of "(i, r)" out] dec_ldr.storage_cases [of "(i, r)" out]
    dec_ldr_any.storage_cases [of i out] dec_ldr_pre.storage_cases [of i out]
    dec_ldur.storage_cases [of "(i, r)" out] dec_movz.storage_cases [of i out]
  by (simp only: prod.case)

text \<open>
  C36: \<open>RorkHookFollowOneBranch\<close> goes to the target of an unconditional \<open>B\<close> at a non-null
  address when that target is inside the address space, and returns its argument for every
  other word (\<open>BL\<close> included) and for targets that would wrap around.
\<close>

theorem FollowOneBranch_exact:
  "uint (RorkHookFollowOneBranch m p) =
     (case disassemble (load32 m p) of
        Some (B imm) \<Rightarrow>
          if p \<noteq> 0 \<and> 0 \<le> uint p + 4 * sint imm \<and> uint p + 4 * sint imm < 2 ^ 64
          then uint p + 4 * sint imm else uint p
      | _ \<Rightarrow> uint p)"
proof -
  have "sint (scast imm * 4 :: i64) = 4 * sint imm" for imm :: "26 word"
    using sint_scaled_displacement [of 4 imm] by simp
  note off = this
  have "uint (case offset_sum p (scast imm * 4) of None \<Rightarrow> p | Some t \<Rightarrow> t) =
      (if 0 \<le> uint p + 4 * sint imm \<and> uint p + 4 * sint imm < 2 ^ 64
       then uint p + 4 * sint imm else uint p)" for imm :: "26 word"
  proof (cases "offset_sum p (scast imm * 4)")
    case None
    then show ?thesis by (auto simp: offset_sum_def off split: if_splits)
  next
    case (Some t)
    then have "uint t = uint p + 4 * sint imm" by (simp add: offset_sum_Some off)
    then show ?thesis using Some uint_bounds_u64 [of t] by simp
  qed
  then show ?thesis
    by (auto simp: FollowOneBranch_value split: option.split arm64_instr.split)
qed

end
