(* ===== verification/Platform.thy ===== *)
theory Platform
  imports Prelude
begin

text \<open>
  The process the library runs in. The library's own state is the calling thread's view of the
  address space; everything else (the Mach VM system, the TPRO system register, pointer
  authentication) is the platform and is not part of the repository.

  \<open>'w machine\<close> holds the byte contents of memory, the platform's hidden state \<open>'w\<close> (page
  protections, mapped regions, the thread's TPRO register) and the trace of the effects the
  library performed, oldest first. \<open>'w platform\<close> collects what the sources take from outside:
  the compile-time configuration (each \<open>#if\<close> of the sources is a Boolean, so that both branches
  are modelled) and the system functions they call, as functions on the hidden state. No
  definition here says how these functions behave; theorems that rely on documented behaviour
  take it as a named hypothesis.

  \<open>vm_protect\<close> is the library stub for the calling task with \<open>set_maximum\<close> false. \<open>svc\<close> is what the
  kernel does on a supervisor call: it is given the trap number from \<open>x16\<close> and the argument registers
  from \<open>x0\<close> on, and yields the new \<open>x0\<close>. \<open>vm_region_64\<close> stands for the call together with the release of the object-name port right
  that the sources perform right after it.
\<close>

type_synonym vm_prot = u32
type_synonym kern_return = u32

abbreviation KERN_SUCCESS :: kern_return where "KERN_SUCCESS \<equiv> 0"
abbreviation KERN_INVALID_ADDRESS :: kern_return where "KERN_INVALID_ADDRESS \<equiv> 1"
abbreviation KERN_PROTECTION_FAILURE :: kern_return where "KERN_PROTECTION_FAILURE \<equiv> 2"
abbreviation KERN_INVALID_ARGUMENT :: kern_return where "KERN_INVALID_ARGUMENT \<equiv> 4"
abbreviation KERN_NOT_SUPPORTED :: kern_return where "KERN_NOT_SUPPORTED \<equiv> 46"

abbreviation VM_PROT_READ :: vm_prot where "VM_PROT_READ \<equiv> 1"
abbreviation VM_PROT_WRITE :: vm_prot where "VM_PROT_WRITE \<equiv> 2"
abbreviation VM_PROT_EXECUTE :: vm_prot where "VM_PROT_EXECUTE \<equiv> 4"
abbreviation VM_PROT_COPY :: vm_prot where "VM_PROT_COPY \<equiv> 0x10"

datatype event =
    Protect u64 u64 vm_prot kern_return
  | Write u64 nat
  | DcacheFlush u64 u64
  | IcacheInvalidate u64 u64
  | SetTPRO u64
  | FileOpen int
  | FileClose int
  | FileMap u64 u64
  | FileUnmap u64 u64

record 'w machine =
  mem :: memory
  world :: 'w
  events :: "event list"

record 'w platform =
  arm64 :: bool
  device_arm64 :: bool
  ptrauth_calls :: bool
  has_security_config :: bool
  available_ios26 :: bool
  os_security_config :: u32
  os_security_config_TPRO :: u32
  getpagesize :: u32
  vm_page_size :: u64
  vm_protect :: "'w \<Rightarrow> u64 \<Rightarrow> u64 \<Rightarrow> vm_prot \<Rightarrow> kern_return \<times> 'w"
  mach_task_self :: u64
  svc :: "'w \<Rightarrow> u64 \<Rightarrow> u64 list \<Rightarrow> u64 \<times> 'w"
  vm_region_64 :: "'w \<Rightarrow> u64 \<Rightarrow> kern_return \<times> u64 \<times> u64 \<times> vm_prot"
  task_dyld_info :: "'w \<Rightarrow> kern_return \<times> u64"
  sizeof_dyld_all_image_infos :: u64
  offsetof_sharedCacheSlide :: u64
  mrs_tpro :: "'w \<Rightarrow> u64"
  msr_tpro :: "u64 \<Rightarrow> 'w \<Rightarrow> 'w"
  ptrauth_strip :: "u64 \<Rightarrow> u64"
  ptrauth_sign_unauthenticated :: "u64 \<Rightarrow> u64 \<Rightarrow> u64"

section \<open>Elementary effects\<close>

definition emit :: "event \<Rightarrow> 'w machine \<Rightarrow> 'w machine" where
  "emit e s = s\<lparr>events := events s @ [e]\<rparr>"

text \<open>\<open>memcpy(dst, src, length bs)\<close> with the source bytes already read.\<close>

definition write_bytes :: "u64 \<Rightarrow> u8 list \<Rightarrow> 'w machine \<Rightarrow> 'w machine" where
  "write_bytes a bs s = emit (Write a (length bs)) (s\<lparr>mem := store_bytes (mem s) a bs\<rparr>)"

definition sys_dcache_flush :: "u64 \<Rightarrow> u64 \<Rightarrow> 'w machine \<Rightarrow> 'w machine" where
  "sys_dcache_flush a n = emit (DcacheFlush a n)"

definition sys_icache_invalidate :: "u64 \<Rightarrow> u64 \<Rightarrow> 'w machine \<Rightarrow> 'w machine" where
  "sys_icache_invalidate a n = emit (IcacheInvalidate a n)"

lemma emit_simps [simp]:
  "mem (emit e s) = mem s" "world (emit e s) = world s"
  "events (emit e s) = events s @ [e]"
  by (simp_all add: emit_def)

lemma write_bytes_simps [simp]:
  "mem (write_bytes a bs s) = store_bytes (mem s) a bs" "world (write_bytes a bs s) = world s"
  "events (write_bytes a bs s) = events s @ [Write a (length bs)]"
  by (simp_all add: write_bytes_def)

lemma cache_simps [simp]:
  "mem (sys_dcache_flush a n s) = mem s" "world (sys_dcache_flush a n s) = world s"
  "events (sys_dcache_flush a n s) = events s @ [DcacheFlush a n]"
  "mem (sys_icache_invalidate a n s) = mem s" "world (sys_icache_invalidate a n s) = world s"
  "events (sys_icache_invalidate a n s) = events s @ [IcacheInvalidate a n]"
  by (simp_all add: sys_dcache_flush_def sys_icache_invalidate_def)

end
