(* ===== verification/Regions.thy ===== *)
theory Regions
  imports Platform
begin

text \<open>
  The VM-region helpers of \<open>Sources/RorkHook/RorkHookInternal.c\<close>: which region holds an
  address, how many readable bytes follow it, and the decisions taken from that (readable
  ranges, signing of executable pointers, the slide published by dyld). Every dereference of
  the library that is derived from untrusted metadata is guarded by
  \<open>RorkHookMemoryIsReadable\<close>; the property of this theory says exactly what that guard
  establishes.
\<close>

section \<open>Region queries\<close>

definition RorkHookQueryRegion ::
  "'w platform \<Rightarrow> 'w \<Rightarrow> u64 \<Rightarrow> (u64 \<times> u64 \<times> vm_prot) option" where
  "RorkHookQueryRegion pf w address =
     (if address = 0 then None
      else
        case vm_region_64 pf w address of (result, regionAddress, regionSize, protection) \<Rightarrow>
          if result \<noteq> KERN_SUCCESS then None
          else
            let requestedAddress = address;
                regionStart = regionAddress;
                regionEnd = regionStart + regionSize
            in
            if regionEnd < regionStart \<or> requestedAddress < regionStart \<or>
               regionEnd \<le> requestedAddress
            then None
            else Some (regionAddress, regionSize, protection))"

definition RorkHookMemoryProtection ::
  "'w platform \<Rightarrow> 'w \<Rightarrow> u64 \<Rightarrow> vm_prot outp \<Rightarrow> bool \<times> vm_prot outp" where
  "RorkHookMemoryProtection pf w address protectionOut =
     (case protectionOut of
        None \<Rightarrow> (False, None)
      | Some _ \<Rightarrow>
          (case RorkHookQueryRegion pf w address of
             None \<Rightarrow> (False, protectionOut)
           | Some (regionAddress, regionSize, protection) \<Rightarrow> (True, Some protection)))"

definition RorkHookReadableMemoryLength :: "'w platform \<Rightarrow> 'w \<Rightarrow> u64 \<Rightarrow> u64" where
  "RorkHookReadableMemoryLength pf w address =
     (case RorkHookQueryRegion pf w address of
        None \<Rightarrow> 0
      | Some (regionAddress, regionSize, protection) \<Rightarrow>
          if protection AND VM_PROT_READ = 0 then 0
          else
            let start = address;
                regionStart = regionAddress;
                regionEnd = regionStart + regionSize
            in
            if regionEnd < regionStart \<or> start < regionStart \<or> regionEnd \<le> start then 0
            else regionEnd - start)"

definition RorkHookMemoryIsReadable :: "'w platform \<Rightarrow> 'w \<Rightarrow> u64 \<Rightarrow> u64 \<Rightarrow> bool" where
  "RorkHookMemoryIsReadable pf w address len =
     (len \<noteq> 0 \<and> len \<le> RorkHookReadableMemoryLength pf w address)"

definition RorkHookSignPointerIfExecutable :: "'w platform \<Rightarrow> 'w \<Rightarrow> u64 \<Rightarrow> u64" where
  "RorkHookSignPointerIfExecutable pf w pointer =
     (if pointer = 0 then 0
      else if ptrauth_calls pf then
        let rawPointer = ptrauth_strip pf pointer in
        case RorkHookQueryRegion pf w rawPointer of
          Some (regionAddress, regionSize, protection) \<Rightarrow>
            if protection AND VM_PROT_EXECUTE \<noteq> 0
            then ptrauth_sign_unauthenticated pf rawPointer 0
            else pointer
        | None \<Rightarrow> pointer
      else pointer)"

definition RorkHookSharedCacheSlide :: "'w platform \<Rightarrow> 'w machine \<Rightarrow> u64" where
  "RorkHookSharedCacheSlide pf s =
     (case task_dyld_info pf (world s) of (result, all_image_info_addr) \<Rightarrow>
        if result \<noteq> KERN_SUCCESS \<or> all_image_info_addr = 0 then 0
        else
          let imageInfos = all_image_info_addr in
          if \<not> RorkHookMemoryIsReadable pf (world s) imageInfos (sizeof_dyld_all_image_infos pf) \<or>
             load32 (mem s) imageInfos < 12
          then 0
          else load64 (mem s) (imageInfos + offsetof_sharedCacheSlide pf))"

section \<open>What the queries establish\<close>

text \<open>The protection of the page that holds an address, as the region query reports it.\<close>

definition protection_of :: "'w platform \<Rightarrow> 'w \<Rightarrow> u64 \<Rightarrow> vm_prot option" where
  "protection_of pf w a = map_option (snd \<circ> snd) (RorkHookQueryRegion pf w a)"

lemma QueryRegion_Some:
  "RorkHookQueryRegion pf w a = Some (start, rsize, prot) \<longleftrightarrow>
     a \<noteq> 0 \<and> vm_region_64 pf w a = (KERN_SUCCESS, start, rsize, prot) \<and>
     unat start + unat rsize < 2 ^ 64 \<and> unat start \<le> unat a \<and> unat a < unat start + unat rsize"
proof -
  have "(\<not> start + rsize < start \<and> \<not> a < start \<and> \<not> start + rsize \<le> a) \<longleftrightarrow>
      unat start + unat rsize < 2 ^ 64 \<and> unat start \<le> unat a \<and> unat a < unat start + unat rsize"
    using unsigned_less [of start, where ?'a = nat] unsigned_less [of rsize, where ?'a = nat]
    by (auto simp: word_less_nat_alt word_le_nat_alt unat_plus_if' not_less)
  then show ?thesis
    by (auto simp: RorkHookQueryRegion_def Let_def split: prod.splits)
qed

lemma ReadableMemoryLength_Some:
  assumes "RorkHookQueryRegion pf w a = Some (start, rsize, prot)" "prot AND VM_PROT_READ \<noteq> 0"
  shows "unat (RorkHookReadableMemoryLength pf w a) = unat start + unat rsize - unat a"
proof -
  have q: "unat start + unat rsize < 2 ^ 64" "unat start \<le> unat a" "unat a < unat start + unat rsize"
    using assms(1) by (simp_all add: QueryRegion_Some)
  then have e: "unat (start + rsize) = unat start + unat rsize" by (simp add: unat_add_no_wrap)
  with q have "a \<le> start + rsize" by (simp add: word_le_nat_alt)
  then show ?thesis
    using assms q e
    by (simp add: RorkHookReadableMemoryLength_def Let_def word_less_nat_alt word_le_nat_alt unat_sub)
qed

lemma ReadableMemoryLength_None:
  "RorkHookQueryRegion pf w a = None \<Longrightarrow> RorkHookReadableMemoryLength pf w a = 0"
  by (simp add: RorkHookReadableMemoryLength_def)

lemma ReadableMemoryLength_unreadable:
  "RorkHookQueryRegion pf w a = Some (start, rsize, prot) \<Longrightarrow> prot AND VM_PROT_READ = 0 \<Longrightarrow>
     RorkHookReadableMemoryLength pf w a = 0"
  by (simp add: RorkHookReadableMemoryLength_def)

lemma MemoryIsReadable_iff:
  "RorkHookMemoryIsReadable pf w a n \<longleftrightarrow>
     0 < unat n \<and>
     (\<exists>start rsize prot. RorkHookQueryRegion pf w a = Some (start, rsize, prot) \<and>
        prot AND VM_PROT_READ \<noteq> 0 \<and> unat a + unat n \<le> unat start + unat rsize)"
proof (cases "RorkHookQueryRegion pf w a")
  case None
  then show ?thesis
    by (auto simp: RorkHookMemoryIsReadable_def ReadableMemoryLength_None unat_gt_0)
next
  case (Some r)
  obtain start rsize prot where r: "r = (start, rsize, prot)" by (cases r) auto
  show ?thesis
  proof (cases "prot AND VM_PROT_READ = 0")
    case True
    with Some r show ?thesis
      by (auto simp: RorkHookMemoryIsReadable_def ReadableMemoryLength_unreadable unat_gt_0)
  next
    case False
    then have len: "unat (RorkHookReadableMemoryLength pf w a) = unat start + unat rsize - unat a"
      using Some r by (simp add: ReadableMemoryLength_Some)
    have "unat a < unat start + unat rsize" using Some r by (simp add: QueryRegion_Some)
    with False Some r len show ?thesis
      by (auto simp: RorkHookMemoryIsReadable_def word_le_nat_alt unat_gt_0)
  qed
qed

interpretation mem_prot: out_param
  "\<lambda>(pf, w, a). RorkHookMemoryProtection pf w a" "\<lambda>(pf, w, a). protection_of pf w a"
  by unfold_locales
     (auto simp: RorkHookMemoryProtection_def protection_of_def split: option.splits)

text \<open>
  \<open>RorkHookMemoryIsReadable(a, n)\<close> holds exactly when the range is nonempty, \<open>a\<close> is not null,
  and the region the kernel reports for \<open>a\<close> is readable, does not wrap around the address space
  and contains all of the bytes from \<open>a\<close> to \<open>a + n\<close>.
\<close>

lemma MemoryIsReadable_exact:
  "RorkHookMemoryIsReadable pf w a n \<longleftrightarrow>
     a \<noteq> 0 \<and> 0 < unat n \<and>
     (\<exists>start rsize prot. vm_region_64 pf w a = (KERN_SUCCESS, start, rsize, prot) \<and>
        prot AND VM_PROT_READ \<noteq> 0 \<and> unat start \<le> unat a \<and>
        unat a + unat n \<le> unat start + unat rsize \<and> unat start + unat rsize < 2 ^ 64)"
  unfolding MemoryIsReadable_iff QueryRegion_Some by fastforce

end
