(* ===== verification/Load_Commands.thy ===== *)
theory Load_Commands
  imports Regions
begin

text \<open>
  Load-command validation and iteration, and the image slide computed from it
  (\<open>Sources/RorkHook/RorkHookInternal.c\<close>, with the record aliases of
  \<open>private/RorkHookInternal.h\<close> and the field offsets of the LP64 structures of
  \<open>mach-o/loader.h\<close>).

  A visitor is a C callback: it gets the address of a command, its index, the machine and its
  own context, and returns whether to go on. The iteration re-reads \<open>ncmds\<close> and \<open>cmdsize\<close> from
  memory on every step, as the C loop does, so a visitor that writes to memory is modelled
  faithfully. Contexts are never null: every caller passes the address of a local.

  The specification is \<open>command_offsets\<close>: with natural numbers and structural recursion it lists
  the byte offsets of the commands of a well-formed table. Validation accepts exactly the
  well-formed tables, iteration visits exactly these offsets in order, and neither reads outside
  the mapping.
\<close>

section \<open>Binary records\<close>

abbreviation MH_MAGIC_64 :: u32 where "MH_MAGIC_64 \<equiv> 0xfeedfacf"
abbreviation LC_SEGMENT_64 :: u32 where "LC_SEGMENT_64 \<equiv> 0x19"
abbreviation RORK_HOOK_MH_MAGIC :: u32 where "RORK_HOOK_MH_MAGIC \<equiv> MH_MAGIC_64"
abbreviation RORK_HOOK_LC_SEGMENT :: u32 where "RORK_HOOK_LC_SEGMENT \<equiv> LC_SEGMENT_64"
abbreviation LC_SYMTAB :: u32 where "LC_SYMTAB \<equiv> 0x2"
abbreviation sizeof_mach_header :: u64 where "sizeof_mach_header \<equiv> 32"
abbreviation sizeof_load_command :: u32 where "sizeof_load_command \<equiv> 8"
abbreviation sizeof_segment_command :: u32 where "sizeof_segment_command \<equiv> 72"
abbreviation RORK_HOOK_LOAD_COMMAND_ALIGNMENT :: u32 where "RORK_HOOK_LOAD_COMMAND_ALIGNMENT \<equiv> 8"

definition header_magic :: "memory \<Rightarrow> u64 \<Rightarrow> u32" where [layout_simps]: "header_magic m h = load32 m h"
definition header_ncmds :: "memory \<Rightarrow> u64 \<Rightarrow> u32" where [layout_simps]: "header_ncmds m h = load32 m (h + 16)"
definition header_sizeofcmds :: "memory \<Rightarrow> u64 \<Rightarrow> u32" where [layout_simps]: "header_sizeofcmds m h = load32 m (h + 20)"

definition command_cmd :: "memory \<Rightarrow> u64 \<Rightarrow> u32" where [layout_simps]: "command_cmd m c = load32 m c"
definition command_cmdsize :: "memory \<Rightarrow> u64 \<Rightarrow> u32" where [layout_simps]: "command_cmdsize m c = load32 m (c + 4)"

definition segment_segname :: "memory \<Rightarrow> u64 \<Rightarrow> u8 list" where [layout_simps]: "segment_segname m c = load_bytes m (c + 8) 16"
definition segment_vmaddr :: "memory \<Rightarrow> u64 \<Rightarrow> u64" where [layout_simps]: "segment_vmaddr m c = load64 m (c + 24)"
definition segment_vmsize :: "memory \<Rightarrow> u64 \<Rightarrow> u64" where [layout_simps]: "segment_vmsize m c = load64 m (c + 32)"
definition segment_fileoff :: "memory \<Rightarrow> u64 \<Rightarrow> u64" where [layout_simps]: "segment_fileoff m c = load64 m (c + 40)"
definition segment_filesize :: "memory \<Rightarrow> u64 \<Rightarrow> u64" where [layout_simps]: "segment_filesize m c = load64 m (c + 48)"
definition segment_nsects :: "memory \<Rightarrow> u64 \<Rightarrow> u32" where [layout_simps]: "segment_nsects m c = load32 m (c + 64)"

section \<open>Validation\<close>

function validate_loop :: "memory \<Rightarrow> u64 \<Rightarrow> u64 \<Rightarrow> u32 \<Rightarrow> u32 \<Rightarrow> u32 option" where
  "validate_loop m header commandBytes index consumed =
     (if index < header_ncmds m header then
        if header_sizeofcmds m header < consumed then None
        else
          let remaining = header_sizeofcmds m header - consumed in
          if remaining < sizeof_load_command then None
          else
            let cmdsize = command_cmdsize m (commandBytes + ucast consumed) in
            if cmdsize < sizeof_load_command \<or> cmdsize mod RORK_HOOK_LOAD_COMMAND_ALIGNMENT \<noteq> 0 \<or>
               remaining < cmdsize
            then None
            else validate_loop m header commandBytes (index + 1) (consumed + cmdsize)
      else Some consumed)"
  by pat_completeness auto
termination
  by (relation "measure (\<lambda>(m, header, cb, index, consumed).
        unat (header_ncmds m header) - unat index)")
     (auto intro: word_index_decreases)

declare validate_loop.simps [simp del]

definition RorkHookValidateLoadCommands ::
  "memory \<Rightarrow> u64 \<Rightarrow> u64 \<Rightarrow> u64 outp \<Rightarrow> bool \<times> u64 outp" where
  "RorkHookValidateLoadCommands m header mappedSize commandBytesOut =
     (if header = 0 \<or> commandBytesOut = None \<or> mappedSize < sizeof_mach_header
      then (False, commandBytesOut)
      else if header_magic m header \<noteq> RORK_HOOK_MH_MAGIC \<or>
              mappedSize - sizeof_mach_header < ucast (header_sizeofcmds m header) \<or>
              ucast (header_sizeofcmds m header) div 8 < (ucast (header_ncmds m header) :: u64)
      then (False, commandBytesOut)
      else
        let commandBytes = header + sizeof_mach_header in
        case validate_loop m header commandBytes 0 0 of
          None \<Rightarrow> (False, commandBytesOut)
        | Some consumed \<Rightarrow>
            if consumed \<noteq> header_sizeofcmds m header then (False, commandBytesOut)
            else (True, Some commandBytes))"

section \<open>Iteration\<close>

type_synonym ('w, 'c) visitor =
  "u64 \<Rightarrow> u32 \<Rightarrow> 'w machine \<Rightarrow> 'c \<Rightarrow> bool \<times> 'w machine \<times> 'c"

function visit_loop ::
  "('w, 'c) visitor \<Rightarrow> u64 \<Rightarrow> u64 \<Rightarrow> u32 \<Rightarrow> u32 \<Rightarrow> 'w machine \<Rightarrow> 'c \<Rightarrow> 'w machine \<times> 'c" where
  "visit_loop visitor header commandBytes index consumed s context =
     (if index < header_ncmds (mem s) header then
        let command = commandBytes + ucast consumed in
        case visitor command index s context of (continue, s', context') \<Rightarrow>
          if \<not> continue then (s', context')
          else visit_loop visitor header commandBytes (index + 1)
                 (consumed + command_cmdsize (mem s') command) s' context'
      else (s, context))"
  by pat_completeness auto
termination
  by (relation "measure (\<lambda>(v, header, cb, index, consumed, s, c). 2 ^ 32 - unat index)")
     (use index_room_decreases [where ?'a = 32] in auto)

declare visit_loop.simps [simp del]

definition RorkHookForEachLoadCommandWithSize ::
  "u64 \<Rightarrow> u64 \<Rightarrow> ('w, 'c) visitor option \<Rightarrow> 'w machine \<Rightarrow> 'c \<Rightarrow> bool \<times> 'w machine \<times> 'c" where
  "RorkHookForEachLoadCommandWithSize header mappedSize visitor s context =
     (case visitor of
        None \<Rightarrow> (False, s, context)
      | Some visit \<Rightarrow>
          (case RorkHookValidateLoadCommands (mem s) header mappedSize (Some 0) of
             (True, Some commandBytes) \<Rightarrow>
               (True, visit_loop visit header commandBytes 0 0 s context)
           | _ \<Rightarrow> (False, s, context)))"

definition RorkHookForEachLoadCommand ::
  "'w platform \<Rightarrow> u64 \<Rightarrow> ('w, 'c) visitor option \<Rightarrow> 'w machine \<Rightarrow> 'c \<Rightarrow> bool \<times> 'w machine \<times> 'c" where
  "RorkHookForEachLoadCommand pf header visitor s context =
     RorkHookForEachLoadCommandWithSize header
       (RorkHookReadableMemoryLength pf (world s) header) visitor s context"

section \<open>Image slide\<close>

record RorkHookImageSlideContext =
  isc_header :: u64
  isc_slide :: i64
  isc_found :: bool

definition RorkHookAddressDifference :: "u64 \<Rightarrow> u64 \<Rightarrow> i64 outp \<Rightarrow> bool \<times> i64 outp" where
  "RorkHookAddressDifference left right differenceOut =
     (case differenceOut of
        None \<Rightarrow> (False, None)
      | Some _ \<Rightarrow>
          if right \<le> left then
            let difference = left - right in
            if INTPTR_MAX < difference then (False, differenceOut)
            else (True, Some difference)
          else
            let magnitude = right - left;
                minimumMagnitude = INTPTR_MAX + 1
            in
            if minimumMagnitude < magnitude then (False, differenceOut)
            else (True, Some (if magnitude = minimumMagnitude then INTPTR_MIN else - magnitude)))"

definition RorkHookImageSlideLoadCommand :: "('w, RorkHookImageSlideContext) visitor" where
  "RorkHookImageSlideLoadCommand command index s context =
     (if command = 0 then (False, s, context)
      else if command_cmd (mem s) command \<noteq> RORK_HOOK_LC_SEGMENT \<or>
              command_cmdsize (mem s) command < sizeof_segment_command
      then (True, s, context)
      else
        let segment = command in
        if segment_fileoff (mem s) segment = 0 \<and> segment_filesize (mem s) segment \<noteq> 0 then
          if UINTPTR_MAX < segment_vmaddr (mem s) segment then (False, s, context)
          else
            case RorkHookAddressDifference (isc_header context) (segment_vmaddr (mem s) segment)
                   (Some (isc_slide context)) of
              (True, Some slide) \<Rightarrow>
                (False, s, context\<lparr>isc_slide := slide, isc_found := True\<rparr>)
            | _ \<Rightarrow> (False, s, context)
        else (True, s, context))"

definition RorkHookImageSlide ::
  "'w platform \<Rightarrow> 'w machine \<Rightarrow> u64 \<Rightarrow> bool outp \<Rightarrow> i64 \<times> bool outp" where
  "RorkHookImageSlide pf s header resolved =
     (let resolved = map_option (\<lambda>_. False) resolved in
      if header = 0 then (0, resolved)
      else
        let context = \<lparr>isc_header = header, isc_slide = 0, isc_found = False\<rparr> in
        case RorkHookForEachLoadCommand pf header (Some RorkHookImageSlideLoadCommand) s context of
          (valid, s', context) \<Rightarrow>
            if valid \<and> isc_found context
            then (isc_slide context, map_option (\<lambda>_. True) resolved)
            else (0, resolved))"

section \<open>Specification of a command table\<close>

text \<open>The offsets, relative to the first command, of \<open>n\<close> commands that start at \<open>off\<close> and fill
  the table up to \<open>limit\<close> exactly.\<close>

fun command_offsets :: "memory \<Rightarrow> u64 \<Rightarrow> nat \<Rightarrow> nat \<Rightarrow> nat \<Rightarrow> nat list option" where
  "command_offsets m base 0 off limit = (if off = limit then Some [] else None)"
| "command_offsets m base (Suc n) off limit =
     (if limit < off + 8 then None
      else
        let sz = unat (command_cmdsize m (base + of_nat off)) in
        if sz < 8 \<or> sz mod 8 \<noteq> 0 \<or> limit < off + sz then None
        else map_option ((#) off) (command_offsets m base n (off + sz) limit))"

definition command_table :: "memory \<Rightarrow> u64 \<Rightarrow> nat \<Rightarrow> nat list option" where
  "command_table m header mapped =
     (if header = 0 \<or> mapped < 32 \<or> header_magic m header \<noteq> RORK_HOOK_MH_MAGIC \<or>
         mapped < 32 + unat (header_sizeofcmds m header)
      then None
      else command_offsets m (header + 32) (unat (header_ncmds m header)) 0
             (unat (header_sizeofcmds m header)))"

fun visit_offsets ::
  "(memory \<Rightarrow> u64 \<Rightarrow> 'c \<Rightarrow> bool \<times> 'c) \<Rightarrow> memory \<Rightarrow> u64 \<Rightarrow> nat list \<Rightarrow> 'c \<Rightarrow> 'c" where
  "visit_offsets step m base [] c = c"
| "visit_offsets step m base (off # offs) c =
     (case step m (base + of_nat off) c of (continue, c') \<Rightarrow>
        if continue then visit_offsets step m base offs c' else c')"

text \<open>The command that decides the slide: the first file-backed segment that starts at file offset
  zero, which is where the header is mapped.\<close>

definition maps_header :: "memory \<Rightarrow> u64 \<Rightarrow> bool" where
  "maps_header m c \<longleftrightarrow>
     command_cmd m c = RORK_HOOK_LC_SEGMENT \<and> sizeof_segment_command \<le> command_cmdsize m c \<and>
     segment_fileoff m c = 0 \<and> segment_filesize m c \<noteq> 0"

definition difference :: "u64 \<Rightarrow> u64 \<Rightarrow> int option" where
  "difference a b =
     (let d = uint a - uint b in if - (2 ^ 63) \<le> d \<and> d < 2 ^ 63 then Some d else None)"

definition image_slide :: "memory \<Rightarrow> u64 \<Rightarrow> nat \<Rightarrow> int option" where
  "image_slide m header mapped =
     (case command_table m header mapped of
        None \<Rightarrow> None
      | Some offs \<Rightarrow>
          (case find (maps_header m) (map (\<lambda>off. header + 32 + of_nat off) offs) of
             None \<Rightarrow> None
           | Some c \<Rightarrow> difference header (segment_vmaddr m c)))"

section \<open>Validation accepts exactly the well-formed tables\<close>

lemma ucast_offset: "of_nat (unat (c :: u32)) = (ucast c :: u64)"
  by simp

lemma command_offsets_room:
  "command_offsets m base n off limit = Some offs \<Longrightarrow> off + 8 * n \<le> limit"
  by (induction m base n off limit arbitrary: offs rule: command_offsets.induct)
     (fastforce split: if_splits simp: Let_def)+

lemma command_offsets_length:
  "command_offsets m base n off limit = Some offs \<Longrightarrow> length offs = n"
  by (induction m base n off limit arbitrary: offs rule: command_offsets.induct)
     (auto split: if_splits simp: Let_def)

lemma command_offsets_bounds:
  "command_offsets m base n off limit = Some offs \<Longrightarrow> x \<in> set offs \<Longrightarrow>
     off \<le> x \<and> 8 \<le> unat (command_cmdsize m (base + of_nat x)) \<and>
     x + unat (command_cmdsize m (base + of_nat x)) \<le> limit"
  by (induction m base n off limit arbitrary: offs rule: command_offsets.induct)
     (fastforce split: if_splits simp: Let_def)+

text \<open>The guards of one round, on words and on natural numbers.\<close>

lemma command_guards:
  fixes consumed total z :: u32
  assumes "consumed \<le> total"
  shows "(total - consumed < 8 \<or> z < 8 \<or> z mod 8 \<noteq> 0 \<or> total - consumed < z) \<longleftrightarrow>
    (unat total < unat consumed + 8 \<or> unat z < 8 \<or> unat z mod 8 \<noteq> 0 \<or> unat total < unat consumed + unat z)"
  using unat_sub [OF assms] assms
  by (auto simp: word_less_nat_alt word_le_nat_alt unat_mod word_unat_eq_iff)

lemma validate_loop_spec:
  assumes "index \<le> header_ncmds m header" "consumed \<le> header_sizeofcmds m header"
  shows "validate_loop m header base index consumed = Some (header_sizeofcmds m header) \<longleftrightarrow>
     command_offsets m base (unat (header_ncmds m header) - unat index) (unat consumed)
       (unat (header_sizeofcmds m header)) \<noteq> None"
  using assms
proof (induction m header base index consumed rule: validate_loop.induct)
  case (1 m header base index consumed)
  let ?n = "header_ncmds m header" and ?s = "header_sizeofcmds m header"
  let ?z = "command_cmdsize m (base + ucast consumed)"
  show ?case
  proof (cases "index < ?n")
    case False
    then have "unat ?n - unat index = 0" by (simp add: word_less_nat_alt)
    with False show ?thesis
      by (subst validate_loop.simps) (simp add: word_unat_eq_iff)
  next
    case True
    then have len: "unat ?n - unat index = Suc (unat ?n - unat (index + 1))"
      by (simp add: unat_inc word_less_nat_alt)
    note guards = command_guards [OF 1(3), of ?z]
    show ?thesis
    proof (cases "?s - consumed < 8 \<or> ?z < 8 \<or> ?z mod 8 \<noteq> 0 \<or> ?s - consumed < ?z")
      case bad: True
      then have "command_offsets m base (unat ?n - unat index) (unat consumed) (unat ?s) = None"
        using guards by (auto simp: len Let_def)
      moreover have "validate_loop m header base index consumed = None"
        using bad True by (subst validate_loop.simps) (auto simp: Let_def)
      ultimately show ?thesis by simp
    next
      case good: False
      then have s: "unat consumed + unat ?z \<le> unat ?s" "8 \<le> unat ?z" "unat ?z mod 8 = 0"
        unfolding guards by simp_all
      have sum: "unat (consumed + ?z) = unat consumed + unat ?z"
        using s(1) unsigned_less [of ?s, where ?'a = nat] by (simp add: unat_word_ariths)
      have le: "consumed + ?z \<le> ?s" "index + 1 \<le> ?n"
        using s(1) sum True unat_inc [OF True] by (auto simp: word_le_nat_alt word_less_nat_alt)
      have step: "validate_loop m header base index consumed =
          validate_loop m header base (index + 1) (consumed + ?z)"
        using good True leD [OF 1(3)] by (subst validate_loop.simps) (simp add: Let_def)
      have "command_offsets m base (unat ?n - unat index) (unat consumed) (unat ?s) =
          map_option ((#) (unat consumed)) (command_offsets m base (unat ?n - unat (index + 1))
            (unat consumed + unat ?z) (unat ?s))"
        using s by (simp add: len Let_def)
      moreover have "validate_loop m header base (index + 1) (consumed + ?z) = Some ?s \<longleftrightarrow>
          command_offsets m base (unat ?n - unat (index + 1)) (unat (consumed + ?z)) (unat ?s) \<noteq> None"
        using good leD [OF 1(3)] by (intro 1(1) [OF True _ refl _ refl] le) simp_all
      ultimately show ?thesis by (simp add: step sum)
    qed
  qed
qed

lemma command_table_room:
  assumes "command_table m header mapped = Some offs"
  shows "header \<noteq> 0" "32 + unat (header_sizeofcmds m header) \<le> mapped"
    "header_magic m header = RORK_HOOK_MH_MAGIC"
    "8 * unat (header_ncmds m header) \<le> unat (header_sizeofcmds m header)"
    "command_offsets m (header + 32) (unat (header_ncmds m header)) 0
       (unat (header_sizeofcmds m header)) = Some offs"
  using assms command_offsets_room [of m "header + 32" "unat (header_ncmds m header)" 0
    "unat (header_sizeofcmds m header)" offs]
  by (auto simp: command_table_def split: if_splits)

lemma header_guards:
  fixes mappedSize :: u64
  assumes "32 \<le> mappedSize"
  shows "mappedSize - 32 < ucast (header_sizeofcmds m h) \<longleftrightarrow>
      unat mappedSize < 32 + unat (header_sizeofcmds m h)"
    and "ucast (header_sizeofcmds m h) div 8 < (ucast (header_ncmds m h) :: u64) \<longleftrightarrow>
      unat (header_sizeofcmds m h) < 8 * unat (header_ncmds m h)"
proof -
  have "unat (mappedSize - 32) = unat mappedSize - 32" using assms by (simp add: unat_sub)
  moreover have "32 \<le> unat mappedSize" using assms by (simp add: word_le_nat_alt)
  ultimately show "mappedSize - 32 < ucast (header_sizeofcmds m h) \<longleftrightarrow>
      unat mappedSize < 32 + unat (header_sizeofcmds m h)"
    by (simp add: word_less_nat_alt) linarith
  show "ucast (header_sizeofcmds m h) div 8 < (ucast (header_ncmds m h) :: u64) \<longleftrightarrow>
      unat (header_sizeofcmds m h) < 8 * unat (header_ncmds m h)"
    by (simp add: word_less_nat_alt unat_div div_less_iff_less_mult mult.commute)
qed

interpretation validate: out_param
  "\<lambda>(m, header, mappedSize). RorkHookValidateLoadCommands m header mappedSize"
  "\<lambda>(m, header, mappedSize). map_option (\<lambda>_. header + 32) (command_table m header (unat mappedSize))"
proof unfold_locales
  fix i :: "memory \<times> u64 \<times> u64" and old v
  obtain m h n where i: "i = (m, h, n)" by (cases i) auto
  let ?run = "\<lambda>out. RorkHookValidateLoadCommands m h n out"
  show "(\<lambda>(m, h, n). RorkHookValidateLoadCommands m h n) i None = (False, None)"
    by (simp add: i RorkHookValidateLoadCommands_def)
  have run: "?run (Some old) =
      (if command_table m h (unat n) = None then (False, Some old) else (True, Some (h + 32)))"
  proof (cases "h = 0 \<or> n < 32")
    case True
    then show ?thesis
      by (auto simp: RorkHookValidateLoadCommands_def command_table_def word_less_nat_alt)
  next
    case False
    then have n: "32 \<le> n" "\<not> unat n < 32" by (simp_all add: word_less_nat_alt word_le_nat_alt not_less)
    have room: "command_table m h (unat n) \<noteq> None \<longrightarrow>
        8 * unat (header_ncmds m h) \<le> unat (header_sizeofcmds m h)"
      using command_table_room(4) by auto
    have "command_table m h (unat n) = None \<longleftrightarrow>
        header_magic m h \<noteq> RORK_HOOK_MH_MAGIC \<or> unat n < 32 + unat (header_sizeofcmds m h) \<or>
        validate_loop m h (h + 32) 0 0 \<noteq> Some (header_sizeofcmds m h)"
      using False n by (auto simp: command_table_def validate_loop_spec)
    then show ?thesis
      using False room
      by (auto simp: RorkHookValidateLoadCommands_def Let_def header_guards [OF n(1)]
          split: option.split)
  qed
  show "(case i of (m, h, n) \<Rightarrow> map_option (\<lambda>_. h + 32) (command_table m h (unat n))) = None \<Longrightarrow>
      (\<lambda>(m, h, n). RorkHookValidateLoadCommands m h n) i (Some old) = (False, Some old)"
    by (simp add: i run)
  show "(case i of (m, h, n) \<Rightarrow> map_option (\<lambda>_. h + 32) (command_table m h (unat n))) = Some v \<Longrightarrow>
      (\<lambda>(m, h, n). RorkHookValidateLoadCommands m h n) i (Some old) = (True, Some v)"
    by (auto simp: i run)
qed

section \<open>Iteration visits exactly the commands of the table\<close>

text \<open>
  The interface between the iteration and its callbacks. A callback that leaves the machine
  alone is determined by a step on memory and its own context; one that looks only at the bytes
  of the command it was given keeps the whole iteration inside the mapping.
\<close>

locale pure_visitor =
  fixes visitor :: "('w, 'c) visitor"
    and step :: "memory \<Rightarrow> u64 \<Rightarrow> 'c \<Rightarrow> bool \<times> 'c"
  assumes visitor_step: "visitor command index s c =
    (case step (mem s) command c of (continue, c') \<Rightarrow> (continue, s, c'))"
begin

lemma visit_loop_offsets:
  assumes "index \<le> header_ncmds (mem s) header"
    and "command_offsets (mem s) base (unat (header_ncmds (mem s) header) - unat index)
           (unat consumed) limit = Some offs" "limit < 2 ^ 32"
  shows "visit_loop visitor header base index consumed s c =
     (s, visit_offsets step (mem s) base offs c)"
  using assms
proof (induction offs arbitrary: index consumed c)
  case Nil
  then have "unat (header_ncmds (mem s) header) - unat index = 0"
    using command_offsets_length by fastforce
  then show ?case by (subst visit_loop.simps) (simp add: word_less_nat_alt)
next
  case (Cons off offs)
  let ?n = "header_ncmds (mem s) header" and ?z = "command_cmdsize (mem s) (base + ucast consumed)"
  have "unat ?n - unat index \<noteq> 0"
    using command_offsets_length [OF Cons.prems(2)] by simp
  then have lt: "index < ?n" by (simp add: word_less_nat_alt)
  then have len: "unat ?n - unat index = Suc (unat ?n - unat (index + 1))"
    by (simp add: unat_inc word_less_nat_alt)
  have offs: "off = unat consumed" "unat consumed + unat ?z \<le> limit"
    "command_offsets (mem s) base (unat ?n - unat (index + 1)) (unat consumed + unat ?z) limit = Some offs"
    using Cons.prems(2) by (auto simp: len Let_def split: if_splits)
  have sum: "unat (consumed + ?z) = unat consumed + unat ?z"
    using offs(2) Cons.prems(3) by (simp add: unat_word_ariths)
  have "index + 1 \<le> ?n" using lt unat_inc [OF lt] by (simp add: word_le_nat_alt word_less_nat_alt)
  then have "visit_loop visitor header base (index + 1) (consumed + ?z) s c' =
      (s, visit_offsets step (mem s) base offs c')" for c'
    using Cons.IH [of "index + 1" "consumed + ?z"] offs(3) sum Cons.prems(3) by simp
  then show ?case
    using lt offs(1)
    by (cases "step (mem s) (base + ucast consumed) c", subst visit_loop.simps)
       (simp add: Let_def visitor_step)
qed

lemma for_each_offsets:
  "RorkHookForEachLoadCommandWithSize header mappedSize (Some visitor) s c =
     (case command_table (mem s) header (unat mappedSize) of
        None \<Rightarrow> (False, s, c)
      | Some offs \<Rightarrow> (True, s, visit_offsets step (mem s) (header + 32) offs c))"
proof (cases "command_table (mem s) header (unat mappedSize)")
  case None
  with validate.no_result [of "(mem s, header, mappedSize)" 0] show ?thesis
    by (simp add: RorkHookForEachLoadCommandWithSize_def)
next
  case (Some offs)
  with validate.has_result [of "(mem s, header, mappedSize)" "header + 32" 0]
  have v: "RorkHookValidateLoadCommands (mem s) header mappedSize (Some 0) = (True, Some (header + 32))"
    by simp
  have "visit_loop visitor header (header + 32) 0 0 s c =
      (s, visit_offsets step (mem s) (header + 32) offs c)"
    using command_table_room(5) [OF Some] unsigned_less [of "header_sizeofcmds (mem s) header", where ?'a = nat]
    by (intro visit_loop_offsets [of _ _ _ _ _ "unat (header_sizeofcmds (mem s) header)"]) simp_all
  with v Some show ?thesis
    by (simp add: RorkHookForEachLoadCommandWithSize_def)
qed

end

section \<open>Reads stay inside the mapping\<close>

lemma agree_header [agree_intros]:
  assumes "agree m m' h n" "32 \<le> n"
  shows "header_magic m h = header_magic m' h" "header_ncmds m h = header_ncmds m' h"
    "header_sizeofcmds m h = header_sizeofcmds m' h"
  using assms by (auto simp: layout_simps intro: agree_intros)

lemma agree_command [agree_intros]:
  assumes "agree m m' c n" "8 \<le> n"
  shows "command_cmd m c = command_cmd m' c" "command_cmdsize m c = command_cmdsize m' c"
  using assms by (auto simp: layout_simps intro: agree_intros)

lemma agree_segment [agree_intros]:
  assumes "agree m m' c n" "72 \<le> n"
  shows "segment_vmaddr m c = segment_vmaddr m' c" "segment_vmsize m c = segment_vmsize m' c"
    "segment_fileoff m c = segment_fileoff m' c" "segment_filesize m c = segment_filesize m' c"
    "segment_nsects m c = segment_nsects m' c"
  using assms by (auto simp: layout_simps intro: agree_intros)

lemma agree_command_offsets:
  "agree m m' base limit \<Longrightarrow> command_offsets m base n off limit = command_offsets m' base n off limit"
proof (induction m base n off limit rule: command_offsets.induct)
  case (2 m base n off limit)
  show ?case
  proof (cases "limit < off + 8")
    case False
    then have "agree m m' (base + of_nat off) 8" using 2(2) by (intro agree_sub_nat) auto
    then have "command_cmdsize m (base + of_nat off) = command_cmdsize m' (base + of_nat off)"
      by (rule agree_command) simp
    with False 2 show ?thesis by (auto simp: Let_def)
  qed simp
qed simp

lemma agree_command_table:
  assumes "agree m m' header mapped"
  shows "command_table m header mapped = command_table m' header mapped"
proof (cases "header = 0 \<or> mapped < 32")
  case True
  then show ?thesis by (auto simp: command_table_def)
next
  case False
  then have h: "header_magic m header = header_magic m' header" "header_ncmds m header = header_ncmds m' header"
    "header_sizeofcmds m header = header_sizeofcmds m' header"
    using assms agree_header by (metis not_less)+
  have "agree m m' (header + 32) (unat (header_sizeofcmds m' header))"
    if "\<not> mapped < 32 + unat (header_sizeofcmds m' header)"
    using assms that agree_sub_nat [of m m' header mapped 32] by simp
  with False h show ?thesis by (auto simp: command_table_def intro: agree_command_offsets)
qed

locale bounded_visitor = pure_visitor +
  assumes step_local:
    "agree m m' command (unat (command_cmdsize m command)) \<Longrightarrow>
       8 \<le> unat (command_cmdsize m command) \<Longrightarrow> step m command c = step m' command c"
begin

lemma visit_offsets_bounded:
  assumes "\<And>off. off \<in> set offs \<Longrightarrow> 8 \<le> unat (command_cmdsize m (base + of_nat off)) \<and>
      off + unat (command_cmdsize m (base + of_nat off)) \<le> limit"
    and "agree m m' base limit"
  shows "visit_offsets step m base offs c = visit_offsets step m' base offs c"
  using assms
proof (induction offs arbitrary: c)
  case (Cons off offs)
  then have "agree m m' (base + of_nat off) (unat (command_cmdsize m (base + of_nat off)))"
    by (intro agree_sub_nat) auto
  then have "step m (base + of_nat off) c = step m' (base + of_nat off) c"
    using Cons.prems(1) by (intro step_local) auto
  with Cons show ?case by (auto split: prod.split)
qed simp

lemma for_each_bounded:
  assumes "agree (mem s) (mem s') header (unat mappedSize)"
  shows "fst (RorkHookForEachLoadCommandWithSize header mappedSize (Some visitor) s c) =
      fst (RorkHookForEachLoadCommandWithSize header mappedSize (Some visitor) s' c)"
    and "snd (snd (RorkHookForEachLoadCommandWithSize header mappedSize (Some visitor) s c)) =
      snd (snd (RorkHookForEachLoadCommandWithSize header mappedSize (Some visitor) s' c))"
proof -
  have table: "command_table (mem s) header (unat mappedSize) = command_table (mem s') header (unat mappedSize)"
    by (rule agree_command_table [OF assms])
  show "fst (RorkHookForEachLoadCommandWithSize header mappedSize (Some visitor) s c) =
      fst (RorkHookForEachLoadCommandWithSize header mappedSize (Some visitor) s' c)"
    by (simp add: for_each_offsets table split: option.split)
  have "visit_offsets step (mem s) (header + 32) offs c = visit_offsets step (mem s') (header + 32) offs c"
    if offs: "command_table (mem s) header (unat mappedSize) = Some offs" for offs
  proof (rule visit_offsets_bounded)
    show "agree (mem s) (mem s') (header + 32) (unat (header_sizeofcmds (mem s) header))"
      using assms command_table_room(2) [OF offs] agree_sub_nat [of "mem s" "mem s'" header "unat mappedSize" 32]
      by simp
  qed (use command_offsets_bounds [OF command_table_room(5) [OF offs]] in auto)
  then show "snd (snd (RorkHookForEachLoadCommandWithSize header mappedSize (Some visitor) s c)) =
      snd (snd (RorkHookForEachLoadCommandWithSize header mappedSize (Some visitor) s' c))"
    by (simp add: for_each_offsets table split: option.split)
qed

end

text \<open>Every step function on memory is the step of a pure visitor.\<close>

interpretation reading: pure_visitor
  "\<lambda>command index s c. case step (mem s) command c of (continue, c') \<Rightarrow> (continue, s, c')" step
  for step :: "memory \<Rightarrow> u64 \<Rightarrow> 'c \<Rightarrow> bool \<times> 'c"
  by unfold_locales (rule refl)

text \<open>A search for the first command with a property.\<close>

lemma visit_offsets_find:
  assumes "\<And>off. off \<in> set offs \<Longrightarrow> step m (base + of_nat off) c =
      (if P (base + of_nat off) then (False, f (base + of_nat off)) else (True, c))"
  shows "visit_offsets step m base offs c =
     (case find P (map (\<lambda>off. base + of_nat off) offs) of None \<Rightarrow> c | Some p \<Rightarrow> f p)"
  using assms by (induction offs) auto

section \<open>Slides\<close>

lemma difference_word:
  "difference a b = Some d \<Longrightarrow> a - b = word_of_int d \<and> sint (a - b) = d"
proof -
  assume "difference a b = Some d"
  then have d: "d = uint a - uint b" "- (2 ^ 63) \<le> d" "d < 2 ^ 63"
    by (auto simp: difference_def Let_def split: if_splits)
  then have w: "a - b = word_of_int d" by simp
  have "sint (word_of_int d :: i64) = (d + 2 ^ 63) mod 2 ^ 64 - 2 ^ 63"
    using int_word_sint [where ?'a = 64, of d] by simp
  also have "\<dots> = d" using d(2,3) by (subst mod_pos_pos_trivial) auto
  finally show ?thesis using w by (simp only: simp_thms)
qed

lemma max_offset_guards:
  "\<not> UINT64_MAX < (x :: u64)"
  by (simp add: not_less)

interpretation addr_diff: out_param
  "\<lambda>(left, right). RorkHookAddressDifference left right"
  "\<lambda>(left, right). map_option word_of_int (difference left right)"
proof unfold_locales
  fix i :: "u64 \<times> u64" and old v
  obtain l r where i: "i = (l, r)" by (cases i) auto
  have run: "RorkHookAddressDifference l r (Some old) =
      (case difference l r of None \<Rightarrow> (False, Some old) | Some d \<Rightarrow> (True, Some (word_of_int d)))"
  proof (cases "r \<le> l")
    case True
    then have "uint (l - r) = uint l - uint r" "uint r \<le> uint l"
      by (simp_all add: uint_sub_le word_le_def)
    then show ?thesis
      using True by (auto simp: RorkHookAddressDifference_def difference_def Let_def word_less_def)
  next
    case False
    then have u: "uint (r - l) = uint r - uint l" "uint l < uint r"
      by (simp_all add: uint_sub_le word_le_def)
    then have "r - l = 0x8000000000000000 \<longleftrightarrow> uint l - uint r = - (2 ^ 63)"
      by (auto simp: word_uint_eq_iff)
    moreover have "r - l = 0x8000000000000000 \<Longrightarrow> l - r = 0x8000000000000000"
      using minus_diff_eq [of r l] by simp
    ultimately show ?thesis
      using False u by (auto simp: RorkHookAddressDifference_def difference_def Let_def word_less_def)
  qed
  show "(\<lambda>(l, r). RorkHookAddressDifference l r) i None = (False, None)"
    by (simp add: i RorkHookAddressDifference_def)
  show "(case i of (l, r) \<Rightarrow> map_option word_of_int (difference l r)) = None \<Longrightarrow>
      (\<lambda>(l, r). RorkHookAddressDifference l r) i (Some old) = (False, Some old)"
    by (simp add: i run)
  show "(case i of (l, r) \<Rightarrow> map_option word_of_int (difference l r)) = Some v \<Longrightarrow>
      (\<lambda>(l, r). RorkHookAddressDifference l r) i (Some old) = (True, Some v)"
    by (auto simp: i run)
qed

definition slide_step :: "memory \<Rightarrow> u64 \<Rightarrow> RorkHookImageSlideContext \<Rightarrow> bool \<times> RorkHookImageSlideContext" where
  "slide_step m command c =
     (if command = 0 then (False, c)
      else if maps_header m command then
        (False, case difference (isc_header c) (segment_vmaddr m command) of
                  None \<Rightarrow> c | Some d \<Rightarrow> c\<lparr>isc_slide := word_of_int d, isc_found := True\<rparr>)
      else (True, c))"

lemma agree_maps_header:
  assumes "agree m m' c (unat (command_cmdsize m c)) \<and> 8 \<le> unat (command_cmdsize m c)"
  shows "maps_header m c = maps_header m' c"
    and "maps_header m c \<Longrightarrow> segment_vmaddr m c = segment_vmaddr m' c"
proof -
  have a: "agree m m' c (unat (command_cmdsize m c))" "8 \<le> unat (command_cmdsize m c)"
    using assms by simp_all
  have cmd: "command_cmd m c = command_cmd m' c" "command_cmdsize m c = command_cmdsize m' c"
    using a by (auto intro: agree_command)
  show "maps_header m c = maps_header m' c"
    using agree_segment [OF a(1)] cmd by (auto simp: maps_header_def word_le_nat_alt)
  show "maps_header m c \<Longrightarrow> segment_vmaddr m c = segment_vmaddr m' c"
    using agree_segment(1) [OF a(1)] by (auto simp: maps_header_def word_le_nat_alt)
qed

interpretation slide_visitor: bounded_visitor RorkHookImageSlideLoadCommand slide_step
proof unfold_locales
  fix command :: u64 and index and s :: "'w machine" and c
  show "RorkHookImageSlideLoadCommand command index s c =
      (case slide_step (mem s) command c of (continue, c') \<Rightarrow> (continue, s, c'))"
    using addr_diff.run_cases [of "(isc_header c, segment_vmaddr (mem s) command)" "Some (isc_slide c)"]
    by (auto simp: RorkHookImageSlideLoadCommand_def slide_step_def maps_header_def Let_def
        max_offset_guards not_less not_le split: option.split)
next
  fix m m' and command :: u64 and c
  assume a: "agree m m' command (unat (command_cmdsize m command))" "8 \<le> unat (command_cmdsize m command)"
  show "slide_step m command c = slide_step m' command c"
    using agree_maps_header [of m m' command] a by (simp add: slide_step_def)
qed

lemma ReadableMemoryLength_no_wrap:
  "RorkHookReadableMemoryLength pf w a \<noteq> 0 \<Longrightarrow>
     unat a + unat (RorkHookReadableMemoryLength pf w a) < 2 ^ 64"
proof -
  assume "RorkHookReadableMemoryLength pf w a \<noteq> 0"
  then obtain start rsize prot where q: "RorkHookQueryRegion pf w a = Some (start, rsize, prot)"
    "prot AND VM_PROT_READ \<noteq> 0"
    by (auto simp: RorkHookReadableMemoryLength_def split: option.splits if_splits)
  with ReadableMemoryLength_Some [OF q] show ?thesis by (simp add: QueryRegion_Some)
qed

text \<open>In a mapping that does not wrap around no command has address zero.\<close>

lemma table_command_address:
  assumes "command_table m header n = Some offs" "unat header + n < 2 ^ 64" "off \<in> set offs"
  shows "unat (header + 32 + of_nat off) = unat header + 32 + off"
    and "header + 32 + of_nat off \<noteq> 0"
    and "32 + off + unat (command_cmdsize m (header + 32 + of_nat off)) \<le> n"
    and "8 \<le> unat (command_cmdsize m (header + 32 + of_nat off))"
proof -
  note b = command_offsets_bounds [OF command_table_room(5) [OF assms(1)] assms(3)]
  show n: "32 + off + unat (command_cmdsize m (header + 32 + of_nat off)) \<le> n"
    "8 \<le> unat (command_cmdsize m (header + 32 + of_nat off))"
    using command_table_room(2) [OF assms(1)] b by linarith+
  have o: "unat (of_nat off :: u64) = off" using n assms(2) by (simp add: unat_of_nat)
  have "unat (header + 32) = unat header + 32" using n assms(2) by (subst unat_add_no_wrap) auto
  with o show u: "unat (header + 32 + of_nat off) = unat header + 32 + off"
    using n assms(2) by (subst unat_add_no_wrap) auto
  then show "header + 32 + of_nat off \<noteq> 0" by (metis add_is_0 unat_0 zero_neq_numeral)
qed

lemma table_nonempty_region:
  assumes "command_table m header (unat (RorkHookReadableMemoryLength pf w header)) = Some offs"
  shows "unat header + unat (RorkHookReadableMemoryLength pf w header) < 2 ^ 64"
  using command_table_room(2) [OF assms] by (intro ReadableMemoryLength_no_wrap) auto

lemma ImageSlide_value:
  "RorkHookImageSlide pf s header resolved =
     (case image_slide (mem s) header (unat (RorkHookReadableMemoryLength pf (world s) header)) of
        None \<Rightarrow> (0, map_option (\<lambda>_. False) resolved)
      | Some d \<Rightarrow> (word_of_int d, map_option (\<lambda>_. True) resolved))"
proof (cases "command_table (mem s) header (unat (RorkHookReadableMemoryLength pf (world s) header))")
  case None
  then show ?thesis
    by (auto simp: RorkHookImageSlide_def RorkHookForEachLoadCommand_def image_slide_def Let_def
        slide_visitor.for_each_offsets option.map_comp comp_def)
next
  case (Some offs)
  let ?c = "\<lparr>isc_header = header, isc_slide = 0, isc_found = False\<rparr>"
  have "visit_offsets slide_step (mem s) (header + 32) offs ?c =
      (case find (maps_header (mem s)) (map (\<lambda>off. header + 32 + of_nat off) offs) of None \<Rightarrow> ?c
       | Some p \<Rightarrow> (case difference (isc_header ?c) (segment_vmaddr (mem s) p) of None \<Rightarrow> ?c
           | Some d \<Rightarrow> ?c\<lparr>isc_slide := word_of_int d, isc_found := True\<rparr>))"
    using table_command_address(2) [OF Some table_nonempty_region [OF Some]]
    by (intro visit_offsets_find [where f = "\<lambda>p. case difference (isc_header ?c) (segment_vmaddr (mem s) p) of
        None \<Rightarrow> ?c | Some d \<Rightarrow> ?c\<lparr>isc_slide := word_of_int d, isc_found := True\<rparr>"])
       (simp add: slide_step_def)
  then show ?thesis
    using command_table_room(1) [OF Some] Some
    by (auto simp: RorkHookImageSlide_def RorkHookForEachLoadCommand_def image_slide_def Let_def
        slide_visitor.for_each_offsets option.map_comp comp_def split: option.split)
qed

section \<open>Properties\<close>

text \<open>
  C4: Load-command validation refines the abstract reading of a Mach-O header: it succeeds
  exactly when the mapped bytes hold a well-formed table of 64-bit load commands (magic, every
  command at least eight bytes, aligned, inside \<open>sizeofcmds\<close>, the table filled exactly), then
  returns the address after the header, and otherwise leaves the output alone. The 32-bit
  \<open>consumed\<close> counter of the C loop cannot wrap.
\<close>

theorem ValidateLoadCommands_exact:
  "RorkHookValidateLoadCommands m header mappedSize out =
     (case (out, command_table m header (unat mappedSize)) of
        (Some _, Some _) \<Rightarrow> (True, Some (header + sizeof_mach_header))
      | _ \<Rightarrow> (False, out))"
  using validate.run_cases [of "(m, header, mappedSize)" out] by (auto split: option.split)

text \<open>
  Delivery is all or nothing for every visitor, also one with side effects: unless the whole
  table is well formed the visitor is not called at all and neither memory, platform state,
  trace nor context changes.
\<close>

lemma ForEachLoadCommand_transactional:
  "RorkHookForEachLoadCommandWithSize header mappedSize visitor s c =
     (case (visitor, command_table (mem s) header (unat mappedSize)) of
        (Some visit, Some _) \<Rightarrow> (True, visit_loop visit header (header + 32) 0 0 s c)
      | _ \<Rightarrow> (False, s, c))"
  using validate.run_cases [of "(mem s, header, mappedSize)" "Some 0"]
  by (auto simp: RorkHookForEachLoadCommandWithSize_def split: option.split)

text \<open>
  For a visitor that only reads, iteration applies its step to the commands of the table in
  file order, each at its exact offset, until a step asks to stop, and leaves the machine
  unchanged.
\<close>

lemma ForEachLoadCommand_visits_table:
  "RorkHookForEachLoadCommandWithSize header mappedSize
       (Some (\<lambda>command index s c. case step (mem s) command c of (k, c') \<Rightarrow> (k, s, c'))) s c =
     (case command_table (mem s) header (unat mappedSize) of
        None \<Rightarrow> (False, s, c)
      | Some offs \<Rightarrow> (True, s, visit_offsets step (mem s) (header + 32) offs c))"
  by (rule reading.for_each_offsets)

text \<open>
  \<open>RorkHookAddressDifference\<close> computes the difference of two addresses over the integers:
  it succeeds exactly when the difference is a 64-bit signed value (including the minimum), the
  stored word read as a signed number is that difference, and a failing call stores nothing.
\<close>

lemma AddressDifference_exact:
  "case RorkHookAddressDifference l r (Some old) of
     (ok, stored) \<Rightarrow>
       (ok \<longleftrightarrow> - (2 ^ 63) \<le> uint l - uint r \<and> uint l - uint r < 2 ^ 63) \<and>
       (if ok then map_option sint stored = Some (uint l - uint r) else stored = Some old)"
proof (cases "difference l r")
  case None
  with addr_diff.run_cases [of "(l, r)" "Some old"] show ?thesis
    by (auto simp: difference_def Let_def split: if_splits)
next
  case (Some d)
  with addr_diff.run_cases [of "(l, r)" "Some old"] difference_word [OF Some] show ?thesis
    by (auto simp: difference_def Let_def split: if_splits)
qed

text \<open>
  C32: The slide of a live image: with the bytes of the header's readable region as the mapping,
  it is resolved exactly when the command table is well formed, some segment maps file offset
  zero with a nonempty file size, and header address minus the first such segment's \<open>vmaddr\<close> fits
  a signed 64-bit value; the result is then that difference, and zero otherwise.
\<close>

theorem ImageSlide_exact:
  "RorkHookImageSlide pf s header resolved =
     (case image_slide (mem s) header (unat (RorkHookReadableMemoryLength pf (world s) header)) of
        None \<Rightarrow> (0, map_option (\<lambda>_. False) resolved)
      | Some d \<Rightarrow> (word_of_int d, map_option (\<lambda>_. True) resolved))"
  by (rule ImageSlide_value)

end
