(* ===== verification/Pages.thy ===== *)
theory Pages
  imports Platform
begin

text \<open>
  Page arithmetic, and the documented behaviour of the VM system that some properties take as a
  hypothesis. The code tests a page size \<open>p\<close> with \<open>p & (p - 1)\<close> and rounds an address \<open>x\<close> down with
  \<open>x & ~(p - 1)\<close>; both are shown to mean what they should, on natural numbers.

  \<open>protect_law pf prot\<close> says, of an observation \<open>prot\<close> of the protection at each address: protection
  is uniform on a page; a successful protect call sets the permission bits of exactly the pages
  that meet its range and a failing one changes nothing; the region query reports the current
  protection of every address of the region it returns; writing the TPRO register does not
  affect protections. Nothing is assumed about when a call succeeds.
\<close>

section \<open>Powers of two\<close>

lemma power_of_two_test:
  fixes w :: u64
  assumes "w \<noteq> 0" "w AND (w - 1) = 0"
  shows "\<exists>k<64. unat w = 2 ^ k"
proof -
  define n where "n = unat w"
  have n0: "0 < n" using assms(1) by (simp add: n_def unat_gt_0)
  have minus: "unat (w - 1) = n - 1" using assms(1) by (simp add: n_def unat_minus_one)
  define k where "k = (GREATEST k. 2 ^ k \<le> n)"
  have ex: "2 ^ (0::nat) \<le> n" using n0 by simp
  have bd: "y \<le> n" if "2 ^ y \<le> n" for y :: nat using that less_exp [of y] by linarith
  have lo: "2 ^ k \<le> n" unfolding k_def by (rule GreatestI_nat [of "\<lambda>k. 2 ^ k \<le> n" 0 n, OF ex bd])
  have hi: "n < 2 ^ Suc k"
  proof (rule ccontr)
    assume "\<not> n < 2 ^ Suc k"
    then have "Suc k \<le> k" using Greatest_le_nat [of "\<lambda>k. 2 ^ k \<le> n" "Suc k" n] bd by (simp add: k_def)
    then show False by simp
  qed
  have "n < 2 ^ 64" using unsigned_less [of w, where ?'a = nat] by (simp add: n_def)
  with lo have k64: "k < 64" by (metis le_less_trans nat_power_less_imp_less zero_less_numeral)
  have "n = 2 ^ k"
  proof (rule ccontr)
    assume "n \<noteq> 2 ^ k"
    with lo have "2 ^ k \<le> n - 1" by simp
    then have "n div 2 ^ k = 1" "(n - 1) div 2 ^ k = 1"
      using lo hi by (auto intro!: div_nat_eqI)
    then have "bit (unat w) k" "bit (unat (w - 1)) k"
      using minus by (simp_all only: bit_iff_odd n_def odd_one not_False_eq_True)
    then have "bit w k" "bit (w - 1) k" by (simp_all add: bit_unsigned_iff)
    then have "bit (w AND (w - 1)) k" by (simp add: bit_and_iff)
    then show False using assms(2) by simp
  qed
  with k64 show ?thesis by (auto simp: n_def)
qed

lemma page_round_down:
  fixes x ps :: u64
  assumes "unat ps = 2 ^ k" "k < 64"
  shows "unat (x AND NOT (ps - 1)) = unat x - unat x mod 2 ^ k"
proof -
  have "ps = of_nat (2 ^ k)" by (simp only: assms(1) [symmetric]) simp
  then have "ps = 2 ^ k" by simp
  then have m: "ps - 1 = mask k" by (simp add: mask_eq_exp_minus_1)
  have "(x AND NOT (mask k)) + take_bit k x = (x AND NOT (mask k)) OR take_bit k x"
    by (rule disjunctive_add_eq_or) (auto simp: bit_eq_iff bit_simps)
  also have "\<dots> = x" by (rule bit_word_eqI) (auto simp: bit_simps)
  finally have "x AND NOT (mask k) = x - take_bit k x" by (simp add: eq_diff_eq)
  moreover have u: "unat (take_bit k x) = unat x mod 2 ^ k"
    by (simp only: unsigned_take_bit_eq) (simp add: take_bit_eq_mod)
  then have "take_bit k x \<le> x" by (simp add: word_le_nat_alt)
  ultimately show ?thesis by (simp add: m unat_sub u)
qed

section \<open>The pages of a range\<close>

definition on_pages :: "u64 \<Rightarrow> u64 \<Rightarrow> u64 \<Rightarrow> u64 \<Rightarrow> bool" where
  "on_pages ps a n x \<longleftrightarrow>
     unat a div unat ps \<le> unat x div unat ps \<and>
     unat x div unat ps \<le> (unat a + unat n - 1) div unat ps"

definition same_page :: "u64 \<Rightarrow> u64 \<Rightarrow> u64 \<Rightarrow> bool" where
  "same_page ps x y \<longleftrightarrow> unat x div unat ps = unat y div unat ps"

text \<open>
  The trap stub of \<open>RorkHookMemory.c\<close> (\<open>mov x16, #-0xe; svc #0x80; ret\<close>): the arguments stay in the
  registers in which the caller put them, and the result is the low half of \<open>x0\<close>.
\<close>

definition RorkHookMachVMProtectTrap ::
  "'w platform \<Rightarrow> 'w \<Rightarrow> u64 \<Rightarrow> u64 \<Rightarrow> u64 \<Rightarrow> bool \<Rightarrow> vm_prot \<Rightarrow> kern_return \<times> 'w" where
  "RorkHookMachVMProtectTrap pf w target address sz setMaximum newProtection =
     (case svc pf w (- 0xe) [target, address, sz, of_bool setMaximum, ucast newProtection] of
        (x0, w') \<Rightarrow> (ucast x0, w'))"

definition protect_law :: "'w platform \<Rightarrow> ('w \<Rightarrow> u64 \<Rightarrow> vm_prot) \<Rightarrow> bool" where
  "protect_law pf prot \<longleftrightarrow>
     (\<forall>w x y. same_page (vm_page_size pf) x y \<longrightarrow> prot w x = prot w y) \<and>
     (\<forall>w a n p. case (if device_arm64 pf then RorkHookMachVMProtectTrap pf w (mach_task_self pf) a n False p
                      else vm_protect pf w a n p) of
        (r, w') \<Rightarrow> if r = KERN_SUCCESS
                  then \<forall>x. prot w' x = (if on_pages (vm_page_size pf) a n x then p AND 7 else prot w x)
                  else prot w' = prot w) \<and>
     (\<forall>w a start n p. vm_region_64 pf w a = (KERN_SUCCESS, start, n, p) \<longrightarrow>
        p AND 7 = p \<and> (\<forall>x. unat start \<le> unat x \<and> unat x < unat start + unat n \<longrightarrow> prot w x = p)) \<and>
     (\<forall>v w. prot (msr_tpro pf v w) = prot w)"

text \<open>
  Documented behaviour of pointer authentication: stripping yields the raw pointer, which has nothing
  left to strip, the null pointer carries no signature, and signing a raw pointer only adds what
  stripping removes.
\<close>

definition ptrauth_law :: "'w platform \<Rightarrow> bool" where
  "ptrauth_law pf \<longleftrightarrow>
     ptrauth_strip pf 0 = 0 \<and>
     (\<forall>p. ptrauth_strip pf (ptrauth_strip pf p) = ptrauth_strip pf p) \<and>
     (\<forall>p d. ptrauth_strip pf (ptrauth_sign_unauthenticated pf (ptrauth_strip pf p) d) = ptrauth_strip pf p)"

text \<open>An eight-byte slot that does not wrap, and the pages of its first and last byte.\<close>

lemma slot_pages:
  fixes slot ps :: u64
  assumes "ps \<noteq> 0" "ps AND (ps - 1) = 0" "\<not> slot + 7 < slot"
  defines "fp \<equiv> slot AND NOT (ps - 1)" and "lp \<equiv> (slot + 7) AND NOT (ps - 1)"
  shows "unat (slot + 7) = unat slot + 7"
    and "unat fp = unat slot div unat ps * unat ps"
    and "unat lp = (unat slot + 7) div unat ps * unat ps"
    and "unat lp + unat ps \<le> 2 ^ 64"
    and "fp \<le> lp"
proof -
  obtain k where k: "k < 64" "unat ps = 2 ^ k" using power_of_two_test [OF assms(1,2)] by blast
  have "unat slot + 7 < 2 ^ 64"
    using assms(3) unsigned_less [of slot, where ?'a = nat]
    by (simp add: word_less_nat_alt unat_word_ariths not_less mod_if split: if_splits)
  then show e: "unat (slot + 7) = unat slot + 7" by (simp add: unat_add_no_wrap)
  show f: "unat fp = unat slot div unat ps * unat ps"
    unfolding fp_def using page_round_down [OF k(2,1)] k(2) by (simp add: minus_mod_eq_div_mult)
  show l: "unat lp = (unat slot + 7) div unat ps * unat ps"
    unfolding lp_def using page_round_down [OF k(2,1), of "slot + 7"] k(2) e by (simp add: minus_mod_eq_div_mult)
  show "fp \<le> lp" by (simp add: word_le_nat_alt f l div_le_mono)
  have "unat lp < 2 ^ (64 - k) * 2 ^ k"
    using unsigned_less [of lp, where ?'a = nat] k(1) by (simp flip: power_add)
  then have "(unat slot + 7) div unat ps < 2 ^ (64 - k)" by (simp add: l k(2))
  then have "((unat slot + 7) div unat ps + 1) * unat ps \<le> 2 ^ (64 - k) * 2 ^ k"
    unfolding k(2) by (intro mult_le_mono1) simp
  also have "\<dots> = 2 ^ 64" using k(1) by (simp flip: power_add)
  finally show "unat lp + unat ps \<le> 2 ^ 64" by (simp add: l algebra_simps)
qed

end
