(* ===== verification/Reference_Platform.thy ===== *)
theory Reference_Platform
  imports Pages
begin

text \<open>
  A small concrete platform on which the hypotheses about the VM system and the TPRO register
  hold: 16 KiB pages with a protection per page, and a register that keeps what is written to it.
  It serves to show that the properties with such hypotheses apply; the model of the library never
  refers to it. A protect call fails on the null page and on the pages listed as pinned.
\<close>

record vm_state =
  page_prot :: "nat \<Rightarrow> vm_prot"
  pinned :: "nat list"
  tpro_register :: u64

definition ref_protect :: "vm_state \<Rightarrow> u64 \<Rightarrow> u64 \<Rightarrow> vm_prot \<Rightarrow> kern_return \<times> vm_state" where
  "ref_protect w a n p =
     (let first = unat a div 0x4000; final = (unat a + unat n - 1) div 0x4000 in
      if first = 0 \<or> list_ex (\<lambda>q. first \<le> q \<and> q \<le> final) (pinned w)
      then (KERN_PROTECTION_FAILURE, w)
      else (KERN_SUCCESS, w\<lparr>page_prot :=
              (\<lambda>q. if first \<le> q \<and> q \<le> final then p AND 7 else page_prot w q)\<rparr>))"

definition ref_svc :: "vm_state \<Rightarrow> u64 \<Rightarrow> u64 list \<Rightarrow> u64 \<times> vm_state" where
  "ref_svc w number args =
     (if number = - 0xe \<and> length args = 5
      then case ref_protect w (args ! 1) (args ! 2) (ucast (args ! 4)) of (r, w') \<Rightarrow> (ucast r, w')
      else (ucast KERN_INVALID_ARGUMENT, w))"

definition ref_region :: "vm_state \<Rightarrow> u64 \<Rightarrow> kern_return \<times> u64 \<times> u64 \<times> vm_prot" where
  "ref_region w a = (KERN_SUCCESS, a AND NOT 0x3fff, 0x4000, page_prot w (unat a div 0x4000) AND 7)"

definition ref_prot :: "vm_state \<Rightarrow> u64 \<Rightarrow> vm_prot" where
  "ref_prot w x = page_prot w (unat x div 0x4000) AND 7"

definition ref_platform :: "bool \<Rightarrow> vm_state platform" where
  "ref_platform device =
     \<lparr>arm64 = True, device_arm64 = device, ptrauth_calls = False, has_security_config = False,
      available_ios26 = False, os_security_config = 0, os_security_config_TPRO = 1,
      getpagesize = 0x4000, vm_page_size = 0x4000, vm_protect = ref_protect,
      mach_task_self = 0x203, svc = ref_svc, vm_region_64 = ref_region,
      task_dyld_info = (\<lambda>_. (KERN_INVALID_ARGUMENT, 0)), sizeof_dyld_all_image_infos = 0x178,
      offsetof_sharedCacheSlide = 0x98, mrs_tpro = tpro_register,
      msr_tpro = (\<lambda>v w. w\<lparr>tpro_register := v\<rparr>), ptrauth_strip = id,
      ptrauth_sign_unauthenticated = (\<lambda>p d. p)\<rparr>"

lemma ref_trap [simp]:
  "RorkHookMachVMProtectTrap (ref_platform device) w target a n setMaximum p = ref_protect w a n p"
proof (cases "ref_protect w a n p")
  case (Pair r w')
  have narrow: "(ucast (ucast q :: u64) :: u32) = q" for q :: u32
    by (rule bit_word_eqI) (auto simp: bit_simps)
  show ?thesis by (simp add: RorkHookMachVMProtectTrap_def ref_platform_def ref_svc_def narrow Pair)
qed

lemma ref_protect_law: "protect_law (ref_platform device) ref_prot"
proof -
  have region: "unat x div 0x4000 = unat a div 0x4000"
    if "unat (a AND NOT 0x3fff) \<le> unat x" "unat x < unat (a AND NOT 0x3fff) + 0x4000" for a x :: u64
  proof -
    have "unat (a AND NOT (0x4000 - 1)) = unat a - unat a mod 2 ^ 14"
      by (rule page_round_down) simp_all
    then have "unat (a AND NOT 0x3fff) = unat a div 0x4000 * 0x4000"
      by (simp add: minus_mod_eq_div_mult)
    with that show ?thesis by (intro div_nat_eqI) auto
  qed
  show ?thesis
    unfolding protect_law_def
    unfolding ref_trap
    by (auto simp: ref_platform_def ref_protect_def ref_region_def ref_prot_def same_page_def
        on_pages_def Let_def and.assoc region)
qed

text \<open>A platform with pointer authentication, on which every page has every permission and every
  protect call succeeds: a signature is held in the bits above the forty-eighth.\<close>

definition signed_platform :: "'w platform" where
  "signed_platform =
     \<lparr>arm64 = True, device_arm64 = False, ptrauth_calls = True, has_security_config = False,
      available_ios26 = False, os_security_config = 0, os_security_config_TPRO = 1,
      getpagesize = 0x4000, vm_page_size = 0x4000, vm_protect = (\<lambda>w a n p. (KERN_SUCCESS, w)),
      mach_task_self = 0x203, svc = (\<lambda>w number args. (0, w)),
      vm_region_64 = (\<lambda>w a. (KERN_SUCCESS, a AND NOT 0x3fff, 0x4000, 7)),
      task_dyld_info = (\<lambda>_. (KERN_INVALID_ARGUMENT, 0)), sizeof_dyld_all_image_infos = 0x178,
      offsetof_sharedCacheSlide = 0x98, mrs_tpro = (\<lambda>_. 0), msr_tpro = (\<lambda>v w. w),
      ptrauth_strip = take_bit 48,
      ptrauth_sign_unauthenticated = (\<lambda>p d. p OR push_bit 48 (take_bit 15 d + 1))\<rparr>"

lemma signed_ptrauth_law: "ptrauth_law signed_platform"
  unfolding ptrauth_law_def signed_platform_def by (auto intro!: bit_eqI simp: bit_simps)

end
