(* ===== verification/Memory.thy ===== *)
theory Memory
  imports Regions Reference_Platform
begin

text \<open>
  Memory protection and the protected pointer store (\<open>Sources/RorkHook/RorkHookMemory.c\<close>), in
  the order of the source. The state is the machine of \<open>Platform\<close>: the comm page is ordinary
  memory at its fixed address, the TPRO register is part of the platform state and is reached
  through \<open>mrs_tpro\<close> and \<open>msr_tpro\<close>, and each VM call, store, flush and register write is an event
  of the trace. The store itself is the only operation here that changes memory. A C function
  pointer (the \<open>restoreReadOnly\<close> callback) is an optional state transformer.
\<close>

section \<open>Device primitives\<close>

abbreviation RORK_HOOK_COMM_PAGE_START :: u64 where "RORK_HOOK_COMM_PAGE_START \<equiv> 0xFFFFFC000"
abbreviation RORK_HOOK_COMM_PAGE_TPRO_WRITE_ENABLE :: u64 where
  "RORK_HOOK_COMM_PAGE_TPRO_WRITE_ENABLE \<equiv> RORK_HOOK_COMM_PAGE_START + 0x0d0"
abbreviation RORK_HOOK_COMM_PAGE_TPRO_WRITE_DISABLE :: u64 where
  "RORK_HOOK_COMM_PAGE_TPRO_WRITE_DISABLE \<equiv> RORK_HOOK_COMM_PAGE_START + 0x0d8"

definition RorkHookThreadTPROWriteEnabledRaw :: "'w platform \<Rightarrow> 'w machine \<Rightarrow> u64" where
  "RorkHookThreadTPROWriteEnabledRaw pf s = drop_bit 0x24 (mrs_tpro pf (world s)) AND mask 1"

definition RorkHookCommPageValue :: "'w machine \<Rightarrow> u64 \<Rightarrow> u64" where
  "RorkHookCommPageValue s address = load64 (mem s) address"

definition RorkHookWriteThreadTPROState :: "'w platform \<Rightarrow> u64 \<Rightarrow> 'w machine \<Rightarrow> 'w machine" where
  "RorkHookWriteThreadTPROState pf state s =
     emit (SetTPRO state) (s\<lparr>world := msr_tpro pf state (world s)\<rparr>)"

definition RorkHookHardwareSupportsTPRO :: "'w machine \<Rightarrow> bool" where
  "RorkHookHardwareSupportsTPRO s \<longleftrightarrow>
     RorkHookCommPageValue s RORK_HOOK_COMM_PAGE_TPRO_WRITE_ENABLE \<noteq> 0 \<and>
     RorkHookCommPageValue s RORK_HOOK_COMM_PAGE_TPRO_WRITE_DISABLE \<noteq> 0"

definition RorkHookProbeProcessTPRO :: "'w platform \<Rightarrow> 'w machine \<Rightarrow> bool \<times> 'w machine" where
  "RorkHookProbeProcessTPRO pf s =
     (if RorkHookThreadTPROWriteEnabledRaw pf s \<noteq> 0 then (True, s)
      else
        let enableState = RorkHookCommPageValue s RORK_HOOK_COMM_PAGE_TPRO_WRITE_ENABLE;
            s = RorkHookWriteThreadTPROState pf enableState s;
            writeWindowOpened = RorkHookThreadTPROWriteEnabledRaw pf s \<noteq> 0;
            disableState = RorkHookCommPageValue s RORK_HOOK_COMM_PAGE_TPRO_WRITE_DISABLE;
            s = RorkHookWriteThreadTPROState pf disableState s
        in (writeWindowOpened, s))"

section \<open>VM protection\<close>

definition RorkHookProtectMemory ::
  "'w platform \<Rightarrow> u64 \<Rightarrow> u64 \<Rightarrow> vm_prot \<Rightarrow> 'w machine \<Rightarrow> kern_return \<times> 'w machine" where
  "RorkHookProtectMemory pf address sz protection s =
     (if address = 0 \<or> sz = 0 then (KERN_INVALID_ARGUMENT, s)
      else
        case (if device_arm64 pf
              then RorkHookMachVMProtectTrap pf (world s) (mach_task_self pf) address sz False protection
              else vm_protect pf (world s) address sz protection) of
          (result, w) \<Rightarrow> (result, emit (Protect address sz protection result) (s\<lparr>world := w\<rparr>)))"

definition RorkHookMakeMemoryWritable ::
  "'w platform \<Rightarrow> u64 \<Rightarrow> u64 \<Rightarrow> 'w machine \<Rightarrow> kern_return \<times> 'w machine" where
  "RorkHookMakeMemoryWritable pf address sz =
     RorkHookProtectMemory pf address sz (VM_PROT_READ OR VM_PROT_WRITE OR VM_PROT_COPY)"

definition RorkHookMakeMemoryExecutable ::
  "'w platform \<Rightarrow> u64 \<Rightarrow> u64 \<Rightarrow> 'w machine \<Rightarrow> kern_return \<times> 'w machine" where
  "RorkHookMakeMemoryExecutable pf address sz =
     RorkHookProtectMemory pf address sz (VM_PROT_READ OR VM_PROT_EXECUTE)"

section \<open>TPRO windows\<close>

definition RorkHookProcessUsesTPRO :: "bool \<Rightarrow> bool \<Rightarrow> bool \<Rightarrow> bool \<Rightarrow> bool" where
  "RorkHookProcessUsesTPRO hardwareSupportsTPRO processConfigurationKnown
       processConfigurationEnablesTPRO writeWindowProbeSucceeded =
     (if \<not> hardwareSupportsTPRO then False
      else if processConfigurationKnown then processConfigurationEnablesTPRO
      else writeWindowProbeSucceeded)"

definition RorkHookSupportsTPRO :: "'w platform \<Rightarrow> 'w machine \<Rightarrow> bool \<times> 'w machine" where
  "RorkHookSupportsTPRO pf s =
     (if device_arm64 pf then
        let hardwareSupportsTPRO = RorkHookHardwareSupportsTPRO s in
        if \<not> hardwareSupportsTPRO then (False, s)
        else if has_security_config pf \<and> available_ios26 pf then
          let configuration = os_security_config pf;
              processConfigurationEnablesTPRO = configuration AND os_security_config_TPRO pf \<noteq> 0
          in (RorkHookProcessUsesTPRO hardwareSupportsTPRO True processConfigurationEnablesTPRO False, s)
        else
          case RorkHookProbeProcessTPRO pf s of
            (probe, s) \<Rightarrow> (RorkHookProcessUsesTPRO hardwareSupportsTPRO False False probe, s)
      else (False, s))"

definition RorkHookThreadCanWriteTPRO :: "'w platform \<Rightarrow> 'w machine \<Rightarrow> bool \<times> 'w machine" where
  "RorkHookThreadCanWriteTPRO pf s =
     (if device_arm64 pf then
        case RorkHookSupportsTPRO pf s of
          (supported, s) \<Rightarrow> (supported \<and> RorkHookThreadTPROWriteEnabledRaw pf s \<noteq> 0, s)
      else (False, s))"

definition RorkHookBeginThreadTPROWrite :: "'w platform \<Rightarrow> 'w machine \<Rightarrow> 'w machine" where
  "RorkHookBeginThreadTPROWrite pf s =
     (if device_arm64 pf then
        case RorkHookSupportsTPRO pf s of
          (supported, s) \<Rightarrow>
            if \<not> supported then s
            else
              let enableState = RorkHookCommPageValue s RORK_HOOK_COMM_PAGE_TPRO_WRITE_ENABLE in
              RorkHookWriteThreadTPROState pf enableState s
      else s)"

definition RorkHookEndThreadTPROWrite :: "'w platform \<Rightarrow> 'w machine \<Rightarrow> 'w machine" where
  "RorkHookEndThreadTPROWrite pf s =
     (if device_arm64 pf then
        case RorkHookSupportsTPRO pf s of
          (supported, s) \<Rightarrow>
            if \<not> supported then s
            else
              let disableState = RorkHookCommPageValue s RORK_HOOK_COMM_PAGE_TPRO_WRITE_DISABLE in
              RorkHookWriteThreadTPROState pf disableState s
      else s)"

type_synonym 'w callback = "('w machine \<Rightarrow> 'w machine) option"

definition RorkHookAllowTPROWrites ::
  "'w platform \<Rightarrow> 'w callback outp \<Rightarrow> 'w machine \<Rightarrow> bool \<times> 'w callback outp \<times> 'w machine" where
  "RorkHookAllowTPROWrites pf restoreReadOnly s =
     (case restoreReadOnly of
        None \<Rightarrow> (False, None, s)
      | Some _ \<Rightarrow>
          (case RorkHookSupportsTPRO pf s of (supported, s) \<Rightarrow>
             if \<not> supported then (False, Some None, s)
             else
               case RorkHookThreadCanWriteTPRO pf s of (open, s) \<Rightarrow>
                 if open then (True, Some None, s)
                 else
                   let s = RorkHookBeginThreadTPROWrite pf s in
                   case RorkHookThreadCanWriteTPRO pf s of (open, s) \<Rightarrow>
                     if \<not> open then (False, Some None, RorkHookEndThreadTPROWrite pf s)
                     else (True, Some (Some (RorkHookEndThreadTPROWrite pf)), s)))"

section \<open>The protected pointer store\<close>

definition RorkHookProtectedPointerWriteIsAvailable :: "kern_return \<Rightarrow> bool \<Rightarrow> bool \<Rightarrow> bool" where
  "RorkHookProtectedPointerWriteIsAvailable protectionResult supportsTPRO tproWindowOpened =
     (if supportsTPRO then tproWindowOpened else protectionResult = KERN_SUCCESS)"

definition RorkHookRestorePointerPageProtections ::
  "'w platform \<Rightarrow> u64 \<Rightarrow> u64 \<Rightarrow> u64 \<Rightarrow> bool \<Rightarrow> vm_prot \<Rightarrow> vm_prot \<Rightarrow> 'w machine \<Rightarrow> bool \<times> 'w machine" where
  "RorkHookRestorePointerPageProtections pf firstPage lastPage pageSize spansPages
       firstProtection lastProtection s =
     (case RorkHookProtectMemory pf firstPage pageSize firstProtection s of
        (firstResult, s) \<Rightarrow>
          (case (if spansPages then RorkHookProtectMemory pf lastPage pageSize lastProtection s
                 else (KERN_SUCCESS, s)) of
             (lastResult, s) \<Rightarrow> (firstResult = KERN_SUCCESS \<and> lastResult = KERN_SUCCESS, s)))"

text \<open>The second half of \<open>RorkHookStoreProtectedPointer\<close>, from its first VM call on: reprotect,
  open the TPRO window, store, close the window, restore the protections.\<close>

definition store_transaction ::
  "'w platform \<Rightarrow> u64 \<Rightarrow> u64 \<Rightarrow> vm_prot \<Rightarrow> u64 \<Rightarrow> u64 \<Rightarrow> u64 \<Rightarrow> u64 \<Rightarrow> vm_prot \<Rightarrow> vm_prot \<Rightarrow>
     'w machine \<Rightarrow> bool \<times> 'w machine" where
  "store_transaction pf slot value protection firstPage lastPage pageSize protectSize
       firstOriginalProtection lastOriginalProtection s =
     (case RorkHookProtectMemory pf firstPage protectSize protection s of (result, s) \<Rightarrow>
      case RorkHookSupportsTPRO pf s of (supportsTPRO, s) \<Rightarrow>
      case (if supportsTPRO then RorkHookAllowTPROWrites pf (Some None) s
            else (False, Some None, s)) of (tproWindowOpened, restoreReadOnly, s) \<Rightarrow>
        let writeCompleted =
              RorkHookProtectedPointerWriteIsAvailable result supportsTPRO tproWindowOpened;
            s = (if writeCompleted then sys_dcache_flush slot 8 (write_bytes slot (le_bytes 8 value) s)
                 else s);
            s = (case restoreReadOnly of Some (Some close) \<Rightarrow> close s | _ \<Rightarrow> s)
        in
        if result \<noteq> KERN_SUCCESS then (writeCompleted, s)
        else
          case RorkHookRestorePointerPageProtections pf firstPage lastPage pageSize
                 (firstPage \<noteq> lastPage) firstOriginalProtection lastOriginalProtection s of
            (protectionsRestored, s) \<Rightarrow> (writeCompleted \<and> protectionsRestored, s))"

definition RorkHookStoreProtectedPointer ::
  "'w platform \<Rightarrow> u64 \<Rightarrow> u64 \<Rightarrow> vm_prot \<Rightarrow> 'w machine \<Rightarrow> bool \<times> 'w machine" where
  "RorkHookStoreProtectedPointer pf slot value protection s =
     (if slot = 0 \<or> protection AND VM_PROT_WRITE = 0 then (False, s)
      else
        let pageSize = vm_page_size pf in
        if pageSize = 0 \<or> pageSize AND (pageSize - 1) \<noteq> 0 then (False, s)
        else
          let slotSize = 8; slotStart = slot; slotEnd = slotStart + slotSize - 1 in
          if slotEnd < slotStart then (False, s)
          else
            let pageMask = pageSize - 1;
                firstPage = slotStart AND NOT pageMask;
                lastPage = slotEnd AND NOT pageMask;
                spansPages = firstPage \<noteq> lastPage;
                protectSize = (lastPage - firstPage) + pageSize;
                firstPageBytes = (if spansPages then lastPage - slotStart else slotSize);
                lastPageBytes = slotSize - firstPageBytes
            in
            if \<not> RorkHookMemoryIsReadable pf (world s) slot firstPageBytes \<or>
               (spansPages \<and> \<not> RorkHookMemoryIsReadable pf (world s) lastPage lastPageBytes)
            then (False, s)
            else
              case RorkHookMemoryProtection pf (world s) firstPage (Some 0) of
                (True, Some firstOriginalProtection) \<Rightarrow>
                  (case (if spansPages then RorkHookMemoryProtection pf (world s) lastPage (Some 0)
                         else (True, Some firstOriginalProtection)) of
                     (True, Some lastOriginalProtection) \<Rightarrow>
                       store_transaction pf slot value protection firstPage lastPage pageSize
                         protectSize firstOriginalProtection lastOriginalProtection s
                   | _ \<Rightarrow> (False, s))
              | _ \<Rightarrow> (False, s))"

section \<open>Operations that do not touch memory\<close>

fun is_write :: "event \<Rightarrow> bool" where
  "is_write (Write _ _) = True"
| "is_write _ = False"

text \<open>A stretch of execution that leaves every byte alone and stores nothing.\<close>

definition quiet :: "'w machine \<Rightarrow> 'w machine \<Rightarrow> bool" where
  "quiet s s' \<longleftrightarrow>
     mem s' = mem s \<and> (\<exists>es. events s' = events s @ es \<and> list_all (\<lambda>e. \<not> is_write e) es)"

lemma quiet_refl [simp, intro]: "quiet s s"
  by (simp add: quiet_def)

lemma quiet_trans [trans]: "quiet s s' \<Longrightarrow> quiet s' s'' \<Longrightarrow> quiet s s''"
  by (auto simp: quiet_def)

lemma quiet_mem: "quiet s s' \<Longrightarrow> mem s' = mem s"
  by (simp add: quiet_def)

lemma quiet_emit: "mem s' = mem s \<Longrightarrow> events s' = events s \<Longrightarrow> \<not> is_write e \<Longrightarrow> quiet s (emit e s')"
  by (simp add: quiet_def)

text \<open>
  The contract the store relies on when it calls the protection and TPRO services: each of them
  is quiet, so nothing but the store itself can change memory between the checks and the end of
  the transaction. Sequencing keeps the contract.
\<close>

locale quiet_service =
  fixes run :: "'w machine \<Rightarrow> 'w machine"
  assumes run_quiet: "quiet s (run s)"
begin

lemma run_mem [simp]: "mem (run s) = mem s"
  using run_quiet by (rule quiet_mem)

lemma run_events: "\<exists>es. events (run s) = events s @ es \<and> list_all (\<lambda>e. \<not> is_write e) es"
  using run_quiet [of s] by (simp add: quiet_def)

lemma run_commpage: "RorkHookCommPageValue (run s) a = RorkHookCommPageValue s a"
  by (simp add: RorkHookCommPageValue_def)

lemma run_after: "quiet s s' \<Longrightarrow> quiet s (run s')"
  using run_quiet quiet_trans by blast

end

interpretation set_tpro: quiet_service "RorkHookWriteThreadTPROState pf v" for pf v
  by unfold_locales (simp add: RorkHookWriteThreadTPROState_def quiet_emit)

interpretation protect: quiet_service "\<lambda>s. snd (RorkHookProtectMemory pf a n p s)" for pf a n p
  by unfold_locales
     (auto simp: RorkHookProtectMemory_def quiet_emit split: prod.split)

interpretation probe: quiet_service "\<lambda>s. snd (RorkHookProbeProcessTPRO pf s)" for pf
  by unfold_locales
     (auto simp: RorkHookProbeProcessTPRO_def Let_def intro: set_tpro.run_after set_tpro.run_quiet)

interpretation supports: quiet_service "\<lambda>s. snd (RorkHookSupportsTPRO pf s)" for pf
  by unfold_locales (auto simp: RorkHookSupportsTPRO_def Let_def split_beta intro: probe.run_quiet)

interpretation can_write: quiet_service "\<lambda>s. snd (RorkHookThreadCanWriteTPRO pf s)" for pf
  by unfold_locales (auto simp: RorkHookThreadCanWriteTPRO_def split_beta intro: supports.run_quiet)

interpretation begin_tpro: quiet_service "RorkHookBeginThreadTPROWrite pf" for pf
  by unfold_locales
     (auto simp: RorkHookBeginThreadTPROWrite_def Let_def split_beta
       intro: set_tpro.run_after supports.run_quiet)

interpretation end_tpro: quiet_service "RorkHookEndThreadTPROWrite pf" for pf
  by unfold_locales
     (auto simp: RorkHookEndThreadTPROWrite_def Let_def split_beta
       intro: set_tpro.run_after supports.run_quiet)

interpretation allow: quiet_service "\<lambda>s. snd (snd (RorkHookAllowTPROWrites pf out s))" for pf out
  by unfold_locales
     (auto simp: RorkHookAllowTPROWrites_def Let_def split_beta split: option.split
       intro!: end_tpro.run_after can_write.run_after begin_tpro.run_after supports.run_quiet)

interpretation restore: quiet_service
  "\<lambda>s. snd (RorkHookRestorePointerPageProtections pf first last ps spans p q s)"
  for pf first last ps spans p q
  by unfold_locales
     (auto simp: RorkHookRestorePointerPageProtections_def split_beta
       intro: protect.run_after protect.run_quiet)

section \<open>The write window\<close>

definition window_open :: "'w platform \<Rightarrow> 'w machine \<Rightarrow> bool" where
  "window_open pf s \<longleftrightarrow> bit (mrs_tpro pf (world s)) 36"

lemma EnabledRaw_iff: "RorkHookThreadTPROWriteEnabledRaw pf s \<noteq> 0 \<longleftrightarrow> window_open pf s"
proof -
  have "RorkHookThreadTPROWriteEnabledRaw pf s = of_bool (bit (mrs_tpro pf (world s)) 36)"
    by (rule bit_word_eqI) (auto simp: RorkHookThreadTPROWriteEnabledRaw_def bit_simps)
  then show ?thesis by (simp add: window_open_def)
qed

text \<open>Only the register value it is given decides the state: when the window was found open, or
  is reported as opened, it is open in the state that is returned.\<close>

lemma ThreadCanWrite_open:
  "fst (RorkHookThreadCanWriteTPRO pf s) \<Longrightarrow> window_open pf (snd (RorkHookThreadCanWriteTPRO pf s))"
  by (auto simp: RorkHookThreadCanWriteTPRO_def EnabledRaw_iff split_beta split: if_splits)

lemma AllowTPROWrites_open:
  "fst (RorkHookAllowTPROWrites pf out s) \<Longrightarrow> window_open pf (snd (snd (RorkHookAllowTPROWrites pf out s)))"
  by (auto simp: RorkHookAllowTPROWrites_def Let_def split_beta split: option.splits if_splits
      intro: ThreadCanWrite_open)

lemma AllowTPROWrites_callback:
  "fst (snd (RorkHookAllowTPROWrites pf (Some None) s)) = Some None \<or>
   fst (snd (RorkHookAllowTPROWrites pf (Some None) s)) = Some (Some (RorkHookEndThreadTPROWrite pf))"
  by (auto simp: RorkHookAllowTPROWrites_def Let_def split_beta)

section \<open>Shape of the transaction\<close>

text \<open>The intermediate states of a transaction.\<close>

lemma store_transaction_steps:
  fixes pf :: "'w platform"
  obtains p t a s1 written s2 s3 where
    "p = RorkHookProtectMemory pf fp psz prot s"
    "t = RorkHookSupportsTPRO pf (snd p)"
    "a = (if fst t then RorkHookAllowTPROWrites pf (Some None) (snd t) else (False, Some None, snd t))"
    "s1 = snd (snd a)"
    "written = RorkHookProtectedPointerWriteIsAvailable (fst p) (fst t) (fst a)"
    "s2 = (if written then sys_dcache_flush slot 8 (write_bytes slot (le_bytes 8 v) s1) else s1)"
    "s3 = (case fst (snd a) of Some (Some close) \<Rightarrow> close s2 | _ \<Rightarrow> s2)"
    "store_transaction pf slot v prot fp lp ps psz fo lo s =
      (if fst p \<noteq> KERN_SUCCESS then (written, s3)
       else case RorkHookRestorePointerPageProtections pf fp lp ps (fp \<noteq> lp) fo lo s3 of
         (r, s') \<Rightarrow> (written \<and> r, s'))"
  by (rule that [OF refl refl refl refl refl refl refl])
     (simp only: store_transaction_def Let_def split_beta)

text \<open>The state in which the store would happen, whether it happens, and the final state.\<close>

lemma store_transaction_shape:
  fixes pf :: "'w platform"
  obtains s1 s2 written where
    "quiet s s1"
    "s2 = (if written then sys_dcache_flush slot 8 (write_bytes slot (le_bytes 8 v) s1) else s1)"
    "quiet s2 (snd (store_transaction pf slot v prot fp lp ps psz fo lo s))"
    "fst (store_transaction pf slot v prot fp lp ps psz fo lo s) \<Longrightarrow> written"
    "written \<Longrightarrow> window_open pf s1 \<or> fst (RorkHookProtectMemory pf fp psz prot s) = KERN_SUCCESS \<and>
       s1 = snd (RorkHookSupportsTPRO pf (snd (RorkHookProtectMemory pf fp psz prot s)))"
proof -
  obtain p t a s1 written s2 s3 where p_def: "p = RorkHookProtectMemory pf fp psz prot s"
    and t_def: "t = RorkHookSupportsTPRO pf (snd p)"
    and a_def: "a = (if fst t then RorkHookAllowTPROWrites pf (Some None) (snd t)
      else (False, Some None, snd t))"
    and s1_def: "s1 = snd (snd a)"
    and written_def: "written = RorkHookProtectedPointerWriteIsAvailable (fst p) (fst t) (fst a)"
    and s2_def: "s2 = (if written then sys_dcache_flush slot 8 (write_bytes slot (le_bytes 8 v) s1) else s1)"
    and s3_def: "s3 = (case fst (snd a) of Some (Some close) \<Rightarrow> close s2 | _ \<Rightarrow> s2)"
    and st: "store_transaction pf slot v prot fp lp ps psz fo lo s =
      (if fst p \<noteq> KERN_SUCCESS then (written, s3)
       else case RorkHookRestorePointerPageProtections pf fp lp ps (fp \<noteq> lp) fo lo s3 of
         (r, s') \<Rightarrow> (written \<and> r, s'))"
    by (rule store_transaction_steps)
  show ?thesis
  proof (rule that [of s1 s2 written])
    have "quiet s (snd t)" unfolding t_def p_def by (intro supports.run_after protect.run_quiet)
    then show "quiet s s1" by (auto simp: s1_def a_def intro: allow.run_after)
    have "fst (snd a) = Some None \<or> fst (snd a) = Some (Some (RorkHookEndThreadTPROWrite pf))"
      using AllowTPROWrites_callback by (auto simp: a_def)
    then have "quiet s2 s3" by (auto simp: s3_def intro: end_tpro.run_quiet)
    then show "quiet s2 (snd (store_transaction pf slot v prot fp lp ps psz fo lo s))"
      by (auto simp: st split_beta intro: restore.run_after)
    show "fst (store_transaction pf slot v prot fp lp ps psz fo lo s) \<Longrightarrow> written"
      by (auto simp: st split_beta split: if_splits)
    show "window_open pf s1 \<or> fst (RorkHookProtectMemory pf fp psz prot s) = KERN_SUCCESS \<and>
        s1 = snd (RorkHookSupportsTPRO pf (snd (RorkHookProtectMemory pf fp psz prot s)))" if written
    proof (cases "fst t")
      case True
      with that have "fst a" by (simp add: written_def RorkHookProtectedPointerWriteIsAvailable_def)
      with True show ?thesis by (auto simp: s1_def a_def intro: AllowTPROWrites_open)
    next
      case False
      with that show ?thesis
        by (simp add: written_def RorkHookProtectedPointerWriteIsAvailable_def s1_def a_def t_def p_def)
    qed
  qed (rule s2_def)
qed

lemma MemoryProtection_Some:
  "RorkHookMemoryProtection pf w a (Some old) =
     (case protection_of pf w a of None \<Rightarrow> (False, Some old) | Some p \<Rightarrow> (True, Some p))"
  using mem_prot.run_cases [of "(pf, w, a)" "Some old"] by simp

lemma protection_of_null: "protection_of pf w a = Some p \<Longrightarrow> a \<noteq> 0"
  by (auto simp: protection_of_def RorkHookQueryRegion_def)

text \<open>The checks of a store and the transaction, with the pages of the slot named.\<close>

lemma StoreProtectedPointer_body:
  assumes "ps = vm_page_size pf" "fp = slot AND NOT (ps - 1)" "lp = (slot + 7) AND NOT (ps - 1)"
  shows "RorkHookStoreProtectedPointer pf slot v prot s =
      (if slot = 0 \<or> prot AND VM_PROT_WRITE = 0 \<or> ps = 0 \<or> ps AND (ps - 1) \<noteq> 0 \<or> slot + 7 < slot \<or>
          \<not> RorkHookMemoryIsReadable pf (world s) slot (if fp \<noteq> lp then lp - slot else 8) \<or>
          fp \<noteq> lp \<and> \<not> RorkHookMemoryIsReadable pf (world s) lp (8 - (if fp \<noteq> lp then lp - slot else 8))
       then (False, s)
       else case protection_of pf (world s) fp of None \<Rightarrow> (False, s) | Some fo \<Rightarrow>
         (case if fp \<noteq> lp then protection_of pf (world s) lp else Some fo of None \<Rightarrow> (False, s)
          | Some lo \<Rightarrow> store_transaction pf slot v prot fp lp ps (lp - fp + ps) fo lo s))"
proof -
  have last: "slot + 8 - 1 = slot + 7" by simp
  show ?thesis
    unfolding RorkHookStoreProtectedPointer_def Let_def last assms [symmetric] MemoryProtection_Some
    by (simp split: option.split)
qed

text \<open>Either nothing happens, or every check has passed and the transaction runs on the pages of
  the slot.\<close>

lemma StoreProtectedPointer_cases:
  obtains (refused) "RorkHookStoreProtectedPointer pf slot v prot s = (False, s)"
  | (runs) fp lp ps fo lo where
      "ps = vm_page_size pf" "ps \<noteq> 0" "ps AND (ps - 1) = 0" "\<not> slot + 7 < slot"
      "fp = slot AND NOT (ps - 1)" "lp = (slot + 7) AND NOT (ps - 1)"
      "slot \<noteq> 0" "prot AND VM_PROT_WRITE \<noteq> 0"
      "protection_of pf (world s) fp = Some fo" "protection_of pf (world s) lp = Some lo"
      "RorkHookStoreProtectedPointer pf slot v prot s =
         store_transaction pf slot v prot fp lp ps (lp - fp + ps) fo lo s"
proof (cases "RorkHookStoreProtectedPointer pf slot v prot s = (False, s)")
  case False
  define ps where "ps = vm_page_size pf"
  define fp where "fp = slot AND NOT (ps - 1)"
  define lp where "lp = (slot + 7) AND NOT (ps - 1)"
  note body = StoreProtectedPointer_body [OF ps_def fp_def lp_def, of v prot s]
  have g: "slot \<noteq> 0" "prot AND VM_PROT_WRITE \<noteq> 0" "ps \<noteq> 0" "ps AND (ps - 1) = 0" "\<not> slot + 7 < slot"
    using False unfolding body by (auto split: if_splits)
  obtain fo where fo: "protection_of pf (world s) fp = Some fo"
    using False unfolding body by (auto split: if_splits option.splits)
  obtain lo where lo: "protection_of pf (world s) lp = Some lo"
    using False fo unfolding body by (cases "fp = lp") (auto split: if_splits option.splits)
  have "RorkHookStoreProtectedPointer pf slot v prot s =
      store_transaction pf slot v prot fp lp ps (lp - fp + ps) fo lo s"
    using False fo lo unfolding body by (cases "fp = lp") (auto split: if_splits)
  with runs [OF ps_def g(3-5) fp_def lp_def g(1,2) fo lo] show thesis .
qed (rule refused)

text \<open>The range that is reprotected covers the slot.\<close>

lemma protected_range_covers:
  fixes slot ps :: u64
  assumes "ps \<noteq> 0" "ps AND (ps - 1) = 0" "\<not> slot + 7 < slot"
    and "fp = slot AND NOT (ps - 1)" "lp = (slot + 7) AND NOT (ps - 1)" "fp \<noteq> 0"
  shows "unat (lp - fp + ps) = unat lp - unat fp + unat ps"
    and "unat fp \<le> unat slot" "unat slot + 8 \<le> unat fp + unat (lp - fp + ps)"
    and "unat fp + unat (lp - fp + ps) = unat lp + unat ps"
proof -
  note sp = slot_pages [OF assms(1-3), folded assms(4,5)]
  have fp0: "0 < unat fp" using assms(6) by (simp add: unat_gt_0)
  have le: "unat fp \<le> unat lp" using sp(5) by (simp add: word_le_nat_alt)
  then have "unat (lp - fp) = unat lp - unat fp" by (simp add: unat_sub word_le_nat_alt)
  moreover have "unat lp - unat fp + unat ps < 2 ^ 64" using sp(4) le fp0 by linarith
  ultimately show e: "unat (lp - fp + ps) = unat lp - unat fp + unat ps"
    by (simp add: unat_add_no_wrap)
  show "unat fp \<le> unat slot" by (simp add: sp(2))
  show f: "unat fp + unat (lp - fp + ps) = unat lp + unat ps" using e le by simp
  have "0 < unat ps" using assms(1) by (simp add: unat_gt_0)
  then have "unat slot + 7 < unat lp + unat ps"
    unfolding sp(3) by (metis div_mult_mod_eq add_less_cancel_left mod_less_divisor)
  with f show "unat slot + 8 \<le> unat fp + unat (lp - fp + ps)" by simp
qed

section \<open>Balance of the TPRO window\<close>

text \<open>
  Documented behaviour of the hardware and of the comm page: the register keeps bit 36 of the
  value written to it, the advertised enable value has the bit and the disable value does not,
  and protecting memory does not write the register.
\<close>

definition tpro_law :: "'w platform \<Rightarrow> memory \<Rightarrow> bool" where
  "tpro_law pf m \<longleftrightarrow>
     (\<forall>v w. bit (mrs_tpro pf (msr_tpro pf v w)) 36 = bit v 36) \<and>
     bit (load64 m RORK_HOOK_COMM_PAGE_TPRO_WRITE_ENABLE) 36 \<and>
     \<not> bit (load64 m RORK_HOOK_COMM_PAGE_TPRO_WRITE_DISABLE) 36 \<and>
     (\<forall>w a n p. mrs_tpro pf (snd (RorkHookMachVMProtectTrap pf w (mach_task_self pf) a n False p)) = mrs_tpro pf w) \<and>
     (\<forall>w a n p. mrs_tpro pf (snd (vm_protect pf w a n p)) = mrs_tpro pf w)"

definition uses_tpro :: "'w platform \<Rightarrow> memory \<Rightarrow> bool" where
  "uses_tpro pf m \<longleftrightarrow>
     device_arm64 pf \<and> load64 m RORK_HOOK_COMM_PAGE_TPRO_WRITE_ENABLE \<noteq> 0 \<and>
     load64 m RORK_HOOK_COMM_PAGE_TPRO_WRITE_DISABLE \<noteq> 0 \<and>
     (has_security_config pf \<and> available_ios26 pf \<longrightarrow>
        os_security_config pf AND os_security_config_TPRO pf \<noteq> 0)"

lemma protect_window:
  "tpro_law pf (mem s) \<Longrightarrow> window_open pf (snd (RorkHookProtectMemory pf a n p s)) = window_open pf s"
  by (auto simp: RorkHookProtectMemory_def tpro_law_def window_open_def split_beta)

lemma set_tpro_window:
  "tpro_law pf m \<Longrightarrow> window_open pf (RorkHookWriteThreadTPROState pf v s) = bit v 36"
  by (simp add: RorkHookWriteThreadTPROState_def tpro_law_def window_open_def)

lemma supports_window:
  assumes "tpro_law pf (mem s)"
  shows "fst (RorkHookSupportsTPRO pf s) = uses_tpro pf (mem s)"
    and "window_open pf (snd (RorkHookSupportsTPRO pf s)) = window_open pf s"
  using assms set_tpro_window [OF assms]
  by (auto simp: RorkHookSupportsTPRO_def RorkHookProbeProcessTPRO_def RorkHookProcessUsesTPRO_def
      RorkHookHardwareSupportsTPRO_def RorkHookCommPageValue_def EnabledRaw_iff uses_tpro_def
      tpro_law_def Let_def)

lemma can_write_window:
  assumes "tpro_law pf (mem s)"
  shows "fst (RorkHookThreadCanWriteTPRO pf s) = (uses_tpro pf (mem s) \<and> window_open pf s)"
    and "window_open pf (snd (RorkHookThreadCanWriteTPRO pf s)) = window_open pf s"
  using supports_window [OF assms]
  by (auto simp: RorkHookThreadCanWriteTPRO_def EnabledRaw_iff uses_tpro_def split_beta)

lemma begin_end_window:
  assumes "tpro_law pf (mem s)"
  shows "window_open pf (RorkHookBeginThreadTPROWrite pf s) = (uses_tpro pf (mem s) \<or> window_open pf s)"
    and "window_open pf (RorkHookEndThreadTPROWrite pf s) = (\<not> uses_tpro pf (mem s) \<and> window_open pf s)"
  using supports_window [OF assms] set_tpro_window [OF assms] assms
  by (auto simp: RorkHookBeginThreadTPROWrite_def RorkHookEndThreadTPROWrite_def Let_def split_beta
      RorkHookCommPageValue_def uses_tpro_def tpro_law_def)

lemma allow_window:
  assumes "tpro_law pf (mem s)" "uses_tpro pf (mem s)"
  shows "fst (RorkHookAllowTPROWrites pf (Some None) s)"
    and "fst (snd (RorkHookAllowTPROWrites pf (Some None) s)) =
      (if window_open pf s then Some None else Some (Some (RorkHookEndThreadTPROWrite pf)))"
    and "window_open pf (snd (snd (RorkHookAllowTPROWrites pf (Some None) s)))"
proof -
  define s1 where "s1 = snd (RorkHookSupportsTPRO pf s)"
  define s2 where "s2 = snd (RorkHookThreadCanWriteTPRO pf s1)"
  define s3 where "s3 = RorkHookBeginThreadTPROWrite pf s2"
  have m: "mem s1 = mem s" "mem s2 = mem s" "mem s3 = mem s"
    by (simp_all add: s1_def s2_def s3_def)
  note law = assms(1)
  have 1: "fst (RorkHookSupportsTPRO pf s)" "window_open pf s1 = window_open pf s"
    using supports_window [OF law] assms(2) by (simp_all add: s1_def)
  have 2: "fst (RorkHookThreadCanWriteTPRO pf s1) = window_open pf s" "window_open pf s2 = window_open pf s"
    using can_write_window [of pf s1] m 1 assms by (simp_all add: s2_def)
  have 3: "window_open pf s3" using begin_end_window(1) [of pf s2] m assms by (simp add: s3_def)
  have 4: "fst (RorkHookThreadCanWriteTPRO pf s3)" "window_open pf (snd (RorkHookThreadCanWriteTPRO pf s3))"
    using can_write_window [of pf s3] m 3 assms by simp_all
  have run: "RorkHookAllowTPROWrites pf (Some None) s =
      (if window_open pf s then (True, Some None, s2)
       else (True, Some (Some (RorkHookEndThreadTPROWrite pf)), snd (RorkHookThreadCanWriteTPRO pf s3)))"
    using 1 2 4
    by (simp add: RorkHookAllowTPROWrites_def Let_def split_beta s1_def [symmetric] s2_def [symmetric]
        s3_def [symmetric])
  show "fst (RorkHookAllowTPROWrites pf (Some None) s)"
    "fst (snd (RorkHookAllowTPROWrites pf (Some None) s)) =
      (if window_open pf s then Some None else Some (Some (RorkHookEndThreadTPROWrite pf)))"
    "window_open pf (snd (snd (RorkHookAllowTPROWrites pf (Some None) s)))"
    using run 2 4 by simp_all
qed

lemma tpro_law_store:
  assumes "tpro_law pf m" "unat slot + 8 \<le> 2 ^ 64"
    and "unat slot + 8 \<le> unat RORK_HOOK_COMM_PAGE_TPRO_WRITE_ENABLE \<or> unat RORK_HOOK_COMM_PAGE_TPRO_WRITE_DISABLE + 8 \<le> unat slot"
  shows "tpro_law pf (store_bytes m slot (le_bytes 8 v))"
    and "uses_tpro pf (store_bytes m slot (le_bytes 8 v)) = uses_tpro pf m"
proof -
  have "load64 (store_bytes m slot (le_bytes 8 v)) RORK_HOOK_COMM_PAGE_TPRO_WRITE_ENABLE = load64 m RORK_HOOK_COMM_PAGE_TPRO_WRITE_ENABLE"
    "load64 (store_bytes m slot (le_bytes 8 v)) RORK_HOOK_COMM_PAGE_TPRO_WRITE_DISABLE = load64 m RORK_HOOK_COMM_PAGE_TPRO_WRITE_DISABLE"
    unfolding load64_def by (subst load_store_frame; use assms in auto)+
  with assms(1) show "tpro_law pf (store_bytes m slot (le_bytes 8 v))"
    "uses_tpro pf (store_bytes m slot (le_bytes 8 v)) = uses_tpro pf m"
    by (simp_all add: tpro_law_def uses_tpro_def)
qed

lemma restore_window:
  "tpro_law pf (mem s) \<Longrightarrow>
     window_open pf (snd (RorkHookRestorePointerPageProtections pf fp lp ps spans p q s)) = window_open pf s"
  by (simp add: RorkHookRestorePointerPageProtections_def split_beta protect_window)

lemma store_transaction_window:
  fixes pf :: "'w platform"
  assumes law: "tpro_law pf (mem s)" and slot: "unat slot + 8 \<le> 2 ^ 64"
    and away: "unat slot + 8 \<le> unat RORK_HOOK_COMM_PAGE_TPRO_WRITE_ENABLE \<or> unat RORK_HOOK_COMM_PAGE_TPRO_WRITE_DISABLE + 8 \<le> unat slot"
  shows "window_open pf (snd (store_transaction pf slot v prot fp lp ps psz fo lo s)) = window_open pf s"
proof -
  obtain p t a s1 written s2 s3 where p: "p = RorkHookProtectMemory pf fp psz prot s"
    and t: "t = RorkHookSupportsTPRO pf (snd p)"
    and a: "a = (if fst t then RorkHookAllowTPROWrites pf (Some None) (snd t)
      else (False, Some None, snd t))"
    and s1: "s1 = snd (snd a)"
    and s2: "s2 = (if written then sys_dcache_flush slot 8 (write_bytes slot (le_bytes 8 v) s1) else s1)"
    and s3: "s3 = (case fst (snd a) of Some (Some close) \<Rightarrow> close s2 | _ \<Rightarrow> s2)"
    and st: "store_transaction pf slot v prot fp lp ps psz fo lo s =
      (if fst p \<noteq> KERN_SUCCESS then (written, s3)
       else case RorkHookRestorePointerPageProtections pf fp lp ps (fp \<noteq> lp) fo lo s3 of
         (r, s') \<Rightarrow> (written \<and> r, s'))"
    by (rule store_transaction_steps) blast
  have m: "mem (snd p) = mem s" "mem (snd t) = mem s" "mem s1 = mem s" by (simp_all add: p t a s1)
  have law2: "tpro_law pf (mem s2)" "uses_tpro pf (mem s2) = uses_tpro pf (mem s)"
    using tpro_law_store [OF law slot away] law m by (auto simp: s2)
  have wt: "fst t = uses_tpro pf (mem s)" "window_open pf (snd t) = window_open pf s"
    using supports_window [of pf "snd p"] protect_window [OF law] law m by (simp_all add: t p)
  have w2: "window_open pf s2 = window_open pf s1" by (simp add: s2 window_open_def)
  have "window_open pf s3 = window_open pf s"
  proof (cases "uses_tpro pf (mem s)")
    case True
    then show ?thesis
      using allow_window [of pf "snd t"] law m wt w2 begin_end_window(2) [OF law2(1)] law2(2)
      by (simp add: s3 a s1)
  next
    case False
    then show ?thesis using wt w2 by (simp add: s3 a s1)
  qed
  moreover have "tpro_law pf (mem s3)"
  proof -
    have "fst (snd a) = Some None \<or> fst (snd a) = Some (Some (RorkHookEndThreadTPROWrite pf))"
      using AllowTPROWrites_callback by (auto simp: a)
    then show ?thesis using law2 by (auto simp: s3)
  qed
  ultimately show ?thesis by (simp add: st split_beta restore_window)
qed

section \<open>Page protections\<close>

text \<open>An observation of the platform state that register writes do not affect is not affected by
  the TPRO services.\<close>

lemma tpro_services_observe:
  fixes view :: "'w \<Rightarrow> 'x"
  assumes "\<And>v w. view (msr_tpro pf v w) = view w"
  shows supports_observe: "view (world (snd (RorkHookSupportsTPRO pf s))) = view (world s)"
    and end_observe: "view (world (RorkHookEndThreadTPROWrite pf s)) = view (world s)"
    and allow_observe: "view (world (snd (snd (RorkHookAllowTPROWrites pf out s)))) = view (world s)"
proof -
  have set: "view (world (RorkHookWriteThreadTPROState pf v s)) = view (world s)" for v s
    by (simp add: RorkHookWriteThreadTPROState_def assms)
  show sup: "view (world (snd (RorkHookSupportsTPRO pf s))) = view (world s)" for s
    by (simp add: RorkHookSupportsTPRO_def RorkHookProbeProcessTPRO_def Let_def split_beta set)
  show fin: "view (world (RorkHookEndThreadTPROWrite pf s)) = view (world s)" for s
    by (simp add: RorkHookEndThreadTPROWrite_def Let_def split_beta set sup)
  have beg: "view (world (RorkHookBeginThreadTPROWrite pf s)) = view (world s)" for s
    by (simp add: RorkHookBeginThreadTPROWrite_def Let_def split_beta set sup)
  have can: "view (world (snd (RorkHookThreadCanWriteTPRO pf s))) = view (world s)" for s
    by (simp add: RorkHookThreadCanWriteTPRO_def split_beta sup)
  show "view (world (snd (snd (RorkHookAllowTPROWrites pf out s)))) = view (world s)"
    by (simp add: RorkHookAllowTPROWrites_def Let_def split_beta set sup fin beg can split: option.split)
qed

lemma ProtectMemory_prot:
  assumes "protect_law pf prot"
  shows "prot (world (snd (RorkHookProtectMemory pf a n p s))) x =
    (if fst (RorkHookProtectMemory pf a n p s) = KERN_SUCCESS \<and> on_pages (vm_page_size pf) a n x
     then p AND 7 else prot (world s) x)"
proof -
  let ?r = "if device_arm64 pf then RorkHookMachVMProtectTrap pf (world s) (mach_task_self pf) a n False p
      else vm_protect pf (world s) a n p"
  have "case ?r of (r, w') \<Rightarrow> if r = KERN_SUCCESS
      then \<forall>x. prot w' x = (if on_pages (vm_page_size pf) a n x then p AND 7 else prot (world s) x)
      else prot w' = prot (world s)"
    using assms by (simp add: protect_law_def)
  then show ?thesis
    by (cases ?r, cases "fst ?r = KERN_SUCCESS") (auto simp: RorkHookProtectMemory_def)
qed

lemma protection_of_prot:
  assumes "protect_law pf prot" "protection_of pf w a = Some p"
  shows "prot w a = p" "p AND 7 = p"
proof -
  obtain start n where "RorkHookQueryRegion pf w a = Some (start, n, p)"
    using assms(2) by (auto simp: protection_of_def)
  then have q: "vm_region_64 pf w a = (KERN_SUCCESS, start, n, p)" "unat start \<le> unat a"
    "unat a < unat start + unat n"
    by (simp_all add: QueryRegion_Some)
  then show "prot w a = p" "p AND 7 = p"
    using assms(1) unfolding protect_law_def by blast+
qed

text \<open>Which addresses the two restoring calls and the widening call reach.\<close>

lemma slot_on_pages:
  fixes slot ps :: u64
  assumes "ps \<noteq> 0" "ps AND (ps - 1) = 0" "\<not> slot + 7 < slot" "8 \<le> unat ps"
    and "fp = slot AND NOT (ps - 1)" "lp = (slot + 7) AND NOT (ps - 1)" "fp \<noteq> 0"
  shows "on_pages ps fp ps x = same_page ps x fp" "on_pages ps lp ps x = same_page ps x lp"
    and "on_pages ps fp (lp - fp + ps) x = (same_page ps x fp \<or> same_page ps x lp)"
proof -
  let ?P = "unat ps" and ?q = "unat slot div unat ps" and ?r = "(unat slot + 7) div unat ps"
  note sp = slot_pages [OF assms(1-3), folded assms(5,6)]
  have P: "0 < ?P" using assms(4) by simp
  have top: "(k * ?P + ?P - Suc 0) div ?P = k" for k
    using P div_mult_self3 [of ?P k "?P - Suc 0"] by simp
  show "on_pages ps fp ps x = same_page ps x fp" "on_pages ps lp ps x = same_page ps x lp"
    using P by (auto simp: on_pages_def same_page_def sp(2,3) top)
  have "unat slot + 7 < unat slot + ?P" using assms(4) by simp
  then have "?r \<le> (unat slot + ?P) div ?P" by (intro div_le_mono) simp
  moreover have "(unat slot + ?P) div ?P = Suc ?q" using P div_add_self2 [of ?P "unat slot"] by linarith
  ultimately have qr: "?q \<le> ?r" "?r \<le> Suc ?q" by (simp_all add: div_le_mono)
  show "on_pages ps fp (lp - fp + ps) x = (same_page ps x fp \<or> same_page ps x lp)"
    unfolding on_pages_def protected_range_covers(4) [OF assms(1-3,5-7)]
    using P qr by (auto simp: same_page_def sp(2,3) top)
qed

lemma protect_law_msr: "protect_law pf prot \<Longrightarrow> prot (msr_tpro pf v w) = prot w"
  by (simp add: protect_law_def)

lemma protect_law_page: "protect_law pf prot \<Longrightarrow> same_page (vm_page_size pf) x y \<Longrightarrow> prot w x = prot w y"
  unfolding protect_law_def by blast

lemma RestorePageProtections_prot:
  assumes "protect_law pf prot"
    and "fst (RorkHookRestorePointerPageProtections pf fp lp ps (fp \<noteq> lp) fo lo s)"
  shows "prot (world (snd (RorkHookRestorePointerPageProtections pf fp lp ps (fp \<noteq> lp) fo lo s))) x =
    (if fp \<noteq> lp \<and> on_pages (vm_page_size pf) lp ps x then lo AND 7
     else if on_pages (vm_page_size pf) fp ps x then fo AND 7 else prot (world s) x)"
  using assms(2)
  by (auto simp: RorkHookRestorePointerPageProtections_def split_beta ProtectMemory_prot [OF assms(1)])

lemma store_transaction_prot:
  fixes pf :: "'w platform"
  assumes law: "protect_law pf prot" and ps: "ps = vm_page_size pf" "8 \<le> unat ps"
    and geo: "ps \<noteq> 0" "ps AND (ps - 1) = 0" "\<not> slot + 7 < slot"
      "fp = slot AND NOT (ps - 1)" "lp = (slot + 7) AND NOT (ps - 1)" "fp \<noteq> 0"
    and orig: "protection_of pf (world s) fp = Some fo" "protection_of pf (world s) lp = Some lo"
    and ok: "fst (store_transaction pf slot v pr fp lp ps (lp - fp + ps) fo lo s)"
  shows "prot (world (snd (store_transaction pf slot v pr fp lp ps (lp - fp + ps) fo lo s))) = prot (world s)"
proof
  fix x
  obtain p t a s1 written s2 s3 where p: "p = RorkHookProtectMemory pf fp (lp - fp + ps) pr s"
    and t: "t = RorkHookSupportsTPRO pf (snd p)"
    and a: "a = (if fst t then RorkHookAllowTPROWrites pf (Some None) (snd t)
      else (False, Some None, snd t))"
    and s1: "s1 = snd (snd a)"
    and s2: "s2 = (if written then sys_dcache_flush slot 8 (write_bytes slot (le_bytes 8 v) s1) else s1)"
    and s3: "s3 = (case fst (snd a) of Some (Some close) \<Rightarrow> close s2 | _ \<Rightarrow> s2)"
    and st: "store_transaction pf slot v pr fp lp ps (lp - fp + ps) fo lo s =
      (if fst p \<noteq> KERN_SUCCESS then (written, s3)
       else case RorkHookRestorePointerPageProtections pf fp lp ps (fp \<noteq> lp) fo lo s3 of
         (r, s') \<Rightarrow> (written \<and> r, s'))"
    by (rule store_transaction_steps) blast
  note obs = tpro_services_observe [where view = prot, OF protect_law_msr [OF law]]
  have "fst (snd a) = Some None \<or> fst (snd a) = Some (Some (RorkHookEndThreadTPROWrite pf))"
    using AllowTPROWrites_callback by (auto simp: a)
  then have p3: "prot (world s3) = prot (world (snd p))"
    by (auto simp: s3 s2 s1 a t obs)
  have fo: "prot (world s) y = fo AND 7" if "same_page ps y fp" for y
    using protection_of_prot [OF law orig(1)] protect_law_page [OF law, of y fp] that ps(1) by simp
  have lo: "prot (world s) y = lo AND 7" if "same_page ps y lp" for y
    using protection_of_prot [OF law orig(2)] protect_law_page [OF law, of y lp] that ps(1) by simp
  note pages = slot_on_pages [OF geo(1-3) ps(2) geo(4-6)]
  show "prot (world (snd (store_transaction pf slot v pr fp lp ps (lp - fp + ps) fo lo s))) x = prot (world s) x"
  proof (cases "fst p = KERN_SUCCESS")
    case False
    then have "prot (world (snd p)) x = prot (world s) x"
      using ProtectMemory_prot [OF law] by (simp add: p)
    with False p3 show ?thesis by (simp add: st)
  next
    case True
    then have r: "fst (RorkHookRestorePointerPageProtections pf fp lp ps (fp \<noteq> lp) fo lo s3)"
      using ok by (simp add: st split_beta)
    have "prot (world (snd p)) x =
        (if same_page ps x fp \<or> same_page ps x lp then pr AND 7 else prot (world s) x)"
      using ProtectMemory_prot [OF law] True pages(3) by (simp add: p ps(1))
    then show ?thesis
      using True RestorePageProtections_prot [OF law r, of x] p3 pages fo lo
      by (auto simp: st split_beta ps(1) [symmetric])
  qed
qed

section \<open>The library stub of \<open>vm_protect\<close>\<close>

text \<open>The platform after the \<open>vm_protect\<close> import has been rebound on a device.\<close>

definition rebind_vm_protect ::
  "('w \<Rightarrow> u64 \<Rightarrow> u64 \<Rightarrow> vm_prot \<Rightarrow> kern_return \<times> 'w) \<Rightarrow> 'w platform \<Rightarrow> 'w platform" where
  "rebind_vm_protect hook pf = (if device_arm64 pf then pf\<lparr>vm_protect := hook\<rparr> else pf)"

lemma rebind_fields [simp]:
  "device_arm64 (rebind_vm_protect hook pf) = device_arm64 pf"
  "vm_page_size (rebind_vm_protect hook pf) = vm_page_size pf"
  "vm_region_64 (rebind_vm_protect hook pf) = vm_region_64 pf"
  "mach_task_self (rebind_vm_protect hook pf) = mach_task_self pf"
  "RorkHookMachVMProtectTrap (rebind_vm_protect hook pf) = RorkHookMachVMProtectTrap pf"
  "has_security_config (rebind_vm_protect hook pf) = has_security_config pf"
  "available_ios26 (rebind_vm_protect hook pf) = available_ios26 pf"
  "os_security_config (rebind_vm_protect hook pf) = os_security_config pf"
  "os_security_config_TPRO (rebind_vm_protect hook pf) = os_security_config_TPRO pf"
  "mrs_tpro (rebind_vm_protect hook pf) = mrs_tpro pf"
  "msr_tpro (rebind_vm_protect hook pf) = msr_tpro pf"
  "arm64 (rebind_vm_protect hook pf) = arm64 pf"
  "ptrauth_calls (rebind_vm_protect hook pf) = ptrauth_calls pf"
  "ptrauth_strip (rebind_vm_protect hook pf) = ptrauth_strip pf"
  "getpagesize (rebind_vm_protect hook pf) = getpagesize pf"
  by (simp_all add: rebind_vm_protect_def fun_eq_iff RorkHookMachVMProtectTrap_def)

lemma rebind_queries:
  "RorkHookQueryRegion (rebind_vm_protect hook pf) = RorkHookQueryRegion pf"
  "RorkHookMemoryProtection (rebind_vm_protect hook pf) = RorkHookMemoryProtection pf"
  "RorkHookReadableMemoryLength (rebind_vm_protect hook pf) = RorkHookReadableMemoryLength pf"
  "RorkHookMemoryIsReadable (rebind_vm_protect hook pf) = RorkHookMemoryIsReadable pf"
  unfolding fun_eq_iff RorkHookMemoryIsReadable_def RorkHookMemoryProtection_def
    RorkHookReadableMemoryLength_def RorkHookQueryRegion_def rebind_fields
  by simp_all

lemma rebind_protect: "RorkHookProtectMemory (rebind_vm_protect hook pf) = RorkHookProtectMemory pf"
  by (simp add: fun_eq_iff RorkHookProtectMemory_def) (simp add: rebind_vm_protect_def)

lemma rebind_tpro:
  "RorkHookSupportsTPRO (rebind_vm_protect hook pf) = RorkHookSupportsTPRO pf"
  "RorkHookThreadCanWriteTPRO (rebind_vm_protect hook pf) = RorkHookThreadCanWriteTPRO pf"
  "RorkHookBeginThreadTPROWrite (rebind_vm_protect hook pf) = RorkHookBeginThreadTPROWrite pf"
  "RorkHookEndThreadTPROWrite (rebind_vm_protect hook pf) = RorkHookEndThreadTPROWrite pf"
  "RorkHookAllowTPROWrites (rebind_vm_protect hook pf) = RorkHookAllowTPROWrites pf"
proof -
  let ?r = "rebind_vm_protect hook pf"
  have prim: "RorkHookWriteThreadTPROState ?r = RorkHookWriteThreadTPROState pf"
    "RorkHookThreadTPROWriteEnabledRaw ?r = RorkHookThreadTPROWriteEnabledRaw pf"
    by (simp_all add: fun_eq_iff RorkHookWriteThreadTPROState_def RorkHookThreadTPROWriteEnabledRaw_def)
  show sup: "RorkHookSupportsTPRO ?r = RorkHookSupportsTPRO pf"
    unfolding fun_eq_iff RorkHookSupportsTPRO_def RorkHookProbeProcessTPRO_def prim rebind_fields by simp
  show can: "RorkHookThreadCanWriteTPRO ?r = RorkHookThreadCanWriteTPRO pf"
    unfolding fun_eq_iff RorkHookThreadCanWriteTPRO_def sup prim rebind_fields by simp
  show beg: "RorkHookBeginThreadTPROWrite ?r = RorkHookBeginThreadTPROWrite pf"
    unfolding fun_eq_iff RorkHookBeginThreadTPROWrite_def sup prim rebind_fields by simp
  show fin: "RorkHookEndThreadTPROWrite ?r = RorkHookEndThreadTPROWrite pf"
    unfolding fun_eq_iff RorkHookEndThreadTPROWrite_def sup prim rebind_fields by simp
  show "RorkHookAllowTPROWrites ?r = RorkHookAllowTPROWrites pf"
    unfolding fun_eq_iff RorkHookAllowTPROWrites_def sup can beg fin by simp
qed

lemma rebind_store:
  "RorkHookStoreProtectedPointer (rebind_vm_protect hook pf) = RorkHookStoreProtectedPointer pf"
  unfolding fun_eq_iff RorkHookStoreProtectedPointer_def store_transaction_def
    RorkHookRestorePointerPageProtections_def rebind_queries rebind_protect rebind_tpro rebind_fields
  by simp

section \<open>The effect of a store on memory\<close>

lemma store_effect:
  "case RorkHookStoreProtectedPointer pf slot v prot s of (ok, s') \<Rightarrow>
     (if ok then load64 (mem s') slot = v \<and> mem s' = store_bytes (mem s) slot (le_bytes 8 v)
      else mem s' \<in> {mem s, store_bytes (mem s) slot (le_bytes 8 v)}) \<and>
     (\<forall>x. mem s' x = mem s x \<or> unat (x - slot) < 8)"
proof (cases rule: StoreProtectedPointer_cases [of pf slot v prot s])
  case (runs fp lp ps fo lo)
  let ?t = "store_transaction pf slot v prot fp lp ps (lp - fp + ps) fo lo s"
  obtain s1 s2 written where q: "quiet s s1" "quiet s2 (snd ?t)" "fst ?t \<Longrightarrow> written"
    and s2: "s2 = (if written then sys_dcache_flush slot 8 (write_bytes slot (le_bytes 8 v) s1) else s1)"
    by (rule store_transaction_shape) blast
  have "mem (snd ?t) = (if written then store_bytes (mem s) slot (le_bytes 8 v) else mem s)"
    using quiet_mem [OF q(1)] quiet_mem [OF q(2)] by (simp add: s2)
  moreover have "\<forall>x. store_bytes (mem s) slot (le_bytes 8 v) x = mem s x \<or> unat (x - slot) < 8"
    by (simp add: store_bytes_def)
  ultimately show ?thesis
    using q(3) runs(11) by (auto simp: split_beta load64_store64)
qed simp

section \<open>Properties\<close>

text \<open>
  C1: The protected store touches nothing but the slot. When it returns true the eight bytes at
  the slot hold the value; when it returns false memory is either unchanged or differs only by
  the completed store (a protection could not be restored); every other byte of the address
  space keeps its value in all cases.
\<close>

theorem StoreProtectedPointer_memory:
  "case RorkHookStoreProtectedPointer pf slot v prot s of (ok, s') \<Rightarrow>
     (if ok then load64 (mem s') slot = v \<and> mem s' = store_bytes (mem s) slot (le_bytes 8 v)
      else mem s' \<in> {mem s, store_bytes (mem s) slot (le_bytes 8 v)}) \<and>
     (\<forall>x. mem s' x = mem s x \<or> unat (x - slot) < 8)"
  by (rule store_effect)

text \<open>
  C11: The store is executed only under a verified permission: either the calling thread's TPRO
  window is open in the very state in which the bytes are written, or a protect call with the
  requested, writable protection has succeeded on a range that covers the slot, with nothing but
  TPRO probing in between. Otherwise no byte is written at all. The write is followed by a
  flush of the slot, and no other store happens.
\<close>

theorem StoreProtectedPointer_guarded:
  "case RorkHookStoreProtectedPointer pf slot v prot s of (ok, s') \<Rightarrow>
     quiet s s' \<or>
     (\<exists>s1. quiet s s1 \<and> quiet (sys_dcache_flush slot 8 (write_bytes slot (le_bytes 8 v) s1)) s' \<and>
        slot \<noteq> 0 \<and> prot AND VM_PROT_WRITE \<noteq> 0 \<and>
        (window_open pf s1 \<or>
         (\<exists>a n s0. RorkHookProtectMemory pf a n prot s = (KERN_SUCCESS, s0) \<and>
            s1 = snd (RorkHookSupportsTPRO pf s0) \<and>
            unat a \<le> unat slot \<and> unat slot + 8 \<le> unat a + unat n)))"
proof (cases rule: StoreProtectedPointer_cases [of pf slot v prot s])
  case (runs fp lp ps fo lo)
  let ?t = "store_transaction pf slot v prot fp lp ps (lp - fp + ps) fo lo s"
  let ?p = "RorkHookProtectMemory pf fp (lp - fp + ps) prot s"
  obtain s1 s2 written where q: "quiet s s1" "quiet s2 (snd ?t)"
    and w: "written \<Longrightarrow> window_open pf s1 \<or> fst ?p = KERN_SUCCESS \<and> s1 = snd (RorkHookSupportsTPRO pf (snd ?p))"
    and s2: "s2 = (if written then sys_dcache_flush slot 8 (write_bytes slot (le_bytes 8 v) s1) else s1)"
    by (rule store_transaction_shape) blast
  have cover: "unat fp \<le> unat slot" "unat slot + 8 \<le> unat fp + unat (lp - fp + ps)"
    using protected_range_covers [OF runs(2-6) protection_of_null [OF runs(9)]] by simp_all
  show ?thesis
  proof (cases written)
    case False
    then have "quiet s (snd ?t)" using q s2 by (auto intro: quiet_trans)
    then show ?thesis using runs by (simp add: split_beta)
  next
    case True
    then have "window_open pf s1 \<or> (\<exists>a n s0. RorkHookProtectMemory pf a n prot s = (KERN_SUCCESS, s0) \<and>
        s1 = snd (RorkHookSupportsTPRO pf s0) \<and> unat a \<le> unat slot \<and> unat slot + 8 \<le> unat a + unat n)"
      using w cover by (metis prod.collapse)
    with True q s2 runs show ?thesis by (auto simp: split_beta)
  qed
qed simp

text \<open>
  C10: The TPRO write window is balanced: a protected store leaves the calling thread's window
  exactly as it found it, open if the caller had opened it and closed otherwise, whatever the
  protect calls return, both with a process configuration and with the probing fallback.
  (Hypotheses: the register keeps bit 36, the comm page values differ in that bit, and the slot
  is not one of the two comm page words.)
\<close>

theorem StoreProtectedPointer_window_balanced:
  assumes "tpro_law pf (mem s)"
    and "unat slot + 8 \<le> unat RORK_HOOK_COMM_PAGE_TPRO_WRITE_ENABLE \<or> unat RORK_HOOK_COMM_PAGE_TPRO_WRITE_DISABLE + 8 \<le> unat slot"
  shows "window_open pf (snd (RorkHookStoreProtectedPointer pf slot v prot s)) = window_open pf s"
proof (cases rule: StoreProtectedPointer_cases [of pf slot v prot s])
  case (runs fp lp ps fo lo)
  have "unat slot + 8 \<le> 2 ^ 64"
    using slot_pages(1) [OF runs(2-4)] unsigned_less [of "slot + 7", where ?'a = nat] by simp
  then show ?thesis using runs(11) store_transaction_window [OF assms(1) _ assms(2)] by simp
qed simp

text \<open>
  C9: Page protections are restored: when a protected store returns true, every address has the
  protection it had before the call, also when the slot spans two pages with different
  protections and when the store went through the TPRO window after a failed protect call.
  (Hypotheses: the documented behaviour of the VM system, and pages of at least eight bytes.)
\<close>

theorem StoreProtectedPointer_restores_protections:
  assumes "protect_law pf view" "8 \<le> unat (vm_page_size pf)"
    and "fst (RorkHookStoreProtectedPointer pf slot v prot s)"
  shows "view (world (snd (RorkHookStoreProtectedPointer pf slot v prot s))) = view (world s)"
proof (cases rule: StoreProtectedPointer_cases [of pf slot v prot s])
  case (runs fp lp ps fo lo)
  then show ?thesis
    using store_transaction_prot [OF assms(1) runs(1) _ runs(2-6) protection_of_null [OF runs(9)] runs(9,10)]
      assms(2,3) by simp
qed simp

text \<open>A state of the reference platform for a device with TPRO, its window closed, in which two
  adjacent pages hold a read-only and an executable mapping.\<close>

definition device_state :: "nat list \<Rightarrow> vm_state machine" where
  "device_state pins =
     \<lparr>mem = store_bytes (store_bytes (\<lambda>_. 0) RORK_HOOK_COMM_PAGE_TPRO_WRITE_ENABLE (le_bytes 8 (0x1000000003 :: u64)))
        RORK_HOOK_COMM_PAGE_TPRO_WRITE_DISABLE (le_bytes 8 (0x3 :: u64)),
      world = \<lparr>page_prot = (\<lambda>q. if q = 2 then VM_PROT_READ else 5), pinned = pins, tpro_register = 3\<rparr>,
      events = []\<rparr>"

lemma device_comm_page:
  "load64 (mem (device_state pins)) 0xFFFFFC0D0 = 0x1000000003"
  "load64 (mem (device_state pins)) 0xFFFFFC0D8 = 3"
proof -
  let ?m = "store_bytes (\<lambda>_. 0) 0xFFFFFC0D0 (le_bytes 8 (0x1000000003 :: u64))"
  have "load64 (mem (device_state pins)) 0xFFFFFC0D0 = load64 ?m 0xFFFFFC0D0"
    unfolding load64_def by (simp add: device_state_def load_store_frame)
  then show "load64 (mem (device_state pins)) 0xFFFFFC0D0 = 0x1000000003"
    by (simp add: load64_store64)
  show "load64 (mem (device_state pins)) 0xFFFFFC0D8 = 3"
    by (simp add: device_state_def load64_store64)
qed

theorem StoreProtectedPointer_window_balanced_witness:
  "window_open (ref_platform True)
     (snd (RorkHookStoreProtectedPointer (ref_platform True) 0x8010 7 3 (device_state []))) = False"
proof -
  have "tpro_law (ref_platform True) (mem (device_state []))"
    unfolding tpro_law_def ref_trap
    by (simp add: device_comm_page) (simp add: ref_platform_def ref_protect_def Let_def)
  then show ?thesis
    using StoreProtectedPointer_window_balanced [of "ref_platform True" "device_state []" "0x8010" 7 3]
    by (simp add: window_open_def device_state_def ref_platform_def)
qed

theorem StoreProtectedPointer_restores_protections_witness:
  "ref_prot (world (snd (RorkHookStoreProtectedPointer (ref_platform False) 0xBFFC 7 3 (device_state [])))) =
     ref_prot (world (device_state []))"
proof (rule StoreProtectedPointer_restores_protections [OF ref_protect_law])
  show "8 \<le> unat (vm_page_size (ref_platform False))" by (simp add: ref_platform_def)
  show "fst (RorkHookStoreProtectedPointer (ref_platform False) 0xBFFC 7 3 (device_state []))"
    by (simp add: RorkHookStoreProtectedPointer_def store_transaction_def RorkHookProtectMemory_def
        RorkHookMemoryIsReadable_def RorkHookReadableMemoryLength_def RorkHookQueryRegion_def
        RorkHookMemoryProtection_def RorkHookSupportsTPRO_def RorkHookProtectedPointerWriteIsAvailable_def
        RorkHookRestorePointerPageProtections_def ref_platform_def ref_protect_def ref_region_def
        device_state_def Let_def)
qed

end
