(* ===== verification/Detour.thy ===== *)
theory Detour
  imports Memory
begin

text \<open>
  Absolute jumps and function detours (\<open>Sources/RorkHook/RorkHookFunction.c\<close>). The output buffer of
  \<open>RorkHookBuildAbsoluteJump\<close> is the list of its words. The meaning of the emitted code is given by
  a small processor \<open>cpu_step\<close> that fetches a word from memory and executes the two instructions of
  the sequence as the Arm architecture defines them; the detour properties are stated in terms
  of running that processor on the patched memory.
\<close>

section \<open>Encoders and the detour\<close>

abbreviation RORK_HOOK_ABSOLUTE_JUMP_WORDS :: u64 where "RORK_HOOK_ABSOLUTE_JUMP_WORDS \<equiv> 5"

definition RorkHookEncodeMOVK :: "u8 \<Rightarrow> u16 \<Rightarrow> u8 \<Rightarrow> u32" where
  "RorkHookEncodeMOVK destinationRegister immediate shift =
     (let opcode = 0xf2800000 :: u32;
          halfword = push_bit 21 (ucast (shift div 16)) :: u32;
          encodedImmediate = push_bit 5 (ucast immediate) :: u32;
          destination = ucast destinationRegister AND 0x1f :: u32
      in opcode OR halfword OR encodedImmediate OR destination)"

definition RorkHookEncodeBR :: "u8 \<Rightarrow> u32" where
  "RorkHookEncodeBR sourceRegister =
     (let opcode = 0xd61f0000 :: u32;
          source = push_bit 5 (ucast sourceRegister AND 0x1f) :: u32
      in opcode OR source)"

definition RorkHookBuildAbsoluteJump ::
  "'w platform \<Rightarrow> u64 \<Rightarrow> u32 list outp \<Rightarrow> u64 \<Rightarrow> u64 \<times> u32 list outp" where
  "RorkHookBuildAbsoluteJump pf destination instructions capacity =
     (if \<not> arm64 pf then (0, instructions)
      else
        case instructions of
          None \<Rightarrow> (0, None)
        | Some buffer \<Rightarrow>
            if destination = 0 \<or> capacity < RORK_HOOK_ABSOLUTE_JUMP_WORDS then (0, instructions)
            else
              let stripped = (if ptrauth_calls pf then ptrauth_strip pf destination else destination);
                  target = stripped;
                  scratchRegister = 16 :: u8
              in (RORK_HOOK_ABSOLUTE_JUMP_WORDS, Some (buffer
                    [0 := RorkHookEncodeMOVK scratchRegister (ucast target) 0,
                     1 := RorkHookEncodeMOVK scratchRegister (ucast (drop_bit 16 target)) 16,
                     2 := RorkHookEncodeMOVK scratchRegister (ucast (drop_bit 32 target)) 32,
                     3 := RorkHookEncodeMOVK scratchRegister (ucast (drop_bit 48 target)) 48,
                     4 := RorkHookEncodeBR scratchRegister])))"

text \<open>The bytes of a word array as \<open>memcpy\<close> sees them.\<close>

definition word_bytes :: "u32 list \<Rightarrow> u8 list" where
  "word_bytes ws = concat (map (le_bytes 4) ws)"

text \<open>The second half of \<open>RorkHookReplaceFunctionWithSize\<close>, once the target has been validated and
  the instructions have been built: save, make writable, patch, restore the protection, roll back
  if that fails.\<close>

definition patch_transaction ::
  "'w platform \<Rightarrow> u64 \<Rightarrow> u32 list \<Rightarrow> vm_prot \<Rightarrow> 'w machine \<Rightarrow> kern_return \<times> 'w machine" where
  "patch_transaction pf target instructions originalProtection s =
     (let patchSize = 4 * RORK_HOOK_ABSOLUTE_JUMP_WORDS;
          originalInstructions = load_bytes (mem s) target (unat patchSize)
      in
      case RorkHookMakeMemoryWritable pf target patchSize s of (result, s) \<Rightarrow>
        if result \<noteq> KERN_SUCCESS then (result, s)
        else
          let s = write_bytes target (word_bytes instructions) s;
              s = sys_dcache_flush target patchSize s
          in
          case RorkHookProtectMemory pf target patchSize originalProtection s of (result, s) \<Rightarrow>
            if result \<noteq> KERN_SUCCESS then
              let s = write_bytes target originalInstructions s;
                  s = sys_dcache_flush target patchSize s;
                  s = snd (RorkHookProtectMemory pf target patchSize originalProtection s);
                  s = sys_icache_invalidate target patchSize s
              in (result, s)
            else (KERN_SUCCESS, sys_icache_invalidate target patchSize s))"

definition RorkHookReplaceFunctionWithSize ::
  "'w platform \<Rightarrow> u64 \<Rightarrow> u64 \<Rightarrow> u64 \<Rightarrow> 'w machine \<Rightarrow> kern_return \<times> 'w machine" where
  "RorkHookReplaceFunctionWithSize pf function patchableBytes replacement s =
     (if \<not> arm64 pf then (KERN_NOT_SUPPORTED, s)
      else
        let patchSize = 4 * RORK_HOOK_ABSOLUTE_JUMP_WORDS in
        if function = 0 \<or> replacement = 0 \<or> patchableBytes < patchSize
        then (KERN_INVALID_ARGUMENT, s)
        else
          let target = (if ptrauth_calls pf then ptrauth_strip pf function else function);
              targetAddress = target;
              nativePageSize = getpagesize pf
          in
          if sint nativePageSize \<le> 0 then (KERN_INVALID_ARGUMENT, s)
          else
            let pageSize = ucast nativePageSize in
            if targetAddress mod 4 \<noteq> 0 \<or> pageSize < patchSize \<or>
               pageSize - patchSize < targetAddress mod pageSize
            then (KERN_INVALID_ARGUMENT, s)
            else if \<not> RorkHookMemoryIsReadable pf (world s) target patchSize
            then (KERN_INVALID_ADDRESS, s)
            else
              case RorkHookMemoryProtection pf (world s) target (Some 0) of
                (True, Some originalProtection) \<Rightarrow>
                  if originalProtection AND VM_PROT_EXECUTE = 0 then (KERN_PROTECTION_FAILURE, s)
                  else
                    (case RorkHookBuildAbsoluteJump pf replacement (Some (replicate 5 0))
                            RORK_HOOK_ABSOLUTE_JUMP_WORDS of
                       (written, Some instructions) \<Rightarrow>
                         if written = 0 then (KERN_NOT_SUPPORTED, s)
                         else patch_transaction pf target instructions originalProtection s
                     | _ \<Rightarrow> (KERN_NOT_SUPPORTED, s))
              | _ \<Rightarrow> (KERN_PROTECTION_FAILURE, s))"

definition RorkHookReplaceFunction ::
  "'w platform \<Rightarrow> u64 \<Rightarrow> u64 \<Rightarrow> 'w machine \<Rightarrow> kern_return \<times> 'w machine" where
  "RorkHookReplaceFunction pf function replacement =
     RorkHookReplaceFunctionWithSize pf function (4 * RORK_HOOK_ABSOLUTE_JUMP_WORDS) replacement"

section \<open>A processor for the sequence\<close>

datatype jump_instr =
    MOVK "5 word" u16 "2 word"
  | BR "5 word"

definition decode_jump :: "u32 \<Rightarrow> jump_instr option" where
  "decode_jump w =
     (if w AND 0xff800000 = 0xf2800000
      then Some (MOVK (ucast w) (ucast (drop_bit 5 w)) (ucast (drop_bit 21 w)))
      else if w AND 0xfffffc1f = 0xd61f0000 then Some (BR (ucast (drop_bit 5 w)))
      else None)"

record cpu =
  pc :: u64
  reg :: "5 word \<Rightarrow> u64"

text \<open>Register 31 reads as zero and discards writes in these instructions.\<close>

definition read_reg :: "cpu \<Rightarrow> 5 word \<Rightarrow> u64" where
  "read_reg c r = (if r = 31 then 0 else reg c r)"

definition write_reg :: "cpu \<Rightarrow> 5 word \<Rightarrow> u64 \<Rightarrow> cpu" where
  "write_reg c r v = (if r = 31 then c else c\<lparr>reg := (reg c)(r := v)\<rparr>)"

definition insert_lane :: "u64 \<Rightarrow> u16 \<Rightarrow> 2 word \<Rightarrow> u64" where
  "insert_lane old imm hw =
     (old AND NOT (push_bit (16 * unat hw) (mask 16))) OR push_bit (16 * unat hw) (ucast imm)"

definition cpu_step :: "memory \<Rightarrow> cpu \<Rightarrow> cpu option" where
  "cpu_step m c =
     (case decode_jump (load32 m (pc c)) of
        None \<Rightarrow> None
      | Some (MOVK rd imm hw) \<Rightarrow>
          Some (write_reg c rd (insert_lane (read_reg c rd) imm hw)\<lparr>pc := pc c + 4\<rparr>)
      | Some (BR rn) \<Rightarrow> Some (c\<lparr>pc := read_reg c rn\<rparr>))"

fun cpu_run :: "nat \<Rightarrow> memory \<Rightarrow> cpu \<Rightarrow> cpu option" where
  "cpu_run 0 m c = Some c"
| "cpu_run (Suc n) m c = (case cpu_step m c of None \<Rightarrow> None | Some c' \<Rightarrow> cpu_run n m c')"

definition raw_address :: "'w platform \<Rightarrow> u64 \<Rightarrow> u64" where
  "raw_address pf p = (if ptrauth_calls pf then ptrauth_strip pf p else p)"

definition jump_words :: "u64 \<Rightarrow> u32 list" where
  "jump_words target =
     [RorkHookEncodeMOVK 16 (ucast target) 0, RorkHookEncodeMOVK 16 (ucast (drop_bit 16 target)) 16,
      RorkHookEncodeMOVK 16 (ucast (drop_bit 32 target)) 32,
      RorkHookEncodeMOVK 16 (ucast (drop_bit 48 target)) 48, RorkHookEncodeBR 16]"

section \<open>Encodings\<close>

lemma decode_MOVK:
  "decode_jump (RorkHookEncodeMOVK 16 imm 0) = Some (MOVK 16 imm 0)"
  "decode_jump (RorkHookEncodeMOVK 16 imm 16) = Some (MOVK 16 imm 1)"
  "decode_jump (RorkHookEncodeMOVK 16 imm 32) = Some (MOVK 16 imm 2)"
  "decode_jump (RorkHookEncodeMOVK 16 imm 48) = Some (MOVK 16 imm 3)"
  by (simp_all add: decode_jump_def RorkHookEncodeMOVK_def Let_def word_eq_bits bit_simps bit_beyond)

lemma decode_BR: "decode_jump (RorkHookEncodeBR 16) = Some (BR 16)"
  by (simp add: decode_jump_def RorkHookEncodeBR_def Let_def word_eq_bits bit_simps bit_beyond)

lemma lanes_complete:
  "insert_lane (insert_lane (insert_lane (insert_lane x (ucast t) 0) (ucast (drop_bit 16 t)) 1)
     (ucast (drop_bit 32 t)) 2) (ucast (drop_bit 48 t)) 3 = (t :: u64)"
proof (rule bit_word_eqI)
  fix n :: nat assume "n < LENGTH(64)"
  then consider "n < 16" | "16 \<le> n" "n < 32" | "32 \<le> n" "n < 48" | "48 \<le> n" "n < 64" by fastforce
  then show "bit (insert_lane (insert_lane (insert_lane (insert_lane x (ucast t) 0)
      (ucast (drop_bit 16 t)) 1) (ucast (drop_bit 32 t)) 2) (ucast (drop_bit 48 t)) 3) n = bit t n"
    by cases (simp_all add: insert_lane_def bit_simps less_diff_conv2)
qed

lemma BuildAbsoluteJump_words:
  "RorkHookBuildAbsoluteJump pf destination (Some (replicate 5 0)) 5 =
     (if arm64 pf \<and> destination \<noteq> 0 then (5, Some (jump_words (raw_address pf destination)))
      else (0, Some (replicate 5 0)))"
  by (simp add: RorkHookBuildAbsoluteJump_def Let_def raw_address_def jump_words_def eval_nat_numeral)

section \<open>Running the sequence\<close>

lemma length_word_bytes: "length (word_bytes ws) = 4 * length ws"
  by (induction ws) (auto simp: word_bytes_def)

lemma load32_word_bytes:
  assumes "load_bytes m a (4 * length ws) = word_bytes ws" "i < length ws"
  shows "load32 m (a + of_nat (4 * i)) = ws ! i"
proof -
  have "load_bytes m (a + of_nat (4 * i)) 4 = take 4 (drop (4 * i) (load_bytes m a (4 * length ws)))"
    using assms(2) by (intro nth_equalityI) (simp_all add: add.assoc)
  also have "\<dots> = le_bytes 4 (ws ! i)"
    unfolding assms(1) using assms(2)
  proof (induction ws arbitrary: i)
    case (Cons w ws)
    then show ?case by (cases i) (simp_all add: word_bytes_def)
  qed simp
  finally show ?thesis
    by (simp add: load32_def le_word_le_bytes take_bit_word_eq_self)
qed

lemma jump_reaches:
  assumes "load_bytes m (pc c) 20 = word_bytes (jump_words t)"
  shows "cpu_run 5 m c = Some \<lparr>pc = t, reg = (reg c)(16 := t)\<rparr>"
proof -
  have len: "length (jump_words t) = 5" by (simp add: jump_words_def)
  note w = load32_word_bytes [of m "pc c" "jump_words t", unfolded len]
  have f: "load32 m (pc c) = jump_words t ! 0" "load32 m (pc c + 4) = jump_words t ! 1"
    "load32 m (pc c + 8) = jump_words t ! 2" "load32 m (pc c + 12) = jump_words t ! 3"
    "load32 m (pc c + 16) = jump_words t ! 4"
    using assms w [of 0] w [of 1] w [of 2] w [of 3] w [of 4] by simp_all
  have one: "cpu_step m c' = Some (c'\<lparr>pc := pc c' + 4, reg := (reg c')(16 := insert_lane (reg c' 16) imm hw)\<rparr>)"
    if "decode_jump (load32 m (pc c')) = Some (MOVK 16 imm hw)" for c' imm hw
    using that by (simp add: cpu_step_def write_reg_def read_reg_def)
  have five: "5 = Suc (Suc (Suc (Suc (Suc 0))))" by simp
  have upd: "c\<lparr>pc := x, reg := y\<rparr> = \<lparr>pc = x, reg = y\<rparr>" for x y by (cases c) simp
  define c4 where "c4 = \<lparr>pc = pc c + 16, reg = (reg c)(16 := t)\<rparr>"
  have "cpu_run 5 m c = cpu_run (Suc 0) m c4"
    unfolding five c4_def
    by (simp add: one f jump_words_def decode_MOVK add.assoc lanes_complete upd)
  also have "\<dots> = Some \<lparr>pc = t, reg = (reg c)(16 := t)\<rparr>"
    by (simp add: c4_def cpu_step_def f jump_words_def decode_BR read_reg_def)
  finally show ?thesis .
qed

section \<open>Shape of a detour\<close>

text \<open>The checks before the first effect, on natural numbers and in their order: the error code of the
  first one that fails, or the protection to restore.\<close>

definition detour_check :: "'w platform \<Rightarrow> 'w \<Rightarrow> u64 \<Rightarrow> u64 \<Rightarrow> u64 \<Rightarrow> kern_return + vm_prot" where
  "detour_check pf w f n r =
     (let t = raw_address pf f; page = unat (getpagesize pf) in
      if \<not> arm64 pf then Inl KERN_NOT_SUPPORTED
      else if f = 0 \<or> r = 0 \<or> unat n < 20 \<or> sint (getpagesize pf) \<le> 0 \<or> unat t mod 4 \<noteq> 0 \<or>
              page < unat t mod page + 20
      then Inl KERN_INVALID_ARGUMENT
      else if \<not> RorkHookMemoryIsReadable pf w t 20 then Inl KERN_INVALID_ADDRESS
      else case protection_of pf w t of
             None \<Rightarrow> Inl KERN_PROTECTION_FAILURE
           | Some p \<Rightarrow> if p AND VM_PROT_EXECUTE = 0 then Inl KERN_PROTECTION_FAILURE else Inr p)"

lemma page_guard:
  fixes t :: u64 and page :: u32
  shows "(ucast page < (20 :: u64) \<or> ucast page - 20 < t mod ucast page) \<longleftrightarrow>
    unat page < unat t mod unat page + 20"
proof (cases "ucast page < (20 :: u64)")
  case True
  then show ?thesis by (simp add: word_less_nat_alt)
next
  case False
  then have "unat (ucast page - 20 :: u64) = unat page - 20" "20 \<le> unat page"
    by (simp_all add: unat_sub word_le_nat_alt not_less)
  with False show ?thesis by (simp add: word_less_nat_alt unat_mod less_diff_conv2 less_diff_conv)
qed

lemma ReplaceFunction_check:
  "RorkHookReplaceFunctionWithSize pf f n r s =
     (case detour_check pf (world s) f n r of
        Inl code \<Rightarrow> (code, s)
      | Inr orig \<Rightarrow> patch_transaction pf (raw_address pf f) (jump_words (raw_address pf r)) orig s)"
proof -
  have word: "unat n < 20 \<longleftrightarrow> n < 20" "unat t mod 4 \<noteq> 0 \<longleftrightarrow> t mod 4 \<noteq> 0" for t :: u64
    by (simp_all add: word_less_nat_alt word_unat_eq_iff unat_mod)
  show ?thesis
    unfolding RorkHookReplaceFunctionWithSize_def Let_def BuildAbsoluteJump_words MemoryProtection_Some
      raw_address_def [symmetric] detour_check_def page_guard [symmetric] word
    by (cases "r = 0"; cases "arm64 pf"; simp split: option.split)
qed

lemma detour_check_Inl: "detour_check pf w f n r = Inl code \<Longrightarrow> code \<noteq> KERN_SUCCESS"
  by (auto simp: detour_check_def Let_def split: if_splits option.splits)

lemma detour_check_Inr:
  assumes "detour_check pf w f n r = Inr orig" "t = raw_address pf f"
  shows "arm64 pf" "f \<noteq> 0" "r \<noteq> 0" "20 \<le> n" "0 < sint (getpagesize pf)" "unat t mod 4 = 0"
    "unat t mod unat (getpagesize pf) + 20 \<le> unat (getpagesize pf)"
    "RorkHookMemoryIsReadable pf w t 20" "protection_of pf w t = Some orig" "orig AND VM_PROT_EXECUTE \<noteq> 0"
  using assms by (auto simp: detour_check_def Let_def word_le_nat_alt split: if_splits option.splits)

lemma length_jump_bytes: "length (word_bytes (jump_words t)) = 20"
  by (simp add: length_word_bytes jump_words_def)

text \<open>A patch is all or nothing.\<close>

lemma patch_transaction_mem:
  assumes "length (word_bytes is) = 20"
  shows "mem (snd (patch_transaction pf t is orig s)) =
    (if fst (patch_transaction pf t is orig s) = KERN_SUCCESS
     then store_bytes (mem s) t (word_bytes is) else mem s)"
proof -
  have m: "mem (snd (RorkHookMakeMemoryWritable pf t 20 s)) = mem s"
    by (simp add: RorkHookMakeMemoryWritable_def)
  have "store_bytes (store_bytes (mem s) t (word_bytes is)) t (load_bytes (mem s) t 20) = mem s"
    by (rule store_bytes_restore) (simp_all add: assms)
  with m show ?thesis by (simp add: patch_transaction_def Let_def split_beta)
qed

lemma protect_event:
  assumes "a \<noteq> 0" "n \<noteq> 0"
  shows "events (snd (RorkHookProtectMemory pf a n p s)) =
    events s @ [Protect a n p (fst (RorkHookProtectMemory pf a n p s))]"
  using assms by (simp add: RorkHookProtectMemory_def split_beta)

text \<open>The effects of a patch, by its result: the code that is returned is that of the protect call that
  failed.\<close>

definition patch_trace :: "u64 \<Rightarrow> vm_prot \<Rightarrow> kern_return \<Rightarrow> event list \<Rightarrow> bool" where
  "patch_trace t orig code es \<longleftrightarrow>
     (let install = [Protect t 20 0x13 KERN_SUCCESS, Write t 20, DcacheFlush t 20] in
      if code = KERN_SUCCESS then es = install @ [Protect t 20 orig KERN_SUCCESS, IcacheInvalidate t 20]
      else es = [Protect t 20 0x13 code] \<or>
        (\<exists>q. es = install @ [Protect t 20 orig code, Write t 20, DcacheFlush t 20, Protect t 20 orig q,
                             IcacheInvalidate t 20]))"

lemma patch_transaction_events:
  assumes "t \<noteq> 0" "length (word_bytes is) = 20"
  shows "case patch_transaction pf t is orig s of (code, s') \<Rightarrow>
    \<exists>es. events s' = events s @ es \<and> patch_trace t orig code es"
proof -
  define s1 where "s1 = snd (RorkHookMakeMemoryWritable pf t 20 s)"
  define r where "r = fst (RorkHookMakeMemoryWritable pf t 20 s)"
  have e1: "events s1 = events s @ [Protect t 20 0x13 r]"
    using assms(1) by (simp add: s1_def r_def RorkHookMakeMemoryWritable_def protect_event)
  define s2 where "s2 = sys_dcache_flush t 20 (write_bytes t (word_bytes is) s1)"
  define q where "q = RorkHookProtectMemory pf t 20 orig s2"
  define s3 where "s3 = sys_dcache_flush t 20 (write_bytes t (load_bytes (mem s) t 20) (snd q))"
  define r' where "r' = fst (RorkHookProtectMemory pf t 20 orig s3)"
  have run: "patch_transaction pf t is orig s =
      (if r \<noteq> KERN_SUCCESS then (r, s1)
       else if fst q \<noteq> KERN_SUCCESS
       then (fst q, sys_icache_invalidate t 20 (snd (RorkHookProtectMemory pf t 20 orig s3)))
       else (KERN_SUCCESS, sys_icache_invalidate t 20 (snd q)))"
    by (simp add: patch_transaction_def Let_def split_beta r_def [symmetric] s1_def [symmetric]
        s2_def [symmetric] q_def [symmetric] s3_def [symmetric])
  have e: "events (snd q) = events s @ [Protect t 20 0x13 r, Write t 20, DcacheFlush t 20, Protect t 20 orig (fst q)]"
    using assms by (simp add: q_def protect_event) (simp add: s2_def e1 assms(2))
  have "events (snd (RorkHookProtectMemory pf t 20 orig s3)) =
      events (snd q) @ [Write t 20, DcacheFlush t 20, Protect t 20 orig r']"
    using assms by (simp add: protect_event r'_def) (simp add: s3_def)
  with e e1 show ?thesis by (simp add: run patch_trace_def Let_def)
qed

lemma page_interior:
  fixes t page :: nat
  assumes "t mod page + 20 \<le> page"
  shows "(t + 19) div page = t div page"
proof -
  have "(t mod page + 19) div page = 0" using assms by simp
  moreover have "t + 19 = t div page * page + (t mod page + 19)"
    by (simp add: div_mult_mod_eq flip: add.assoc)
  ultimately show ?thesis
    using assms div_mult_self3 [of page "t div page" "t mod page + 19"] by simp
qed

lemma patch_transaction_prot:
  assumes law: "protect_law pf view" and one: "on_pages (vm_page_size pf) t 20 = (\<lambda>x. same_page (vm_page_size pf) x t)"
    and orig: "protection_of pf (world s) t = Some orig"
    and ok: "fst (patch_transaction pf t is orig s) = KERN_SUCCESS"
  shows "view (world (snd (patch_transaction pf t is orig s))) = view (world s)"
proof
  fix x
  define p where "p = RorkHookProtectMemory pf t 20 0x13 s"
  define s2 where "s2 = sys_dcache_flush t 20 (write_bytes t (word_bytes is) (snd p))"
  define q where "q = RorkHookProtectMemory pf t 20 orig s2"
  have run: "patch_transaction pf t is orig s = (KERN_SUCCESS, sys_icache_invalidate t 20 (snd q))"
    "fst p = KERN_SUCCESS" "fst q = KERN_SUCCESS"
    using ok
    by (auto simp: patch_transaction_def RorkHookMakeMemoryWritable_def Let_def split_beta
        p_def [symmetric] s2_def [symmetric] q_def [symmetric] split: if_splits)
  have "view (world s) x = orig AND 7" if "same_page (vm_page_size pf) x t"
    using protection_of_prot [OF law orig] protect_law_page [OF law that] by simp
  moreover have "view (world (snd q)) x = (if same_page (vm_page_size pf) x t then orig AND 7 else view (world (snd p)) x)"
    using ProtectMemory_prot [OF law, of t 20 orig s2 x] run(3) by (simp add: q_def one s2_def)
  moreover have "view (world (snd p)) x = (if same_page (vm_page_size pf) x t then 0x13 AND 7 else view (world s) x)"
    using ProtectMemory_prot [OF law, of t 20 "0x13" s x] run(2) by (simp add: p_def one)
  ultimately show "view (world (snd (patch_transaction pf t is orig s))) x = view (world s) x"
    by (simp add: run)
qed

section \<open>Properties\<close>

text \<open>
  The absolute jump reaches its destination from every processor state: with the five words
  that \<open>RorkHookBuildAbsoluteJump\<close> produces at the program counter, five steps end with the
  program counter at the destination (without pointer-authentication bits), whatever x16 held
  before, and no other register changes. With an invalid argument the buffer is left alone and
  the count is zero.
\<close>

lemma BuildAbsoluteJump_reaches:
  "case RorkHookBuildAbsoluteJump pf destination (Some (replicate 5 old)) capacity of
     (count, buffer) \<Rightarrow>
       if arm64 pf \<and> destination \<noteq> 0 \<and> 5 \<le> capacity then
         count = 5 \<and>
         (\<exists>ws. buffer = Some ws \<and> length ws = 5 \<and>
            (\<forall>m c. cpu_run 5 (store_bytes m (pc c) (word_bytes ws)) c =
               Some \<lparr>pc = raw_address pf destination, reg = (reg c)(16 := raw_address pf destination)\<rparr>))
       else count = 0 \<and> buffer = Some (replicate 5 old)"
proof (cases "arm64 pf \<and> destination \<noteq> 0 \<and> 5 \<le> capacity")
  case True
  then have "RorkHookBuildAbsoluteJump pf destination (Some (replicate 5 old)) capacity =
      (5, Some (jump_words (raw_address pf destination)))"
    by (simp add: RorkHookBuildAbsoluteJump_def Let_def raw_address_def jump_words_def eval_nat_numeral leD)
  moreover have "cpu_run 5 (store_bytes m (pc c) (word_bytes (jump_words t))) c =
      Some \<lparr>pc = t, reg = (reg c)(16 := t)\<rparr>" for m c t
    using store_bytes_same [of "word_bytes (jump_words t)" m "pc c"]
    by (intro jump_reaches) (simp add: length_jump_bytes)
  ultimately show ?thesis using True by (auto simp: jump_words_def)
next
  case False
  then show ?thesis by (auto simp: RorkHookBuildAbsoluteJump_def Let_def not_le)
qed

text \<open>
  C2: A successful detour redirects every call: entering the patched function with any register
  contents arrives at the replacement after five instructions, with only the scratch register
  x16 changed.
\<close>

theorem ReplaceFunction_redirects:
  "case RorkHookReplaceFunctionWithSize pf f n r s of (code, s') \<Rightarrow>
     if code = KERN_SUCCESS
     then cpu_run 5 (mem s') \<lparr>pc = raw_address pf f, reg = regs\<rparr> =
            Some \<lparr>pc = raw_address pf r, reg = regs(16 := raw_address pf r)\<rparr>
     else mem s' = mem s"
proof (cases "detour_check pf (world s) f n r")
  case (Inl code)
  with detour_check_Inl [OF Inl] show ?thesis by (simp add: ReplaceFunction_check)
next
  case (Inr orig)
  define t where "t = raw_address pf f"
  let ?w = "word_bytes (jump_words (raw_address pf r))"
  have "load_bytes (store_bytes (mem s) t ?w) t 20 = ?w"
    using store_bytes_same [of ?w "mem s" t] by (simp add: length_jump_bytes)
  then have "cpu_run 5 (store_bytes (mem s) t ?w) \<lparr>pc = t, reg = regs\<rparr> =
      Some \<lparr>pc = raw_address pf r, reg = regs(16 := raw_address pf r)\<rparr>"
    using jump_reaches [of "store_bytes (mem s) t ?w" "\<lparr>pc = t, reg = regs\<rparr>"] by simp
  then show ?thesis
    using Inr by (simp add: ReplaceFunction_check split_beta patch_transaction_mem [OF length_jump_bytes] t_def)
qed

text \<open>
  C8: A detour is all or nothing, and confined: unless it returns success memory is exactly as
  before (the original instructions are put back when the protection cannot be restored); on
  success the target is instruction aligned, twenty readable bytes of an executable region and
  inside one page, and every byte outside these twenty is unchanged.
\<close>

theorem ReplaceFunction_transactional:
  "case RorkHookReplaceFunctionWithSize pf f n r s of (code, s') \<Rightarrow>
     if code = KERN_SUCCESS
     then unat (raw_address pf f) mod 4 = 0 \<and> 20 \<le> n \<and>
          RorkHookMemoryIsReadable pf (world s) (raw_address pf f) 20 \<and>
          (\<exists>p. protection_of pf (world s) (raw_address pf f) = Some p \<and> p AND VM_PROT_EXECUTE \<noteq> 0) \<and>
          (unat (raw_address pf f) + 19) div unat (getpagesize pf) =
             unat (raw_address pf f) div unat (getpagesize pf) \<and>
          (\<forall>x. mem s' x = mem s x \<or> unat (x - raw_address pf f) < 20)
     else mem s' = mem s"
proof (cases "detour_check pf (world s) f n r")
  case (Inl code)
  with detour_check_Inl [OF Inl] show ?thesis by (simp add: ReplaceFunction_check)
next
  case (Inr orig)
  note checked = detour_check_Inr [OF Inr refl]
  have "store_bytes (mem s) t (word_bytes (jump_words w)) x = mem s x \<or> unat (x - t) < 20" for w x t
    by (simp add: store_bytes_def length_jump_bytes)
  then show ?thesis
    using checked page_interior [OF checked(7)] Inr
    by (simp add: ReplaceFunction_check split_beta patch_transaction_mem [OF length_jump_bytes])
qed

text \<open>
  C33: Errors and effects of a detour. The checks are made in a fixed order, each with its error code,
  and a rejected call has no effect at all. Otherwise code is only written after the range was made
  writable, the data cache is flushed after every write, the original protection is requested after
  the patch, the instruction cache is invalidated last, after the final write, on the success path and
  on the rollback path, and a failing call returns the code of the protect call that failed.
\<close>

theorem ReplaceFunction_trace:
  "case detour_check pf (world s) f n r of
     Inl error \<Rightarrow> error \<noteq> KERN_SUCCESS \<and> RorkHookReplaceFunctionWithSize pf f n r s = (error, s)
   | Inr orig \<Rightarrow>
       (case RorkHookReplaceFunctionWithSize pf f n r s of (code, s') \<Rightarrow>
          \<exists>es. events s' = events s @ es \<and> patch_trace (raw_address pf f) orig code es)"
proof (cases "detour_check pf (world s) f n r")
  case (Inl code)
  with detour_check_Inl [OF Inl] show ?thesis by (simp add: ReplaceFunction_check)
next
  case (Inr orig)
  have "raw_address pf f \<noteq> 0" by (rule protection_of_null [OF detour_check_Inr(9) [OF Inr refl]])
  with patch_transaction_events [OF _ length_jump_bytes] Inr show ?thesis by (simp add: ReplaceFunction_check)
qed

text \<open>
  C34: A successful detour leaves every page with the protection it had. (Hypotheses: the
  documented behaviour of the VM system, and that \<open>getpagesize\<close> and \<open>vm_page_size\<close> agree.)
\<close>

theorem ReplaceFunction_restores_protections:
  assumes "protect_law pf view" "ucast (getpagesize pf) = vm_page_size pf"
    and "fst (RorkHookReplaceFunctionWithSize pf f n r s) = KERN_SUCCESS"
  shows "view (world (snd (RorkHookReplaceFunctionWithSize pf f n r s))) = view (world s)"
proof (cases "detour_check pf (world s) f n r")
  case (Inl code)
  with assms(3) show ?thesis by (simp add: ReplaceFunction_check)
next
  case (Inr orig)
  define t where "t = raw_address pf f"
  note checked = detour_check_Inr [OF Inr t_def]
  have size: "unat (vm_page_size pf) = unat (getpagesize pf)" by (simp flip: assms(2))
  have last: "unat t + unat (20 :: u64) - 1 = unat t + 19" by simp
  have "on_pages (vm_page_size pf) t 20 = (\<lambda>x. same_page (vm_page_size pf) x t)"
    using page_interior [OF checked(7)]
    unfolding fun_eq_iff on_pages_def same_page_def last size by auto
  then show ?thesis
    using patch_transaction_prot [OF assms(1) _ checked(9)] assms(3) Inr
    by (simp add: ReplaceFunction_check t_def)
qed

theorem ReplaceFunction_restores_protections_witness:
  "ref_prot (world (snd (RorkHookReplaceFunctionWithSize (ref_platform False) 0x10010 32 0x20000 (device_state [])))) =
     ref_prot (world (device_state []))"
proof (rule ReplaceFunction_restores_protections [OF ref_protect_law])
  show "ucast (getpagesize (ref_platform False)) = vm_page_size (ref_platform False)"
    by (simp add: ref_platform_def)
  show "fst (RorkHookReplaceFunctionWithSize (ref_platform False) 0x10010 32 0x20000 (device_state [])) = KERN_SUCCESS"
    by (simp add: RorkHookReplaceFunctionWithSize_def patch_transaction_def RorkHookProtectMemory_def
        RorkHookMakeMemoryWritable_def RorkHookBuildAbsoluteJump_def
        RorkHookMemoryIsReadable_def RorkHookReadableMemoryLength_def RorkHookQueryRegion_def
        RorkHookMemoryProtection_def ref_platform_def ref_protect_def ref_region_def
        device_state_def Let_def)
qed

section \<open>The library's own protect calls\<close>

lemma rebind_detour: "RorkHookReplaceFunctionWithSize (rebind_vm_protect hook pf) = RorkHookReplaceFunctionWithSize pf"
proof -
  have build: "RorkHookBuildAbsoluteJump (rebind_vm_protect hook pf) = RorkHookBuildAbsoluteJump pf"
    unfolding fun_eq_iff RorkHookBuildAbsoluteJump_def rebind_fields by simp
  have patch: "patch_transaction (rebind_vm_protect hook pf) = patch_transaction pf"
    unfolding fun_eq_iff patch_transaction_def RorkHookMakeMemoryWritable_def rebind_protect by simp
  show ?thesis
    unfolding fun_eq_iff RorkHookReplaceFunctionWithSize_def rebind_queries rebind_fields build patch by simp
qed

lemma rebind_replace:
  "RorkHookReplaceFunction (rebind_vm_protect hook pf) f r s = RorkHookReplaceFunctionWithSize pf f 20 r s"
  by (simp add: RorkHookReplaceFunction_def rebind_detour)

end
