(* ===== verification/Symbols.thy ===== *)
theory Symbols
  imports Load_Commands Arm64 Reference_Platform
begin

text \<open>
  Symbol lookup in live and in file-mapped Mach-O images
  (\<open>Sources/RorkHook/RorkHookSymbols.c\<close>). Record pointers into the image (the symbol-table
  command, the \<open>__LINKEDIT\<close> segment) are addresses with \<open>0\<close> for \<open>NULL\<close>; a C string argument is its
  bytes without the terminator, or \<open>None\<close> for \<open>NULL\<close>. The loop over the symbol table keeps the
  32-bit index of the source.

  The properties say that a lookup finds the first section symbol with the requested name, that
  the address arithmetic never wraps, and that nothing outside the mapping (for a file image) or
  outside readable regions (for a live image) influences the result.
\<close>

section \<open>C strings\<close>

text \<open>\<open>memchr(p, 0, n)\<close> as the distance of the terminator.\<close>

fun memchr_nul :: "memory \<Rightarrow> u64 \<Rightarrow> nat \<Rightarrow> nat option" where
  "memchr_nul m p 0 = None"
| "memchr_nul m p (Suc n) = (if m p = 0 then Some 0 else map_option Suc (memchr_nul m (p + 1) n))"

section \<open>Symbol metadata\<close>

abbreviation SEG_LINKEDIT :: string where "SEG_LINKEDIT \<equiv> ''__LINKEDIT''"
abbreviation sizeof_symtab_command :: u32 where "sizeof_symtab_command \<equiv> 24"
abbreviation sizeof_nlist :: u64 where "sizeof_nlist \<equiv> 16"
abbreviation N_TYPE :: u8 where "N_TYPE \<equiv> 0x0e"
abbreviation N_SECT :: u8 where "N_SECT \<equiv> 0x0e"

definition symtab_symoff :: "memory \<Rightarrow> u64 \<Rightarrow> u32" where [layout_simps]: "symtab_symoff m c = load32 m (c + 8)"
definition symtab_nsyms :: "memory \<Rightarrow> u64 \<Rightarrow> u32" where [layout_simps]: "symtab_nsyms m c = load32 m (c + 12)"
definition symtab_stroff :: "memory \<Rightarrow> u64 \<Rightarrow> u32" where [layout_simps]: "symtab_stroff m c = load32 m (c + 16)"
definition symtab_strsize :: "memory \<Rightarrow> u64 \<Rightarrow> u32" where [layout_simps]: "symtab_strsize m c = load32 m (c + 20)"

record RorkHookFindSymtabContext =
  fsc_symtab :: u64
  fsc_linkedit :: u64

definition RorkHookFindSymtabLoadCommand :: "('w, RorkHookFindSymtabContext) visitor" where
  "RorkHookFindSymtabLoadCommand command index s context =
     (if command = 0 then (False, s, context)
      else if command_cmd (mem s) command = LC_SYMTAB \<and>
              sizeof_symtab_command \<le> command_cmdsize (mem s) command
      then (True, s, context\<lparr>fsc_symtab := command\<rparr>)
      else if command_cmd (mem s) command = RORK_HOOK_LC_SEGMENT \<and>
              sizeof_segment_command \<le> command_cmdsize (mem s) command
      then
        let segment = command in
        if strncmp_equal (segment_segname (mem s) segment) (c_literal SEG_LINKEDIT) 16
        then (True, s, context\<lparr>fsc_linkedit := segment\<rparr>)
        else (True, s, context)
      else (True, s, context))"

definition RorkHookFindSymtab ::
  "'w machine \<Rightarrow> u64 \<Rightarrow> u64 \<Rightarrow> u64 outp \<Rightarrow> u64 \<times> u64 outp" where
  "RorkHookFindSymtab s header mappedSize linkeditOut =
     (let linkeditOut = map_option (\<lambda>_. 0) linkeditOut;
          context = \<lparr>fsc_symtab = 0, fsc_linkedit = 0\<rparr>
      in
      case RorkHookForEachLoadCommandWithSize header mappedSize
             (Some RorkHookFindSymtabLoadCommand) s context of
        (valid, s', context) \<Rightarrow>
          if \<not> valid then (0, linkeditOut)
          else (fsc_symtab context, map_option (\<lambda>_. fsc_linkedit context) linkeditOut))"

section \<open>Checked ranges\<close>

definition RorkHookRangeIsValid :: "u64 \<Rightarrow> u64 \<Rightarrow> u64 \<Rightarrow> bool" where
  "RorkHookRangeIsValid offset len totalSize \<longleftrightarrow> offset \<le> totalSize \<and> len \<le> totalSize - offset"

definition RorkHookSymbolTableSize :: "u32 \<Rightarrow> u64 outp \<Rightarrow> bool \<times> u64 outp" where
  "RorkHookSymbolTableSize symbolCount sizeOut =
     (case sizeOut of
        None \<Rightarrow> (False, None)
      | Some _ \<Rightarrow>
          if 2 ^ 64 \<le> unat (ucast symbolCount :: u64) * unat sizeof_nlist then (False, sizeOut)
          else (True, Some (ucast symbolCount * sizeof_nlist)))"

definition RorkHookFileRangeInSegment ::
  "memory \<Rightarrow> u64 \<Rightarrow> u64 \<Rightarrow> u64 \<Rightarrow> u64 outp \<Rightarrow> bool \<times> u64 outp" where
  "RorkHookFileRangeInSegment m fileOffset len segment relativeOffsetOut =
     (if segment = 0 \<or> relativeOffsetOut = None \<or> fileOffset < segment_fileoff m segment
      then (False, relativeOffsetOut)
      else
        let relativeOffset = fileOffset - segment_fileoff m segment in
        if segment_filesize m segment < relativeOffset \<or>
           segment_filesize m segment - relativeOffset < len
        then (False, relativeOffsetOut)
        else (True, Some relativeOffset))"

section \<open>The symbol table\<close>

record RorkHookNList =
  n_strx :: u32
  n_type :: u8
  n_sect :: u8
  n_desc :: u16
  n_value :: u64

definition read_nlist :: "memory \<Rightarrow> u64 \<Rightarrow> RorkHookNList" where
  "read_nlist m a =
     \<lparr>n_strx = load32 m a, n_type = m (a + 4), n_sect = m (a + 5),
      n_desc = le_word (load_bytes m (a + 6) 2), n_value = load64 m (a + 8)\<rparr>"

text \<open>The contents of the uninitialised local \<open>RorkHookNList entry\<close>, which no path reads.\<close>

definition blank_nlist :: RorkHookNList where
  "blank_nlist = \<lparr>n_strx = 0, n_type = 0, n_sect = 0, n_desc = 0, n_value = 0\<rparr>"

function find_entry_loop ::
  "memory \<Rightarrow> u64 \<Rightarrow> u64 \<Rightarrow> u64 \<Rightarrow> u32 \<Rightarrow> cstring \<Rightarrow> u32 \<Rightarrow> RorkHookNList option" where
  "find_entry_loop m symbols stringTable stringTableSize symbolCount symbolName index =
     (if index < symbolCount then
        let entry = read_nlist m (symbols + ucast index * sizeof_nlist);
            stringOffset = n_strx entry
        in
        if stringOffset = 0 \<or> stringTableSize \<le> ucast stringOffset \<or>
           n_type entry AND N_TYPE \<noteq> N_SECT
        then find_entry_loop m symbols stringTable stringTableSize symbolCount symbolName (index + 1)
        else
          let candidate = stringTable + ucast stringOffset;
              remaining = stringTableSize - ucast stringOffset
          in
          case memchr_nul m candidate (unat remaining) of
            None \<Rightarrow>
              find_entry_loop m symbols stringTable stringTableSize symbolCount symbolName (index + 1)
          | Some candidateLength \<Rightarrow>
              if candidateLength = length symbolName \<and>
                 load_bytes m candidate candidateLength = symbolName
              then Some entry
              else find_entry_loop m symbols stringTable stringTableSize symbolCount symbolName (index + 1)
      else None)"
  by pat_completeness auto
termination
  by (relation "measure (\<lambda>(m, y, t, n, count, name, index). unat count - unat index)")
     (auto intro: word_index_decreases)

declare find_entry_loop.simps [simp del]

definition RorkHookFindSymbolEntry ::
  "memory \<Rightarrow> u64 \<Rightarrow> u64 \<Rightarrow> u64 \<Rightarrow> u32 \<Rightarrow> cstring option \<Rightarrow> RorkHookNList outp \<Rightarrow>
     bool \<times> RorkHookNList outp" where
  "RorkHookFindSymbolEntry m symbols stringTable stringTableSize symbolCount symbolName entryOut =
     (case symbolName of
        None \<Rightarrow> (False, entryOut)
      | Some name \<Rightarrow>
          if symbols = 0 \<or> stringTable = 0 \<or> entryOut = None then (False, entryOut)
          else
            case find_entry_loop m symbols stringTable stringTableSize symbolCount name 0 of
              None \<Rightarrow> (False, entryOut)
            | Some entry \<Rightarrow> (True, Some entry))"

definition RorkHookApplySlide :: "u64 \<Rightarrow> i64 \<Rightarrow> u64 outp \<Rightarrow> bool \<times> u64 outp" where
  "RorkHookApplySlide address slide resultOut =
     (if resultOut = None \<or> UINTPTR_MAX < address then (False, resultOut)
      else
        let nativeAddress = address in
        if slide <s 0 then
          let magnitude = - (slide + 1) + 1 in
          if nativeAddress < magnitude then (False, resultOut)
          else (True, Some (nativeAddress - magnitude))
        else
          let magnitude = slide in
          if UINTPTR_MAX - magnitude < nativeAddress then (False, resultOut)
          else (True, Some (nativeAddress + magnitude)))"

section \<open>Live images\<close>

definition RorkHookFindSymbol :: "'w platform \<Rightarrow> 'w machine \<Rightarrow> u64 \<Rightarrow> cstring option \<Rightarrow> u64" where
  "RorkHookFindSymbol pf s header symbolName =
     (if header = 0 \<or> symbolName = None then 0
      else
        case RorkHookFindSymtab s header (RorkHookReadableMemoryLength pf (world s) header) (Some 0) of
          (symtab, Some linkedit) \<Rightarrow>
            if symtab = 0 \<or> linkedit = 0 then 0
            else
              (case RorkHookSymbolTableSize (symtab_nsyms (mem s) symtab) (Some 0) of
                 (True, Some symbolBytes) \<Rightarrow>
                   (case RorkHookImageSlide pf s header (Some False) of
                      (slide, Some True) \<Rightarrow>
                        (case RorkHookApplySlide (segment_vmaddr (mem s) linkedit) slide (Some 0) of
                           (True, Some linkeditAddress) \<Rightarrow>
                             (case (RorkHookFileRangeInSegment (mem s) (ucast (symtab_symoff (mem s) symtab))
                                      symbolBytes linkedit (Some 0),
                                    RorkHookFileRangeInSegment (mem s) (ucast (symtab_stroff (mem s) symtab))
                                      (ucast (symtab_strsize (mem s) symtab)) linkedit (Some 0)) of
                                ((True, Some symbolRelativeOffset), (True, Some stringRelativeOffset)) \<Rightarrow>
                                  if UINTPTR_MAX < symbolRelativeOffset \<or>
                                     UINTPTR_MAX < stringRelativeOffset \<or>
                                     UINTPTR_MAX - symbolRelativeOffset < linkeditAddress \<or>
                                     UINTPTR_MAX - stringRelativeOffset < linkeditAddress
                                  then 0
                                  else
                                    let symbols = linkeditAddress + symbolRelativeOffset;
                                        stringTable = linkeditAddress + stringRelativeOffset;
                                        strsize = ucast (symtab_strsize (mem s) symtab)
                                    in
                                    if symbolBytes = 0 \<or>
                                       \<not> RorkHookMemoryIsReadable pf (world s) symbols symbolBytes \<or>
                                       symtab_strsize (mem s) symtab = 0 \<or>
                                       \<not> RorkHookMemoryIsReadable pf (world s) stringTable strsize
                                    then 0
                                    else
                                      (case RorkHookFindSymbolEntry (mem s) symbols stringTable strsize
                                              (symtab_nsyms (mem s) symtab) symbolName (Some blank_nlist) of
                                         (True, Some entry) \<Rightarrow>
                                           (case RorkHookApplySlide (n_value entry) slide (Some 0) of
                                              (True, Some symbolAddress) \<Rightarrow>
                                                RorkHookSignPointerIfExecutable pf (world s) symbolAddress
                                            | _ \<Rightarrow> 0)
                                       | _ \<Rightarrow> 0)
                              | _ \<Rightarrow> 0)
                         | _ \<Rightarrow> 0)
                    | _ \<Rightarrow> 0)
               | _ \<Rightarrow> 0)
        | _ \<Rightarrow> 0)"

section \<open>File images\<close>

record RorkHookFileAddressContext =
  fac_virtualAddress :: u64
  fac_fileOffset :: u64
  fac_found :: bool

definition RorkHookFindFileAddressLoadCommand :: "('w, RorkHookFileAddressContext) visitor" where
  "RorkHookFindFileAddressLoadCommand command index s context =
     (if command = 0 then (False, s, context)
      else if command_cmd (mem s) command \<noteq> RORK_HOOK_LC_SEGMENT \<or>
              command_cmdsize (mem s) command < sizeof_segment_command
      then (True, s, context)
      else
        let segment = command in
        if fac_virtualAddress context < segment_vmaddr (mem s) segment then (True, s, context)
        else
          let segmentOffset = fac_virtualAddress context - segment_vmaddr (mem s) segment in
          if segment_vmsize (mem s) segment \<le> segmentOffset \<or>
             segment_filesize (mem s) segment \<le> segmentOffset \<or>
             UINT64_MAX - segment_fileoff (mem s) segment < segmentOffset
          then (True, s, context)
          else (False, s, context\<lparr>fac_fileOffset := segment_fileoff (mem s) segment + segmentOffset,
                                  fac_found := True\<rparr>))"

definition RorkHookFindSymbolInFileImageWithSize ::
  "'w platform \<Rightarrow> 'w machine \<Rightarrow> u64 \<Rightarrow> u64 \<Rightarrow> cstring option \<Rightarrow> u64" where
  "RorkHookFindSymbolInFileImageWithSize pf s header mappedSize symbolName =
     (if header = 0 \<or> symbolName = None \<or> mappedSize < sizeof_mach_header \<or>
         \<not> RorkHookMemoryIsReadable pf (world s) header mappedSize
      then 0
      else
        let symtab = fst (RorkHookFindSymtab s header mappedSize None) in
        if symtab = 0 then 0
        else
          case RorkHookSymbolTableSize (symtab_nsyms (mem s) symtab) (Some 0) of
            (True, Some symbolBytes) \<Rightarrow>
              let symoff = ucast (symtab_symoff (mem s) symtab);
                  stroff = ucast (symtab_stroff (mem s) symtab);
                  strsize = ucast (symtab_strsize (mem s) symtab)
              in
              if symbolBytes = 0 \<or> \<not> RorkHookRangeIsValid symoff symbolBytes mappedSize \<or>
                 symtab_strsize (mem s) symtab = 0 \<or> \<not> RorkHookRangeIsValid stroff strsize mappedSize
              then 0
              else
                let bytes = header; symbols = bytes + symoff; stringTable = bytes + stroff in
                (case RorkHookFindSymbolEntry (mem s) symbols stringTable strsize
                        (symtab_nsyms (mem s) symtab) symbolName (Some blank_nlist) of
                   (True, Some entry) \<Rightarrow>
                     let context = \<lparr>fac_virtualAddress = n_value entry, fac_fileOffset = 0,
                                    fac_found = False\<rparr>
                     in
                     (case RorkHookForEachLoadCommandWithSize header mappedSize
                             (Some RorkHookFindFileAddressLoadCommand) s context of
                        (valid, s', context) \<Rightarrow>
                          if \<not> valid \<or> \<not> fac_found context \<or> SIZE_MAX < fac_fileOffset context \<or>
                             \<not> RorkHookRangeIsValid (fac_fileOffset context) 1 mappedSize
                          then 0
                          else RorkHookSignPointerIfExecutable pf (world s)
                                 (bytes + fac_fileOffset context))
                 | _ \<Rightarrow> 0)
          | _ \<Rightarrow> 0)"

definition RorkHookFindSymbolInFileImage ::
  "'w platform \<Rightarrow> 'w machine \<Rightarrow> u64 \<Rightarrow> cstring option \<Rightarrow> u64" where
  "RorkHookFindSymbolInFileImage pf s header symbolName =
     (if header = 0 \<or> symbolName = None then 0
      else RorkHookFindSymbolInFileImageWithSize pf s header
             (RorkHookReadableMemoryLength pf (world s) header) symbolName)"

section \<open>Specification\<close>

definition nlist_at :: "memory \<Rightarrow> u64 \<Rightarrow> nat \<Rightarrow> RorkHookNList" where
  "nlist_at m symbols i = read_nlist m (symbols + of_nat (16 * i))"

text \<open>Entry \<open>i\<close> is a section symbol whose string, terminated inside the string table, is \<open>name\<close>.\<close>

definition symbol_matches :: "memory \<Rightarrow> u64 \<Rightarrow> u64 \<Rightarrow> nat \<Rightarrow> cstring \<Rightarrow> nat \<Rightarrow> bool" where
  "symbol_matches m symbols strings strsize name i \<longleftrightarrow>
     (let e = nlist_at m symbols i; x = unat (n_strx e) in
      0 < x \<and> n_type e AND N_TYPE = N_SECT \<and> 0 \<notin> set name \<and> x + length name < strsize \<and>
      load_bytes m (strings + of_nat x) (Suc (length name)) = name @ [0])"

definition is_symtab :: "memory \<Rightarrow> u64 \<Rightarrow> bool" where
  "is_symtab m c \<longleftrightarrow> command_cmd m c = LC_SYMTAB \<and> 24 \<le> command_cmdsize m c"

definition is_linkedit :: "memory \<Rightarrow> u64 \<Rightarrow> bool" where
  "is_linkedit m c \<longleftrightarrow>
     command_cmd m c = RORK_HOOK_LC_SEGMENT \<and> 72 \<le> command_cmdsize m c \<and>
     strncmp_equal (segment_segname m c) (c_literal SEG_LINKEDIT) 16"

text \<open>A segment that holds an address in its file-backed part, and the file offset of that
  address.\<close>

definition holds_address :: "memory \<Rightarrow> u64 \<Rightarrow> u64 \<Rightarrow> bool" where
  "holds_address m v c \<longleftrightarrow>
     command_cmd m c = RORK_HOOK_LC_SEGMENT \<and> 72 \<le> command_cmdsize m c \<and>
     unat (segment_vmaddr m c) \<le> unat v \<and>
     unat v - unat (segment_vmaddr m c) < unat (segment_vmsize m c) \<and>
     unat v - unat (segment_vmaddr m c) < unat (segment_filesize m c) \<and>
     unat (segment_fileoff m c) + (unat v - unat (segment_vmaddr m c)) < 2 ^ 64"

definition file_offset_of :: "memory \<Rightarrow> u64 \<Rightarrow> u64 \<Rightarrow> nat" where
  "file_offset_of m v c = unat (segment_fileoff m c) + (unat v - unat (segment_vmaddr m c))"

definition commands :: "memory \<Rightarrow> u64 \<Rightarrow> nat \<Rightarrow> u64 list option" where
  "commands m header mapped =
     map_option (map (\<lambda>off. header + 32 + of_nat off)) (command_table m header mapped)"

definition find_named :: "memory \<Rightarrow> u64 \<Rightarrow> nat \<Rightarrow> u64 \<Rightarrow> nat \<Rightarrow> cstring \<Rightarrow> u64 option" where
  "find_named m symbols nsyms strings strsize name =
     map_option (\<lambda>i. n_value (nlist_at m symbols i))
       (find (symbol_matches m symbols strings strsize name) [0..<nsyms])"

text \<open>The file offset of a symbol in a file image of \<open>mapped\<close> bytes.\<close>

definition file_symbol :: "memory \<Rightarrow> u64 \<Rightarrow> nat \<Rightarrow> cstring \<Rightarrow> nat option" where
  "file_symbol m header mapped name =
     (case commands m header mapped of None \<Rightarrow> None | Some cmds \<Rightarrow>
        let symtab = last (0 # filter (is_symtab m) cmds);
            nsyms = unat (symtab_nsyms m symtab); symoff = unat (symtab_symoff m symtab);
            strsize = unat (symtab_strsize m symtab); stroff = unat (symtab_stroff m symtab)
        in
        if symtab = 0 \<or> nsyms = 0 \<or> strsize = 0 \<or> mapped < symoff + 16 * nsyms \<or> mapped < stroff + strsize
        then None
        else
          case find_named m (header + of_nat symoff) nsyms (header + of_nat stroff) strsize name of
            None \<Rightarrow> None
          | Some v \<Rightarrow>
              (case find (holds_address m v) cmds of
                 None \<Rightarrow> None
               | Some c \<Rightarrow> if file_offset_of m v c < mapped then Some (file_offset_of m v c) else None))"

section \<open>Strings and entries\<close>

lemma memchr_nul_Some:
  "memchr_nul m p n = Some k \<longleftrightarrow> k < n \<and> m (p + of_nat k) = 0 \<and> (\<forall>i<k. m (p + of_nat i) \<noteq> 0)"
proof (induction n arbitrary: p k)
  case (Suc n)
  show ?case
  proof (cases "m p = 0")
    case True
    then have "k = 0" if "\<forall>i<k. m (p + of_nat i) \<noteq> 0" using that by (cases k) auto
    with True show ?thesis by auto
  next
    case False
    then show ?thesis
      by (cases k) (auto simp: Suc.IH add.assoc All_less_Suc2)
  qed
qed simp

lemma load_bytes_snoc: "load_bytes m p (Suc n) = load_bytes m p n @ [m (p + of_nat n)]"
  by (simp add: load_bytes_def)

lemma candidate_matches:
  "(case memchr_nul m p n of None \<Rightarrow> False | Some k \<Rightarrow> k = length name \<and> load_bytes m p k = name) \<longleftrightarrow>
     0 \<notin> set name \<and> length name < n \<and> load_bytes m p (Suc (length name)) = name @ [0]"
proof -
  have "(0 \<notin> set name) = (\<forall>i<length name. m (p + of_nat i) \<noteq> 0)" if "load_bytes m p (length name) = name"
  proof -
    have "set name = (\<lambda>i. m (p + of_nat i)) ` {..<length name}"
      using arg_cong [where f = set, OF that] by (simp add: load_bytes_def atLeast0LessThan)
    then show ?thesis by (auto simp: image_iff)
  qed
  moreover have "(case memchr_nul m p n of None \<Rightarrow> False | Some k \<Rightarrow> k = length name \<and> load_bytes m p k = name) \<longleftrightarrow>
      memchr_nul m p n = Some (length name) \<and> load_bytes m p (length name) = name"
    by (auto split: option.split)
  ultimately show ?thesis
    unfolding memchr_nul_Some load_bytes_snoc append1_eq_conv by blast
qed

lemma find_entry_step:
  assumes "index < count"
  shows "find_entry_loop m symbols strings strsize count name index =
    (if symbol_matches m symbols strings (unat strsize) name (unat index)
     then Some (nlist_at m symbols (unat index))
     else find_entry_loop m symbols strings strsize count name (index + 1))"
proof -
  let ?e = "read_nlist m (symbols + ucast index * 16)"
  let ?x = "unat (n_strx ?e)" and ?p = "strings + ucast (n_strx ?e)"
  have at: "nlist_at m symbols (unat index) = ?e" by (simp add: nlist_at_def mult.commute)
  show ?thesis
  proof (cases "n_strx ?e = 0 \<or> strsize \<le> ucast (n_strx ?e) \<or> n_type ?e AND N_TYPE \<noteq> N_SECT")
    case skip: True
    then have "\<not> symbol_matches m symbols strings (unat strsize) name (unat index)"
      by (auto simp: symbol_matches_def Let_def at word_le_nat_alt)
    with skip assms show ?thesis by (subst find_entry_loop.simps) (simp add: Let_def)
  next
    case look: False
    have rem: "unat (strsize - ucast (n_strx ?e)) = unat strsize - ?x" "?x < unat strsize" "0 < ?x"
      using look by (auto simp: unat_sub word_le_nat_alt unat_gt_0 not_le)
    have "symbol_matches m symbols strings (unat strsize) name (unat index) \<longleftrightarrow>
        (case memchr_nul m ?p (unat strsize - ?x) of None \<Rightarrow> False
         | Some k \<Rightarrow> k = length name \<and> load_bytes m ?p k = name)"
      using look rem by (auto simp: candidate_matches symbol_matches_def Let_def at less_diff_conv)
    with look assms rem show ?thesis
      unfolding at by (subst find_entry_loop.simps) (auto simp: Let_def split: option.split)
  qed
qed

lemma find_entry_loop_spec:
  assumes "index \<le> count"
  shows "find_entry_loop m symbols strings strsize count name index =
     map_option (nlist_at m symbols)
       (find (symbol_matches m symbols strings (unat strsize) name) [unat index..<unat count])"
  using assms
proof (induction "unat count - unat index" arbitrary: index rule: less_induct)
  case less
  show ?case
  proof (cases "index < count")
    case False
    then have none: "[unat index..<unat count] = []" by (simp add: word_less_nat_alt)
    show ?thesis unfolding none using False by (subst find_entry_loop.simps) simp
  next
    case True
    have inc: "unat (index + 1) = Suc (unat index)" by (rule unat_inc [OF True])
    then have le: "index + 1 \<le> count" using True by (simp add: word_le_nat_alt word_less_nat_alt)
    have upt: "[unat index..<unat count] = unat index # [unat (index + 1)..<unat count]"
      using True inc by (simp add: word_less_nat_alt upt_conv_Cons)
    show ?thesis
      using less.hyps [OF word_index_decreases [OF True] le] by (simp add: find_entry_step [OF True] upt)
  qed
qed

lemma FindSymbolEntry_value:
  "RorkHookFindSymbolEntry m symbols strings strsize count (Some name) (Some old) =
     (if symbols = 0 \<or> strings = 0 then (False, Some old)
      else case find (symbol_matches m symbols strings (unat strsize) name) [0..<unat count] of
        None \<Rightarrow> (False, Some old) | Some i \<Rightarrow> (True, Some (nlist_at m symbols i)))"
  by (simp add: RorkHookFindSymbolEntry_def find_entry_loop_spec split: option.split)

section \<open>Checked arithmetic\<close>

lemma RangeIsValid_iff:
  "RorkHookRangeIsValid offset len n \<longleftrightarrow> unat offset + unat len \<le> unat n"
  by (auto simp: RorkHookRangeIsValid_def word_le_nat_alt unat_sub)

lemma unat_table_size: "unat (ucast (c :: u32) * 16 :: u64) = 16 * unat c"
proof -
  have "unat c < 2 ^ 32" using unsigned_less [of c, where ?'a = nat] by simp
  then show ?thesis by (simp add: unat_word_ariths)
qed

lemma SymbolTableSize_value:
  "RorkHookSymbolTableSize c (Some old) = (True, Some (ucast c * 16))"
proof -
  have "unat c < 2 ^ 32" using unsigned_less [of c, where ?'a = nat] by simp
  then show ?thesis by (simp add: RorkHookSymbolTableSize_def)
qed

lemma ApplySlide_eq: "RorkHookApplySlide a slide (Some old) = RorkHookAddSignedOffset a slide (Some old)"
  by (simp add: RorkHookApplySlide_def RorkHookAddSignedOffset_def Let_def max_offset_guards)

interpretation apply_slide: out_param
  "\<lambda>(a, slide). RorkHookApplySlide a slide" "\<lambda>(a, slide). offset_sum a slide"
proof unfold_locales
  fix i :: "u64 \<times> i64"
  show "(case i of (a, slide) \<Rightarrow> RorkHookApplySlide a slide) None = (False, None)"
    by (cases i) (simp add: RorkHookApplySlide_def)
qed (auto simp: ApplySlide_eq AddSignedOffset_value split: prod.splits)

definition segment_range :: "memory \<Rightarrow> u64 \<Rightarrow> u64 \<Rightarrow> u64 \<Rightarrow> u64 option" where
  "segment_range m off len seg =
     (if seg \<noteq> 0 \<and> unat (segment_fileoff m seg) \<le> unat off \<and>
         unat off - unat (segment_fileoff m seg) + unat len \<le> unat (segment_filesize m seg)
      then Some (off - segment_fileoff m seg) else None)"

interpretation file_range: out_param
  "\<lambda>(m, off, len, seg). RorkHookFileRangeInSegment m off len seg"
  "\<lambda>(m, off, len, seg). segment_range m off len seg"
proof unfold_locales
  fix i :: "memory \<times> u64 \<times> u64 \<times> u64" and old v :: u64
  obtain m off len seg where i: "i = (m, off, len, seg)" by (cases i) auto
  have run: "RorkHookFileRangeInSegment m off len seg (Some old) =
      (case segment_range m off len seg of None \<Rightarrow> (False, Some old) | Some v \<Rightarrow> (True, Some v))"
  proof (cases "off < segment_fileoff m seg")
    case True
    then show ?thesis
      by (simp add: RorkHookFileRangeInSegment_def segment_range_def word_less_nat_alt)
  next
    case False
    then have "unat (off - segment_fileoff m seg) = unat off - unat (segment_fileoff m seg)"
      by (simp add: unat_sub)
    with False show ?thesis
      by (auto simp: RorkHookFileRangeInSegment_def segment_range_def word_less_nat_alt Let_def
          unat_sub word_le_nat_alt not_less)
  qed
  show "(case i of (m, off, len, seg) \<Rightarrow> RorkHookFileRangeInSegment m off len seg) None = (False, None)"
    by (simp add: i RorkHookFileRangeInSegment_def)
  show "(case i of (m, off, len, seg) \<Rightarrow> segment_range m off len seg) = None \<Longrightarrow>
      (case i of (m, off, len, seg) \<Rightarrow> RorkHookFileRangeInSegment m off len seg) (Some old) = (False, Some old)"
    by (simp add: i run)
  show "(case i of (m, off, len, seg) \<Rightarrow> segment_range m off len seg) = Some v \<Longrightarrow>
      (case i of (m, off, len, seg) \<Rightarrow> RorkHookFileRangeInSegment m off len seg) (Some old) = (True, Some v)"
    by (simp add: i run)
qed

section \<open>The visitors\<close>

definition symtab_step :: "memory \<Rightarrow> u64 \<Rightarrow> RorkHookFindSymtabContext \<Rightarrow> bool \<times> RorkHookFindSymtabContext" where
  "symtab_step m c x =
     (if c = 0 then (False, x)
      else (True, if is_symtab m c then x\<lparr>fsc_symtab := c\<rparr>
                  else if is_linkedit m c then x\<lparr>fsc_linkedit := c\<rparr> else x))"

lemma agree_segname [agree_intros]:
  "agree m m' c n \<Longrightarrow> 72 \<le> n \<Longrightarrow> segment_segname m c = segment_segname m' c"
  using agree_sub_nat [of m m' c n 8 16] by (simp add: segment_segname_def agree_load_bytes)

lemma agree_kinds:
  assumes a: "agree m m' c (unat (command_cmdsize m c))" "8 \<le> unat (command_cmdsize m c)"
  shows "is_symtab m c = is_symtab m' c" "is_linkedit m c = is_linkedit m' c"
    "holds_address m v c = holds_address m' v c"
    "holds_address m v c \<Longrightarrow> file_offset_of m v c = file_offset_of m' v c"
proof -
  have cmd: "command_cmd m c = command_cmd m' c" "command_cmdsize m c = command_cmdsize m' c"
    using a by (auto intro: agree_command)
  then show "is_symtab m c = is_symtab m' c" by (simp add: is_symtab_def)
  show "is_linkedit m c = is_linkedit m' c"
    using agree_segname [OF a(1)] cmd by (auto simp: is_linkedit_def word_le_nat_alt)
  show "holds_address m v c = holds_address m' v c"
    using agree_segment [OF a(1)] cmd by (auto simp: holds_address_def word_le_nat_alt)
  show "holds_address m v c \<Longrightarrow> file_offset_of m v c = file_offset_of m' v c"
    using agree_segment [OF a(1)] by (simp add: holds_address_def file_offset_of_def word_le_nat_alt)
qed

interpretation symtab_visitor: bounded_visitor RorkHookFindSymtabLoadCommand symtab_step
proof unfold_locales
  fix command :: u64 and index and s :: "'w machine" and c
  show "RorkHookFindSymtabLoadCommand command index s c =
      (case symtab_step (mem s) command c of (continue, c') \<Rightarrow> (continue, s, c'))"
    by (simp add: RorkHookFindSymtabLoadCommand_def symtab_step_def is_symtab_def is_linkedit_def Let_def)
next
  fix m m' and command :: u64 and c
  assume "agree m m' command (unat (command_cmdsize m command))" "8 \<le> unat (command_cmdsize m command)"
  note k = agree_kinds [OF this]
  show "symtab_step m command c = symtab_step m' command c"
    by (simp add: symtab_step_def k(1,2))
qed

definition file_step :: "memory \<Rightarrow> u64 \<Rightarrow> RorkHookFileAddressContext \<Rightarrow> bool \<times> RorkHookFileAddressContext" where
  "file_step m c x =
     (if c = 0 then (False, x)
      else if holds_address m (fac_virtualAddress x) c
      then (False, x\<lparr>fac_fileOffset := of_nat (file_offset_of m (fac_virtualAddress x) c), fac_found := True\<rparr>)
      else (True, x))"

interpretation file_visitor: bounded_visitor RorkHookFindFileAddressLoadCommand file_step
proof unfold_locales
  fix command :: u64 and index and s :: "'w machine" and c :: RorkHookFileAddressContext
  let ?v = "fac_virtualAddress c" and ?m = "mem s"
  show "RorkHookFindFileAddressLoadCommand command index s c =
      (case file_step (mem s) command c of (continue, c') \<Rightarrow> (continue, s, c'))"
  proof (cases "?v < segment_vmaddr ?m command")
    case True
    then have "\<not> holds_address ?m ?v command" by (auto simp: holds_address_def word_less_nat_alt)
    with True show ?thesis by (simp add: RorkHookFindFileAddressLoadCommand_def file_step_def)
  next
    case False
    then have d: "unat (?v - segment_vmaddr ?m command) = unat ?v - unat (segment_vmaddr ?m command)"
      "unat (segment_vmaddr ?m command) \<le> unat ?v"
      by (simp_all add: unat_sub not_less) (simp add: word_le_nat_alt)
    have "unat (UINT64_MAX - segment_fileoff ?m command) = 2 ^ 64 - 1 - unat (segment_fileoff ?m command)"
      by (subst unat_sub) (simp_all add: unsigned_minus_1_eq_mask mask_eq_exp_minus_1)
    then have "UINT64_MAX - segment_fileoff ?m command < ?v - segment_vmaddr ?m command \<longleftrightarrow>
        \<not> unat (segment_fileoff ?m command) + (unat ?v - unat (segment_vmaddr ?m command)) < 2 ^ 64"
      using d(1) unsigned_less [of "segment_fileoff ?m command", where ?'a = nat]
      unfolding word_less_nat_alt by simp linarith
    with False d show ?thesis
      by (auto simp: RorkHookFindFileAddressLoadCommand_def file_step_def holds_address_def
          file_offset_of_def Let_def word_le_nat_alt word_less_nat_alt [of "command_cmdsize m c" for m c])
  qed
next
  fix m m' and command :: u64 and c
  assume "agree m m' command (unat (command_cmdsize m command))" "8 \<le> unat (command_cmdsize m command)"
  note k = agree_kinds [OF this]
  show "file_step m command c = file_step m' command c"
    using k(3,4) [of "fac_virtualAddress c"] by (simp add: file_step_def)
qed

section \<open>Lookup in file images\<close>

lemma symtab_not_linkedit: "is_symtab m c \<Longrightarrow> \<not> is_linkedit m c"
  by (simp add: is_symtab_def is_linkedit_def)

lemma last_skip: "last (a # b # xs) = last (b # xs)"
  by simp

lemma visit_symtab:
  assumes "\<And>off. off \<in> set offs \<Longrightarrow> base + of_nat off \<noteq> 0"
  shows "visit_offsets symtab_step m base offs x =
    (let cmds = map (\<lambda>off. base + of_nat off) offs in
     x\<lparr>fsc_symtab := last (fsc_symtab x # filter (is_symtab m) cmds),
       fsc_linkedit := last (fsc_linkedit x # filter (is_linkedit m) cmds)\<rparr>)"
  using assms
proof (induction offs arbitrary: x)
  case (Cons off offs)
  then show ?case
    by (auto simp: symtab_step_def Let_def symtab_not_linkedit last_skip simp del: last.simps
        dest: symtab_not_linkedit split: if_splits)
qed simp

lemma FindSymtab_value:
  assumes "unat header + unat n < 2 ^ 64"
  shows "RorkHookFindSymtab s header n out =
    (case commands (mem s) header (unat n) of
       None \<Rightarrow> (0, map_option (\<lambda>_. 0) out)
     | Some cmds \<Rightarrow> (last (0 # filter (is_symtab (mem s)) cmds),
         map_option (\<lambda>_. last (0 # filter (is_linkedit (mem s)) cmds)) out))"
proof (cases "command_table (mem s) header (unat n)")
  case None
  then show ?thesis
    by (simp add: RorkHookFindSymtab_def commands_def symtab_visitor.for_each_offsets Let_def)
next
  case (Some offs)
  have "visit_offsets symtab_step (mem s) (header + 32) offs \<lparr>fsc_symtab = 0, fsc_linkedit = 0\<rparr> =
      \<lparr>fsc_symtab = last (0 # filter (is_symtab (mem s)) (map (\<lambda>off. header + 32 + of_nat off) offs)),
       fsc_linkedit = last (0 # filter (is_linkedit (mem s)) (map (\<lambda>off. header + 32 + of_nat off) offs))\<rparr>"
    by (subst visit_symtab) (use table_command_address(2) [OF Some assms] in \<open>simp_all add: Let_def\<close>)
  with Some show ?thesis
    by (simp add: RorkHookFindSymtab_def commands_def symtab_visitor.for_each_offsets Let_def
        option.map_comp comp_def del: last.simps)
qed

lemma FileImage_offset:
  assumes "unat header + unat n < 2 ^ 64" "commands (mem s) header (unat n) = Some cmds"
  shows "RorkHookForEachLoadCommandWithSize header n (Some RorkHookFindFileAddressLoadCommand) s
      \<lparr>fac_virtualAddress = v, fac_fileOffset = 0, fac_found = False\<rparr> =
    (True, s, case find (holds_address (mem s) v) cmds of
       None \<Rightarrow> \<lparr>fac_virtualAddress = v, fac_fileOffset = 0, fac_found = False\<rparr>
     | Some c \<Rightarrow> \<lparr>fac_virtualAddress = v, fac_fileOffset = of_nat (file_offset_of (mem s) v c), fac_found = True\<rparr>)"
proof -
  let ?x = "\<lparr>fac_virtualAddress = v, fac_fileOffset = 0, fac_found = False\<rparr>"
  obtain offs where offs: "command_table (mem s) header (unat n) = Some offs"
    and cmds: "cmds = map (\<lambda>off. header + 32 + of_nat off) offs"
    using assms(2) by (auto simp: commands_def)
  have "visit_offsets file_step (mem s) (header + 32) offs ?x =
      (case find (holds_address (mem s) v) cmds of None \<Rightarrow> ?x
       | Some c \<Rightarrow> \<lparr>fac_virtualAddress = v, fac_fileOffset = of_nat (file_offset_of (mem s) v c), fac_found = True\<rparr>)"
    unfolding cmds using table_command_address(2) [OF offs assms(1)]
    by (intro visit_offsets_find) (simp add: file_step_def)
  with offs show ?thesis by (simp add: file_visitor.for_each_offsets)
qed

lemma unat_file_offset: "holds_address m v c \<Longrightarrow> unat (of_nat (file_offset_of m v c) :: u64) = file_offset_of m v c"
proof -
  assume "holds_address m v c"
  then have "file_offset_of m v c < 2 ^ 64" unfolding holds_address_def file_offset_of_def by blast
  then show ?thesis by (simp add: unat_of_nat)
qed

text \<open>The lookup after the symbol-table command has been located.\<close>

text \<open>Both tables of the symbol command \<open>y\<close> are non-empty and lie in the mapped part of the file.\<close>

definition file_tables_ok :: "memory \<Rightarrow> nat \<Rightarrow> u64 \<Rightarrow> bool" where
  "file_tables_ok m mapped y \<longleftrightarrow>
     y \<noteq> 0 \<and> unat (symtab_nsyms m y) \<noteq> 0 \<and> unat (symtab_strsize m y) \<noteq> 0 \<and>
     unat (symtab_symoff m y) + 16 * unat (symtab_nsyms m y) \<le> mapped \<and>
     unat (symtab_stroff m y) + unat (symtab_strsize m y) \<le> mapped"

lemma table_bytes_null: "ucast (c :: u32) * 16 = (0 :: u64) \<longleftrightarrow> unat c = 0"
  using unat_table_size [of c] by (metis mult_is_0 unat_eq_zero zero_neq_numeral)

lemma FileImage_bad_tables:
  assumes "\<not> file_tables_ok (mem s) (unat n) (fst (RorkHookFindSymtab s header n None))"
  shows "RorkHookFindSymbolInFileImageWithSize pf s header n (Some name) = 0"
  using assms
  by (auto simp: RorkHookFindSymbolInFileImageWithSize_def file_tables_ok_def SymbolTableSize_value
      RangeIsValid_iff unat_table_size table_bytes_null Let_def unat_eq_zero)

text \<open>From the value of the symbol to a pointer into the mapping.\<close>

definition file_pointer :: "'w platform \<Rightarrow> 'w machine \<Rightarrow> u64 \<Rightarrow> u64 \<Rightarrow> u64 list \<Rightarrow> u64 \<Rightarrow> u64" where
  "file_pointer pf s header n cmds v =
     (case find (holds_address (mem s) v) cmds of None \<Rightarrow> 0
      | Some c \<Rightarrow> if file_offset_of (mem s) v c < unat n
          then RorkHookSignPointerIfExecutable pf (world s) (header + of_nat (file_offset_of (mem s) v c)) else 0)"

lemma FileImage_good_tables:
  assumes r: "RorkHookMemoryIsReadable pf (world s) header n" and cmds: "commands (mem s) header (unat n) = Some cmds"
    and y: "y = fst (RorkHookFindSymtab s header n None)" and ok: "file_tables_ok (mem s) (unat n) y"
  shows "RorkHookFindSymbolInFileImageWithSize pf s header n (Some name) =
    (case find_named (mem s) (header + ucast (symtab_symoff (mem s) y)) (unat (symtab_nsyms (mem s) y))
            (header + ucast (symtab_stroff (mem s) y)) (unat (symtab_strsize (mem s) y)) name of
       None \<Rightarrow> 0 | Some v \<Rightarrow> file_pointer pf s header n cmds v)"
proof -
  let ?m = "mem s" and ?sy = "header + ucast (symtab_symoff (mem s) y)" and ?st = "header + ucast (symtab_stroff (mem s) y)"
  have nw: "unat header + unat n < 2 ^ 64" and h0: "header \<noteq> 0"
    using r by (auto simp: MemoryIsReadable_iff QueryRegion_Some)
  have n32: "\<not> n < 32"
    using cmds command_table_room(2) by (fastforce simp: commands_def word_less_nat_alt)
  have "unat ?sy = unat header + unat (symtab_symoff ?m y)" "unat ?st = unat header + unat (symtab_stroff ?m y)"
    using nw ok by (auto simp: file_tables_ok_def unat_add_no_wrap)
  then have nz: "?sy \<noteq> 0" "?st \<noteq> 0" using h0 by (metis add_is_0 unat_0 unat_eq_zero)+
  have off: "SIZE_MAX < x = False" for x :: u64 by (simp add: not_less)
  have inside: "RorkHookRangeIsValid (of_nat (file_offset_of ?m v c)) 1 n \<longleftrightarrow> file_offset_of ?m v c < unat n"
    if "find (holds_address ?m v) cmds = Some c" for v c
    using that by (auto simp: RangeIsValid_iff unat_file_offset find_Some_iff)
  show ?thesis
    using r h0 n32 ok nz inside
    by (auto simp: RorkHookFindSymbolInFileImageWithSize_def y [symmetric] SymbolTableSize_value file_tables_ok_def
        RangeIsValid_iff [of _ _ n] unat_table_size table_bytes_null Let_def FindSymbolEntry_value find_named_def
        FileImage_offset [OF nw cmds] off file_pointer_def split: option.split)
qed

lemma file_symbol_tables:
  assumes "commands m header mapped = Some cmds" "y = last (0 # filter (is_symtab m) cmds)"
  shows "file_symbol m header mapped name =
    (if file_tables_ok m mapped y then
       Option.bind (find_named m (header + ucast (symtab_symoff m y)) (unat (symtab_nsyms m y))
          (header + ucast (symtab_stroff m y)) (unat (symtab_strsize m y)) name)
         (\<lambda>v. Option.bind (find (holds_address m v) cmds)
           (\<lambda>c. if file_offset_of m v c < mapped then Some (file_offset_of m v c) else None))
     else None)"
  unfolding file_symbol_def assms(1) option.case Let_def assms(2) [symmetric] ucast_offset
  by (auto simp: file_tables_ok_def Option.bind_eq_None_conv split: option.split Option.bind_splits)

lemma FileImage_value:
  assumes r: "RorkHookMemoryIsReadable pf (world s) header n"
  shows "RorkHookFindSymbolInFileImageWithSize pf s header n (Some name) =
    (case file_symbol (mem s) header (unat n) name of
       None \<Rightarrow> 0 | Some off \<Rightarrow> RorkHookSignPointerIfExecutable pf (world s) (header + of_nat off))"
proof -
  have nw: "unat header + unat n < 2 ^ 64"
    using r by (auto simp: MemoryIsReadable_iff QueryRegion_Some)
  show ?thesis
  proof (cases "commands (mem s) header (unat n)")
    case None
    then show ?thesis
      by (simp add: RorkHookFindSymbolInFileImageWithSize_def FindSymtab_value [OF nw] file_symbol_def)
  next
    case (Some cmds)
    define y where "y = last (0 # filter (is_symtab (mem s)) cmds)"
    have tab: "y = fst (RorkHookFindSymtab s header n None)"
      by (simp add: FindSymtab_value [OF nw] Some y_def)
    show ?thesis
    proof (cases "file_tables_ok (mem s) (unat n) y")
      case True
      then show ?thesis
        unfolding FileImage_good_tables [OF r Some tab True] file_symbol_tables [OF Some y_def]
        by (simp add: file_pointer_def split: option.split)
    next
      case False
      then show ?thesis
        using FileImage_bad_tables [of s n header pf name] tab by (simp add: file_symbol_tables [OF Some y_def])
    qed
  qed
qed

section \<open>Lookups read only the bytes they have checked\<close>

lemma agree_symtab [agree_intros]:
  assumes "agree m m' c n" "24 \<le> n"
  shows "symtab_symoff m c = symtab_symoff m' c" "symtab_nsyms m c = symtab_nsyms m' c"
    "symtab_stroff m c = symtab_stroff m' c" "symtab_strsize m c = symtab_strsize m' c"
  using assms by (auto simp: layout_simps intro: agree_intros)

lemma same_read_nlist:
  assumes "same_bytes m a m' a' 16"
  shows "read_nlist m a = read_nlist m' a'"
proof -
  have "m (a + 4) = m' (a' + 4)" "m (a + 5) = m' (a' + 5)"
    using same_byte [OF assms, of 4] same_byte [OF assms, of 5] by simp_all
  moreover have "load_bytes m (a + 6) 2 = load_bytes m' (a' + 6) 2"
    using same_sub_nat [OF assms, of 6 2] by (simp add: same_load_bytes)
  ultimately show ?thesis
    using same_load32 [OF assms] same_field64 [OF assms] by (simp add: read_nlist_def)
qed

lemma same_symbol_matches:
  assumes "same_bytes m symbols m' symbols' (16 * nsyms)" "same_bytes m strings m' strings' strsize" "i < nsyms"
  shows "symbol_matches m symbols strings strsize name i = symbol_matches m' symbols' strings' strsize name i"
    and "nlist_at m symbols i = nlist_at m' symbols' i"
proof -
  have "same_bytes m (symbols + of_nat (16 * i)) m' (symbols' + of_nat (16 * i)) 16"
    using assms by (intro same_sub_nat) auto
  then show e: "nlist_at m symbols i = nlist_at m' symbols' i"
    unfolding nlist_at_def by (rule same_read_nlist)
  have read: "load_bytes m (strings + of_nat x) (Suc l) = load_bytes m' (strings' + of_nat x) (Suc l)"
    if "x + l < strsize" for x l
    by (rule same_load_bytes [OF same_sub_nat [OF assms(2), of x "Suc l"]]) (use that in auto)
  show "symbol_matches m symbols strings strsize name i = symbol_matches m' symbols' strings' strsize name i"
    unfolding symbol_matches_def Let_def e by (intro conj_cong refl) (simp only: read)
qed

lemma find_SomeD: "find P xs = Some x \<Longrightarrow> x \<in> set xs \<and> P x"
  by (auto simp: find_Some_iff)

lemma agree_find_named:
  assumes "agree m m' symbols (16 * nsyms)" "agree m m' strings strsize"
  shows "find_named m symbols nsyms strings strsize name = find_named m' symbols nsyms strings strsize name"
proof -
  note a = same_symbol_matches [OF assms [unfolded agree_same]]
  have "find (symbol_matches m symbols strings strsize name) [0..<nsyms] =
      find (symbol_matches m' symbols strings strsize name) [0..<nsyms]"
    by (rule find_cong) (use a(1) in auto)
  then show ?thesis
    using a(2) by (cases "find (symbol_matches m' symbols strings strsize name) [0..<nsyms]")
      (auto simp: find_named_def dest: find_SomeD)
qed

lemma agree_commands:
  assumes "agree m m' header mapped"
  shows "commands m header mapped = commands m' header mapped"
    and "commands m header mapped = Some cmds \<Longrightarrow> c \<in> set cmds \<Longrightarrow>
      agree m m' c (unat (command_cmdsize m c)) \<and> 8 \<le> unat (command_cmdsize m c)"
proof -
  show "commands m header mapped = commands m' header mapped"
    by (simp add: commands_def agree_command_table [OF assms])
  assume "commands m header mapped = Some cmds" "c \<in> set cmds"
  then obtain offs off where o: "command_table m header mapped = Some offs" "off \<in> set offs"
    and c: "c = header + 32 + of_nat off" by (auto simp: commands_def)
  note b = command_offsets_bounds [OF command_table_room(5) [OF o(1)] o(2)]
  have "agree m m' (header + of_nat (32 + off)) (unat (command_cmdsize m c))"
    using b command_table_room(2) [OF o(1)] by (intro agree_sub_nat [OF assms]) (auto simp: c)
  with b show "agree m m' c (unat (command_cmdsize m c)) \<and> 8 \<le> unat (command_cmdsize m c)"
    by (simp add: c add.assoc)
qed

lemma last_filter_cases: "last (d # filter P xs) = d \<or> (last (d # filter P xs) \<in> set xs \<and> P (last (d # filter P xs)))"
  using last_in_set [of "filter P xs"] by auto

lemma agree_file_symbol:
  assumes "agree m m' header mapped"
  shows "file_symbol m header mapped name = file_symbol m' header mapped name"
proof (cases "commands m header mapped")
  case None
  then show ?thesis using agree_commands(1) [OF assms] by (simp add: file_symbol_def)
next
  case (Some cmds)
  note local = agree_commands(2) [OF assms Some]
  have some': "commands m' header mapped = Some cmds" using agree_commands(1) [OF assms] Some by simp
  define y where "y = last (0 # filter (is_symtab m) cmds)"
  have y': "last (0 # filter (is_symtab m') cmds) = y"
    unfolding y_def using agree_kinds(1) local by (metis (no_types, lifting) filter_cong)
  have find: "find (holds_address m v) cmds = find (holds_address m' v) cmds" for v
    using agree_kinds(3) local by (intro find_cong) auto
  have off: "file_offset_of m v c = file_offset_of m' v c" if "find (holds_address m' v) cmds = Some c" for v c
    using that [folded find] local find_SomeD by (metis agree_kinds(4))
  show ?thesis
  proof (cases "y = 0")
    case True
    then show ?thesis
      unfolding file_symbol_def Some some' option.case Let_def y' y_def [symmetric] by simp
  next
    case False
    then have "y \<in> set cmds" "is_symtab m y" using last_filter_cases [of 0 "is_symtab m" cmds] by (auto simp: y_def)
    then have t: "symtab_symoff m y = symtab_symoff m' y" "symtab_nsyms m y = symtab_nsyms m' y"
      "symtab_stroff m y = symtab_stroff m' y" "symtab_strsize m y = symtab_strsize m' y"
      using local [of y] by (auto simp: is_symtab_def word_le_nat_alt intro: agree_symtab)
    have named: "find_named m (header + of_nat o1) k (header + of_nat o2) z name =
        find_named m' (header + of_nat o1) k (header + of_nat o2) z name"
      if "\<not> mapped < o1 + 16 * k" "\<not> mapped < o2 + z" for o1 o2 k z
      using that by (intro agree_find_named agree_sub_nat [OF assms]) auto
    show ?thesis
      unfolding file_symbol_def Some some' option.case Let_def y' y_def [symmetric] t find
      by (intro if_cong refl) (subst named; auto simp: off split: option.split)
  qed
qed

section \<open>Lookup in live images\<close>

text \<open>The tables of a live image: where dyld mapped the file contents of \<open>__LINKEDIT\<close>, both tables
  inside its file-backed part and readable, and the slide.\<close>

definition live_tables ::
  "'w platform \<Rightarrow> 'w \<Rightarrow> memory \<Rightarrow> u64 \<Rightarrow> (u64 \<times> u32 \<times> u64 \<times> u32 \<times> i64) option" where
  "live_tables pf w m header =
     (let mapped = unat (RorkHookReadableMemoryLength pf w header) in
      Option.bind (commands m header mapped) (\<lambda>cmds.
        let y = last (0 # filter (is_symtab m) cmds); l = last (0 # filter (is_linkedit m) cmds);
            count = symtab_nsyms m y; strsize = symtab_strsize m y
        in if y = 0 \<or> l = 0 then None else
      Option.bind (image_slide m header mapped) (\<lambda>d.
      Option.bind (offset_sum (segment_vmaddr m l) (word_of_int d)) (\<lambda>base.
      Option.bind (segment_range m (ucast (symtab_symoff m y)) (ucast count * 16) l) (\<lambda>sr.
      Option.bind (segment_range m (ucast (symtab_stroff m y)) (ucast strsize) l) (\<lambda>tr.
        if unat base + unat sr < 2 ^ 64 \<and> unat base + unat tr < 2 ^ 64 \<and> count \<noteq> 0 \<and> strsize \<noteq> 0 \<and>
           RorkHookMemoryIsReadable pf w (base + sr) (ucast count * 16) \<and>
           RorkHookMemoryIsReadable pf w (base + tr) (ucast strsize)
        then Some (base + sr, count, base + tr, strsize, word_of_int d) else None))))))"

definition live_symbol :: "'w platform \<Rightarrow> 'w \<Rightarrow> memory \<Rightarrow> u64 \<Rightarrow> cstring \<Rightarrow> u64 option" where
  "live_symbol pf w m header name =
     Option.bind (live_tables pf w m header) (\<lambda>(symbols, count, strings, strsize, slide).
       Option.bind (find_named m symbols (unat count) strings (unat strsize) name) (\<lambda>v.
         offset_sum v slide))"

lemma max_minus_less: "(UINTPTR_MAX - a < b) = (2 ^ 64 \<le> unat b + unat (a :: u64))"
proof -
  have "unat (UINTPTR_MAX - a) = 2 ^ 64 - 1 - unat a"
    by (subst unat_sub) (simp_all add: unsigned_minus_1_eq_mask mask_eq_exp_minus_1)
  then show ?thesis
    using unsigned_less [of a, where ?'a = nat] unfolding word_less_nat_alt by simp linarith
qed

lemma size0_iff: "ucast (c :: u32) * 16 = (0 :: u64) \<longleftrightarrow> c = 0"
  using unat_table_size [of c] by (metis mult_is_0 unat_eq_zero zero_neq_numeral)

lemma MemoryIsReadable_nonnull: "RorkHookMemoryIsReadable pf w a n \<Longrightarrow> a \<noteq> 0"
  by (auto simp: MemoryIsReadable_iff QueryRegion_Some)

lemma MemoryIsReadable_null: "\<not> RorkHookMemoryIsReadable pf w 0 n"
  by (auto simp: MemoryIsReadable_iff QueryRegion_Some)

lemma FindSymbol_value:
  "RorkHookFindSymbol pf s header (Some name) =
     (case live_symbol pf (world s) (mem s) header name of
        None \<Rightarrow> 0 | Some a \<Rightarrow> RorkHookSignPointerIfExecutable pf (world s) a)"
proof (cases "commands (mem s) header (unat (RorkHookReadableMemoryLength pf (world s) header))")
  case None
  then have "RorkHookFindSymtab s header (RorkHookReadableMemoryLength pf (world s) header) (Some 0) = (0, Some 0)"
    by (simp add: RorkHookFindSymtab_def symtab_visitor.for_each_offsets commands_def)
  with None show ?thesis
    by (simp add: RorkHookFindSymbol_def live_symbol_def live_tables_def)
next
  case (Some cmds)
  let ?m = "mem s" and ?n = "RorkHookReadableMemoryLength pf (world s) header"
  obtain offs where offs: "command_table ?m header (unat ?n) = Some offs"
    using Some by (auto simp: commands_def)
  define y where "y = last (0 # filter (is_symtab ?m) cmds)"
  define l where "l = last (0 # filter (is_linkedit ?m) cmds)"
  have h0: "header \<noteq> 0" by (rule command_table_room(1) [OF offs])
  have tab: "RorkHookFindSymtab s header ?n (Some 0) = (y, Some l)"
    by (simp add: FindSymtab_value [OF table_nonempty_region [OF offs]] Some y_def l_def)
  note apply_val = apply_slide.run_cases [of "(a, b)" "Some c" for a b c, simplified]
  note range_val = file_range.run_cases [of "(a, b, c, d)" "Some e" for a b c d e, simplified]
  have lt: "live_tables pf (world s) ?m header =
      (let count = symtab_nsyms ?m y; strsize = symtab_strsize ?m y in
       if y = 0 \<or> l = 0 then None else
       Option.bind (image_slide ?m header (unat ?n)) (\<lambda>d.
       Option.bind (offset_sum (segment_vmaddr ?m l) (word_of_int d)) (\<lambda>base.
       Option.bind (segment_range ?m (ucast (symtab_symoff ?m y)) (ucast count * 16) l) (\<lambda>sr.
       Option.bind (segment_range ?m (ucast (symtab_stroff ?m y)) (ucast strsize) l) (\<lambda>tr.
         if unat base + unat sr < 2 ^ 64 \<and> unat base + unat tr < 2 ^ 64 \<and> count \<noteq> 0 \<and> strsize \<noteq> 0 \<and>
            RorkHookMemoryIsReadable pf (world s) (base + sr) (ucast count * 16) \<and>
            RorkHookMemoryIsReadable pf (world s) (base + tr) (ucast strsize)
         then Some (base + sr, count, base + tr, strsize, word_of_int d) else None)))))"
    unfolding live_tables_def Let_def Some Option.bind.simps y_def l_def by (rule refl)
  show ?thesis
  proof (cases "y = 0 \<or> l = 0")
    case True
    then show ?thesis by (auto simp: live_symbol_def lt RorkHookFindSymbol_def tab)
  next
    case False
    show ?thesis
      unfolding live_symbol_def lt Let_def RorkHookFindSymbol_def tab SymbolTableSize_value ImageSlide_value
      using False h0
      by (auto simp: apply_val range_val max_minus_less max_offset_guards size0_iff FindSymbolEntry_value
          find_named_def MemoryIsReadable_nonnull MemoryIsReadable_null not_le split: option.split)
  qed
qed

text \<open>Two memories that agree wherever the kernel reports a readable region.\<close>

definition agree_readable :: "'w platform \<Rightarrow> 'w \<Rightarrow> memory \<Rightarrow> memory \<Rightarrow> bool" where
  "agree_readable pf w m m' \<longleftrightarrow> (\<forall>a n. RorkHookMemoryIsReadable pf w a n \<longrightarrow> agree m m' a (unat n))"

lemma agree_readable_region:
  assumes "agree_readable pf w m m'"
  shows "agree m m' a (unat (RorkHookReadableMemoryLength pf w a))"
proof (cases "RorkHookReadableMemoryLength pf w a = 0")
  case False
  then have "RorkHookMemoryIsReadable pf w a (RorkHookReadableMemoryLength pf w a)"
    by (simp add: RorkHookMemoryIsReadable_def)
  with assms show ?thesis by (simp add: agree_readable_def)
qed (simp add: agree_def)

lemma agree_image_slide:
  assumes "agree m m' header mapped"
  shows "image_slide m header mapped = image_slide m' header mapped"
proof (cases "command_table m header mapped")
  case None
  then show ?thesis using agree_command_table [OF assms] by (simp add: image_slide_def)
next
  case (Some offs)
  define cmds where "cmds = map (\<lambda>off. header + 32 + of_nat off) offs"
  have c: "commands m header mapped = Some cmds" by (simp add: commands_def Some cmds_def)
  have same: "maps_header m c = maps_header m' c"
    "maps_header m c \<Longrightarrow> segment_vmaddr m c = segment_vmaddr m' c" if "c \<in> set cmds" for c
    using agree_maps_header agree_commands(2) [OF assms c that] by blast+
  have "find (maps_header m) cmds = find (maps_header m') cmds" using same(1) by (intro find_cong) auto
  then show ?thesis
    using Some same agree_command_table [OF assms]
    by (auto simp: image_slide_def cmds_def [symmetric] split: option.split dest!: find_SomeD)
qed

lemma agree_live_tables:
  assumes "agree_readable pf w m m'"
  shows "live_tables pf w m header = live_tables pf w m' header"
proof -
  define n where "n = unat (RorkHookReadableMemoryLength pf w header)"
  have ag: "agree m m' header n" unfolding n_def by (rule agree_readable_region [OF assms])
  show ?thesis
  proof (cases "commands m header n")
    case None
    then show ?thesis
      using agree_commands(1) [OF ag] by (simp add: live_tables_def n_def [symmetric])
  next
    case (Some cmds)
    note local = agree_commands(2) [OF ag Some]
    have some': "commands m' header n = Some cmds" using agree_commands(1) [OF ag] Some by simp
    define y where "y = last (0 # filter (is_symtab m) cmds)"
    define l where "l = last (0 # filter (is_linkedit m) cmds)"
    have yl: "last (0 # filter (is_symtab m') cmds) = y" "last (0 # filter (is_linkedit m') cmds) = l"
      unfolding y_def l_def using agree_kinds(1,2) local by (metis (no_types, lifting) filter_cong)+
    have y: "symtab_symoff m y = symtab_symoff m' y" "symtab_nsyms m y = symtab_nsyms m' y"
      "symtab_stroff m y = symtab_stroff m' y" "symtab_strsize m y = symtab_strsize m' y" if "y \<noteq> 0"
      using that last_filter_cases [of 0 "is_symtab m" cmds, folded y_def] local [of y]
      by (auto simp: is_symtab_def word_le_nat_alt intro: agree_symtab)
    have l: "segment_vmaddr m l = segment_vmaddr m' l" "segment_fileoff m l = segment_fileoff m' l"
      "segment_filesize m l = segment_filesize m' l" if "l \<noteq> 0"
      using that last_filter_cases [of 0 "is_linkedit m" cmds, folded l_def] local [of l]
      by (auto simp: is_linkedit_def word_le_nat_alt intro: agree_segment)
    have range: "segment_range m off len l = segment_range m' off len l" if "l \<noteq> 0" for off len
      using l [OF that] by (simp add: segment_range_def)
    show ?thesis
      unfolding live_tables_def Let_def n_def [symmetric] Some some' Option.bind.simps yl
        y_def [symmetric] l_def [symmetric] agree_image_slide [OF ag]
      by (intro if_cong refl) (simp add: y l(1) range cong: if_cong)
  qed
qed

lemma agree_live_symbol:
  assumes "agree_readable pf w m m'"
  shows "live_symbol pf w m header name = live_symbol pf w m' header name"
proof (cases "live_tables pf w m header")
  case None
  then show ?thesis using agree_live_tables [OF assms] by (simp add: live_symbol_def)
next
  case (Some r)
  obtain symbols count strings strsize slide where r: "r = (symbols, count, strings, strsize, slide)"
    by (cases r) auto
  have "RorkHookMemoryIsReadable pf w symbols (ucast count * 16)" "RorkHookMemoryIsReadable pf w strings (ucast strsize)"
    using Some [unfolded live_tables_def Let_def r]
    by (auto split: if_splits simp: bind_eq_Some_conv)
  then have "agree m m' symbols (16 * unat count)" "agree m m' strings (unat strsize)"
    using assms unat_table_size [of count] unfolding agree_readable_def by fastforce+
  then have "find_named m symbols (unat count) strings (unat strsize) name =
      find_named m' symbols (unat count) strings (unat strsize) name"
    by (rule agree_find_named)
  then show ?thesis
    using Some agree_live_tables [OF assms, of header] by (simp add: live_symbol_def r)
qed

section \<open>Properties\<close>

text \<open>
  The scan of a symbol table returns the first entry, in table order, that is a section
  symbol with a nonzero string offset and whose string, terminated inside the string table, is
  the requested name byte for byte; without such an entry, or with a null argument, it fails and
  stores nothing.
\<close>

lemma FindSymbolEntry_first_match:
  "RorkHookFindSymbolEntry m symbols strings strsize count name out =
     (case (name, out) of
        (Some nm, Some old) \<Rightarrow>
          if symbols = 0 \<or> strings = 0 then (False, out)
          else (case find (symbol_matches m symbols strings (unat strsize) nm) [0..<unat count] of
                  None \<Rightarrow> (False, out) | Some i \<Rightarrow> (True, Some (nlist_at m symbols i)))
      | _ \<Rightarrow> (False, out))"
  by (cases name; cases out)
     (simp_all add: FindSymbolEntry_value cong: option.case_cong, simp_all add: RorkHookFindSymbolEntry_def)

text \<open>
  C27: Lookup in a file image: for a mapping that is readable as a whole the result is the file
  offset given by the specification (command table, last symbol-table command, both tables inside
  the mapping, first matching symbol, first segment whose file-backed part holds its address),
  added to the mapping's base and signed when executable; otherwise, and whenever the image is
  malformed, the result is null.
\<close>

theorem FindSymbolInFileImageWithSize_exact:
  "RorkHookFindSymbolInFileImageWithSize pf s header n (Some name) =
     (if RorkHookMemoryIsReadable pf (world s) header n
      then case file_symbol (mem s) header (unat n) name of
             None \<Rightarrow> 0
           | Some off \<Rightarrow> RorkHookSignPointerIfExecutable pf (world s) (header + of_nat off)
      else 0)"
  by (cases "RorkHookMemoryIsReadable pf (world s) header n")
     (simp_all add: FileImage_value, simp add: RorkHookFindSymbolInFileImageWithSize_def)

text \<open>
  A pointer returned for a file image lies inside the mapping: it is the (possibly signed) base
  plus an offset smaller than the mapped size, computed without wrap-around.
\<close>

lemma FindSymbolInFileImage_inside_mapping:
  "RorkHookFindSymbolInFileImageWithSize pf s header n name = 0 \<or>
   (\<exists>off. off < unat n \<and> unat (header + of_nat off) = unat header + off \<and>
      RorkHookFindSymbolInFileImageWithSize pf s header n name =
        RorkHookSignPointerIfExecutable pf (world s) (header + of_nat off))"
proof (cases "\<exists>nm off. name = Some nm \<and> RorkHookMemoryIsReadable pf (world s) header n \<and>
    file_symbol (mem s) header (unat n) nm = Some off")
  case True
  then obtain nm off where t: "name = Some nm" "RorkHookMemoryIsReadable pf (world s) header n"
    "file_symbol (mem s) header (unat n) nm = Some off" by blast
  have nw: "unat header + unat n < 2 ^ 64" using t(2) by (auto simp: MemoryIsReadable_iff QueryRegion_Some)
  have off: "off < unat n"
    using t(3) by (auto simp: file_symbol_def Let_def split: option.splits if_splits)
  then have "unat (of_nat off :: u64) = off" using nw by (simp add: unat_of_nat)
  then have "unat (header + of_nat off) = unat header + off"
    using nw off by (subst unat_add_no_wrap) auto
  with t off show ?thesis by (auto simp: FileImage_value)
next
  case False
  then have "RorkHookFindSymbolInFileImageWithSize pf s header n name = 0"
  proof (cases name)
    case (Some nm)
    show ?thesis
    proof (cases "RorkHookMemoryIsReadable pf (world s) header n")
      case True
      with False Some show ?thesis by (simp add: FileImage_value)
    next
      case False
      then show ?thesis by (simp add: RorkHookFindSymbolInFileImageWithSize_def)
    qed
  qed (simp add: RorkHookFindSymbolInFileImageWithSize_def)
  then show ?thesis ..
qed

lemma FileImage_agree:
  assumes "world s = world s'" "agree (mem s) (mem s') header (unat n)"
  shows "RorkHookFindSymbolInFileImageWithSize pf s header n name =
    RorkHookFindSymbolInFileImageWithSize pf s' header n name"
proof (cases name)
  case None
  then show ?thesis by (simp add: RorkHookFindSymbolInFileImageWithSize_def)
next
  case (Some nm)
  show ?thesis
  proof (cases "RorkHookMemoryIsReadable pf (world s) header n")
    case True
    with Some assms(1) agree_file_symbol [OF assms(2)] show ?thesis
      by (simp add: FileImage_value split: option.split)
  next
    case False
    with assms show ?thesis by (simp add: RorkHookFindSymbolInFileImageWithSize_def)
  qed
qed

text \<open>
  C28: Lookup in a file image stays inside the mapping: two machines with the same platform state
  whose memories agree on the mapped range give the same result, whatever the image contains, so no
  byte outside it is used; and a pointer that is returned is the (possibly signed) base plus an
  offset smaller than the mapped size, computed without wrap-around.
\<close>

theorem FindSymbolInFileImage_reads_bounded:
  assumes "world s = world s'" "agree (mem s) (mem s') header (unat n)"
  shows "RorkHookFindSymbolInFileImageWithSize pf s header n name =
      RorkHookFindSymbolInFileImageWithSize pf s' header n name \<and>
    (RorkHookFindSymbolInFileImageWithSize pf s header n name = 0 \<or>
     (\<exists>off. off < unat n \<and> unat (header + of_nat off) = unat header + off \<and>
        RorkHookFindSymbolInFileImageWithSize pf s header n name =
          RorkHookSignPointerIfExecutable pf (world s) (header + of_nat off)))"
  by (intro conjI FileImage_agree [OF assms] FindSymbolInFileImage_inside_mapping)

text \<open>
  C6: Lookup in a live image: the result is the value of the first matching symbol plus the image
  slide, without wrap-around, signed when executable. The tables are found through the slid
  \<open>__LINKEDIT\<close> segment, must lie in its file-backed part and be readable as a whole.
\<close>

theorem FindSymbol_exact:
  "RorkHookFindSymbol pf s header name =
     (case name of None \<Rightarrow> 0 | Some nm \<Rightarrow>
        (case live_symbol pf (world s) (mem s) header nm of
           None \<Rightarrow> 0 | Some a \<Rightarrow> RorkHookSignPointerIfExecutable pf (world s) a))"
  by (cases name) (simp_all add: FindSymbol_value, simp add: RorkHookFindSymbol_def)

text \<open>
  C29: Lookup in a live image depends only on bytes that the kernel reports as readable: changing
  the memory anywhere else, in particular behind the end of a mapping that malformed metadata
  points past, cannot change the result.
\<close>

theorem FindSymbol_reads_readable:
  assumes "world s = world s'" "agree_readable pf (world s) (mem s) (mem s')"
  shows "RorkHookFindSymbol pf s header name = RorkHookFindSymbol pf s' header name"
proof (cases name)
  case (Some nm)
  with assms(1) agree_live_symbol [OF assms(2)] show ?thesis
    by (simp add: FindSymbol_value split: option.split)
qed (simp add: RorkHookFindSymbol_def)

text \<open>
  Applying a slide is the same function as adding a checked instruction displacement: it
  yields the integer sum of the address and the signed slide when that is an address, and fails
  otherwise.
\<close>

lemma ApplySlide_exact:
  "RorkHookApplySlide a slide (Some old) = RorkHookAddSignedOffset a slide (Some old) \<and>
   (case RorkHookApplySlide a slide (Some old) of (ok, r) \<Rightarrow>
      if 0 \<le> uint a + sint slide \<and> uint a + sint slide < 2 ^ 64
      then ok \<and> map_option uint r = Some (uint a + sint slide)
      else \<not> ok \<and> r = Some old)"
proof (cases "offset_sum a slide")
  case None
  then show ?thesis by (auto simp: ApplySlide_eq AddSignedOffset_value offset_sum_def split: if_splits)
next
  case (Some v)
  then show ?thesis
    using offset_sum_Some [of a slide v] uint_bounds_u64 [of v] by (simp add: ApplySlide_eq AddSignedOffset_value)
qed

section \<open>A sample image\<close>

text \<open>A Mach-O image with the segments \<open>__TEXT\<close> and \<open>__LINKEDIT\<close>, a symbol table of one entry (\<open>_f\<close>, at
  offset \<open>0x40\<close> of the text) and its strings, of less than \<open>0x100\<close> bytes at the end of a page.\<close>

definition segment_bytes :: "string \<Rightarrow> u64 \<Rightarrow> u64 \<Rightarrow> u64 \<Rightarrow> u64 \<Rightarrow> u8 list" where
  "segment_bytes name vmaddr vmsize fileoff filesize =
     le_bytes 4 RORK_HOOK_LC_SEGMENT @ le_bytes 4 (72 :: u32) @ map of_char name @ replicate (16 - length name) 0 @
     le_bytes 8 vmaddr @ le_bytes 8 vmsize @ le_bytes 8 fileoff @ le_bytes 8 filesize @ replicate 16 0"

definition macho_bytes :: "u8 list" where
  "macho_bytes =
     le_bytes 4 RORK_HOOK_MH_MAGIC @ replicate 12 0 @ le_bytes 4 (3 :: u32) @ le_bytes 4 (168 :: u32) @ replicate 8 0 @
     segment_bytes ''__TEXT'' 0x100000000 0x100 0 0x100 @
     segment_bytes ''__LINKEDIT'' 0x1000000C8 0x40 0xC8 0x40 @
     le_bytes 4 LC_SYMTAB @ le_bytes 4 (24 :: u32) @ le_bytes 4 (0xC8 :: u32) @ le_bytes 4 (1 :: u32) @
     le_bytes 4 (0xD8 :: u32) @ le_bytes 4 (4 :: u32) @
     le_bytes 4 (1 :: u32) @ [N_SECT, 1, 0, 0] @ le_bytes 8 (0x100000040 :: u64) @ [0, 95, 102, 0]"

lemma macho_bytes_literal [code]:
  "macho_bytes =
     [207, 250, 237, 254, 0, 0, 0, 0, 0, 0, 0, 0, 0, 0, 0, 0, 3, 0, 0, 0, 168, 0, 0, 0, 0, 0, 0, 0,
      0, 0, 0, 0, 25, 0, 0, 0, 72, 0, 0, 0, 95, 95, 84, 69, 88, 84, 0, 0, 0, 0, 0, 0, 0, 0, 0, 0, 0,
      0, 0, 0, 1, 0, 0, 0, 0, 1, 0, 0, 0, 0, 0, 0, 0, 0, 0, 0, 0, 0, 0, 0, 0, 1, 0, 0, 0, 0, 0, 0, 0,
      0, 0, 0, 0, 0, 0, 0, 0, 0, 0, 0, 0, 0, 0, 0, 25, 0, 0, 0, 72, 0, 0, 0, 95, 95, 76, 73, 78, 75,
      69, 68, 73, 84, 0, 0, 0, 0, 0, 0, 200, 0, 0, 0, 1, 0, 0, 0, 64, 0, 0, 0, 0, 0, 0, 0, 200, 0, 0,
      0, 0, 0, 0, 0, 64, 0, 0, 0, 0, 0, 0, 0, 0, 0, 0, 0, 0, 0, 0, 0, 0, 0, 0, 0, 0, 0, 0, 0, 2, 0,
      0, 0, 24, 0, 0, 0, 200, 0, 0, 0, 1, 0, 0, 0, 216, 0, 0, 0, 4, 0, 0, 0, 1, 0, 0, 0, 14, 1, 0, 0,
      64, 0, 0, 0, 1, 0, 0, 0, 0, 95, 102, 0]"
  by code_simp

definition macho_memory :: memory where
  "macho_memory = store_bytes (\<lambda>_. 0) 0x13F00 macho_bytes"

lemma macho_tables:
  "commands macho_memory 0x13F00 0x100 = Some [0x13F20, 0x13F68, 0x13FB0]"
  "\<not> is_symtab macho_memory 0x13F20" "\<not> is_symtab macho_memory 0x13F68" "is_symtab macho_memory 0x13FB0"
  "\<not> is_linkedit macho_memory 0x13F20" "is_linkedit macho_memory 0x13F68" "\<not> is_linkedit macho_memory 0x13FB0"
  "symtab_nsyms macho_memory 0x13FB0 = 1" "symtab_strsize macho_memory 0x13FB0 = 4"
  "image_slide macho_memory 0x13F00 0x100 = Some (- 0xFFFEC100)"
  "offset_sum (segment_vmaddr macho_memory 0x13F68) (- 0xFFFEC100) = Some 0x13FC8"
  "segment_range macho_memory (ucast (symtab_symoff macho_memory 0x13FB0)) 16 0x13F68 = Some 0"
  "segment_range macho_memory (ucast (symtab_stroff macho_memory 0x13FB0)) 4 0x13F68 = Some 16"
  "find_named macho_memory 0x13FC8 (Suc 0) 0x13FD8 4 [95, 102] = Some 0x100000040"
  "offset_sum 0x100000040 (- 0xFFFEC100) = Some 0x13F40"
  by code_simp+

lemma macho_readable:
  "RorkHookReadableMemoryLength signed_platform w 0x13F00 = 0x100"
  "RorkHookMemoryIsReadable signed_platform w 0x13FC8 16"
  "RorkHookMemoryIsReadable signed_platform w 0x13FD8 4"
  by (simp_all add: RorkHookMemoryIsReadable_def RorkHookReadableMemoryLength_def RorkHookQueryRegion_def
      signed_platform_def)

lemma macho_live_symbol: "live_symbol signed_platform w macho_memory 0x13F00 [95, 102] = Some 0x13F40"
  by (simp add: live_symbol_def live_tables_def Let_def macho_readable macho_tables)

lemma macho_fields:
  "symtab_symoff macho_memory 0x13FB0 = 0xC8" "symtab_stroff macho_memory 0x13FB0 = 0xD8"
  "command_cmd macho_memory 0x13F20 = RORK_HOOK_LC_SEGMENT" "command_cmdsize macho_memory 0x13F20 = 72"
  "segment_vmaddr macho_memory 0x13F20 = 0x100000000" "segment_vmsize macho_memory 0x13F20 = 0x100"
  "segment_fileoff macho_memory 0x13F20 = 0" "segment_filesize macho_memory 0x13F20 = 0x100"
  by code_simp+

lemma macho_file_symbol: "file_symbol macho_memory 0x13F00 0x100 [95, 102] = Some 0x40"
  by (simp add: file_symbol_def Let_def macho_tables macho_fields holds_address_def file_offset_of_def)

text \<open>Two states with this image that differ in one byte of an unreadable page.\<close>

definition split_state :: "u8 \<Rightarrow> vm_state machine" where
  "split_state b =
     \<lparr>mem = macho_memory(0x24000 := b),
      world = \<lparr>page_prot = (\<lambda>q. if q = 4 then VM_PROT_READ else 0), pinned = [], tpro_register = 0\<rparr>,
      events = []\<rparr>"

lemma split_state_agree_below:
  assumes "unat a + n \<le> 0x24000"
  shows "agree macho_memory (mem (split_state b)) a n"
proof -
  have "n \<le> unat (0x24000 - a)" using assms by (subst unat_sub) (auto simp: word_le_nat_alt)
  then show ?thesis unfolding split_state_def machine.simps by (rule agree_update)
qed

lemma split_state_agree:
  assumes "unat a + n \<le> 0x24000"
  shows "agree (mem (split_state b)) (mem (split_state c)) a n"
  using split_state_agree_below [OF assms] by (simp add: agree_def)

lemma split_state_found:
  "RorkHookFindSymbolInFileImageWithSize (ref_platform False) (split_state b) 0x13F00 0x100 (Some [95, 102]) = 0x13F40"
proof -
  have "RorkHookMemoryIsReadable (ref_platform False) (world (split_state b)) 0x13F00 0x100"
    by (simp add: RorkHookMemoryIsReadable_def RorkHookReadableMemoryLength_def RorkHookQueryRegion_def
        ref_platform_def ref_region_def split_state_def)
  moreover have "file_symbol (mem (split_state b)) 0x13F00 0x100 [95, 102] = Some 0x40"
    using agree_file_symbol [OF split_state_agree_below [of "0x13F00" "0x100" b]] macho_file_symbol by simp
  ultimately show ?thesis
    using FileImage_value [of "ref_platform False" "split_state b" "0x13F00" "0x100" "[95, 102]"]
    by (simp add: RorkHookSignPointerIfExecutable_def ref_platform_def)
qed

theorem FindSymbolInFileImage_reads_bounded_witness:
  "RorkHookFindSymbolInFileImageWithSize (ref_platform False) (split_state 1) 0x13F00 0x100 (Some [95, 102]) =
     RorkHookFindSymbolInFileImageWithSize (ref_platform False) (split_state 2) 0x13F00 0x100 (Some [95, 102]) \<and>
   RorkHookFindSymbolInFileImageWithSize (ref_platform False) (split_state 2) 0x13F00 0x100 (Some [95, 102]) = 0x13F40"
proof (intro conjI FindSymbolInFileImage_reads_bounded [THEN conjunct1])
  show "world (split_state 1) = world (split_state 2)" by (simp add: split_state_def)
qed (simp_all add: split_state_agree split_state_found)

theorem FindSymbol_reads_readable_witness:
  "RorkHookFindSymbol (ref_platform False) (split_state 1) 0x13F00 (Some [95, 102]) =
     RorkHookFindSymbol (ref_platform False) (split_state 2) 0x13F00 (Some [95, 102])"
proof (rule FindSymbol_reads_readable)
  show "world (split_state 1) = world (split_state 2)" by (simp add: split_state_def)
  show "agree_readable (ref_platform False) (world (split_state 1)) (mem (split_state 1)) (mem (split_state 2))"
    unfolding agree_readable_def
  proof (intro allI impI)
    fix a n :: u64
    assume "RorkHookMemoryIsReadable (ref_platform False) (world (split_state 1)) a n"
    then have "unat a div 0x4000 = 4" "unat a + unat n \<le> unat (a AND NOT 0x3fff) + 0x4000"
      by (auto simp: MemoryIsReadable_iff QueryRegion_Some ref_platform_def ref_region_def split_state_def
          split: if_splits)
    moreover have "unat (a AND NOT (0x4000 - 1)) = unat a - unat a mod 2 ^ 14"
      by (rule page_round_down) simp_all
    ultimately have "unat a + unat n \<le> 0x24000" by (simp add: minus_mod_eq_div_mult)
    then show "agree (mem (split_state 1)) (mem (split_state 2)) a (unat n)" by (rule split_state_agree)
  qed
qed

end
