(* ===== verification/Dyld_Cache.thy ===== *)
theory Dyld_Cache
  imports Prelude
begin

text \<open>
  The on-disk records of the dyld shared cache (\<open>private/RorkHookDyldCache.h\<close>). Each struct is its
  list of members with size and alignment; \<open>offset_of\<close> and \<open>size_of\<close> are the layout rules of the C
  ABI (a member starts at the next multiple of its alignment, the struct is padded to its largest
  alignment). The accessors used by the parser read at literal offsets; the property of this
  theory ties them to the declarations, as the \<open>_Static_assert\<close>s of the header do.
\<close>

section \<open>Struct layout\<close>

type_synonym layout = "(string \<times> nat \<times> nat) list"

definition round_up :: "nat \<Rightarrow> nat \<Rightarrow> nat" where
  "round_up n a = (n + a - 1) div a * a"

fun member_offsets :: "layout \<Rightarrow> nat \<Rightarrow> (string \<times> nat) list" where
  "member_offsets [] off = []"
| "member_offsets ((name, sz, al) # fs) off =
     (name, round_up off al) # member_offsets fs (round_up off al + sz)"

fun layout_end :: "layout \<Rightarrow> nat \<Rightarrow> nat" where
  "layout_end [] off = off"
| "layout_end ((name, sz, al) # fs) off = layout_end fs (round_up off al + sz)"

definition offset_of :: "layout \<Rightarrow> string \<Rightarrow> nat option" where
  "offset_of fs name = map_of (member_offsets fs 0) name"

definition size_of :: "layout \<Rightarrow> nat" where
  "size_of fs = round_up (layout_end fs 0) (foldr (\<lambda>(name, sz, al). max al) fs 1)"

section \<open>The records\<close>

definition RorkHookDyldCacheHeader_layout :: layout where
  "RorkHookDyldCacheHeader_layout =
     [(''magic'', 16, 1), (''mappingOffset'', 4, 4), (''mappingCount'', 4, 4),
      (''imagesOffsetOld'', 4, 4), (''imagesCountOld'', 4, 4), (''dyldBaseAddress'', 8, 8),
      (''codeSignatureOffset'', 8, 8), (''codeSignatureSize'', 8, 8),
      (''slideInfoOffsetUnused'', 8, 8), (''slideInfoSizeUnused'', 8, 8),
      (''localSymbolsOffset'', 8, 8), (''localSymbolsSize'', 8, 8), (''uuid'', 16, 1),
      (''cacheType'', 8, 8), (''branchPoolsOffset'', 4, 4), (''branchPoolsCount'', 4, 4),
      (''dyldInCacheMH'', 8, 8), (''dyldInCacheEntry'', 8, 8), (''imagesTextOffset'', 8, 8),
      (''imagesTextCount'', 8, 8), (''patchInfoAddr'', 8, 8), (''patchInfoSize'', 8, 8),
      (''otherImageGroupAddrUnused'', 8, 8), (''otherImageGroupSizeUnused'', 8, 8),
      (''progClosuresAddr'', 8, 8), (''progClosuresSize'', 8, 8), (''progClosuresTrieAddr'', 8, 8),
      (''progClosuresTrieSize'', 8, 8), (''platform'', 4, 4), (''formatAndFlags'', 4, 4),
      (''sharedRegionStart'', 8, 8), (''sharedRegionSize'', 8, 8), (''maxSlide'', 8, 8),
      (''dylibsImageArrayAddr'', 8, 8), (''dylibsImageArraySize'', 8, 8),
      (''dylibsTrieAddr'', 8, 8), (''dylibsTrieSize'', 8, 8), (''otherImageArrayAddr'', 8, 8),
      (''otherImageArraySize'', 8, 8), (''otherTrieAddr'', 8, 8), (''otherTrieSize'', 8, 8),
      (''mappingWithSlideOffset'', 4, 4), (''mappingWithSlideCount'', 4, 4),
      (''dylibsPBLStateArrayAddrUnused'', 8, 8), (''dylibsPBLSetAddr'', 8, 8),
      (''programsPBLSetPoolAddr'', 8, 8), (''programsPBLSetPoolSize'', 8, 8),
      (''programTrieAddr'', 8, 8), (''programTrieSize'', 4, 4), (''osVersion'', 4, 4),
      (''altPlatform'', 4, 4), (''altOsVersion'', 4, 4), (''swiftOptsOffset'', 8, 8),
      (''swiftOptsSize'', 8, 8), (''subCacheArrayOffset'', 4, 4), (''subCacheArrayCount'', 4, 4),
      (''symbolFileUUID'', 16, 1), (''rosettaReadOnlyAddr'', 8, 8),
      (''rosettaReadOnlySize'', 8, 8), (''rosettaReadWriteAddr'', 8, 8),
      (''rosettaReadWriteSize'', 8, 8), (''imagesOffset'', 4, 4), (''imagesCount'', 4, 4)]"

definition RorkHookDyldCacheImageInfo_layout :: layout where
  "RorkHookDyldCacheImageInfo_layout =
     [(''address'', 8, 8), (''modTime'', 8, 8), (''inode'', 8, 8), (''pathFileOffset'', 4, 4),
      (''pad'', 4, 4)]"

definition RorkHookDyldCacheLocalSymbolsInfo_layout :: layout where
  "RorkHookDyldCacheLocalSymbolsInfo_layout =
     [(''nlistOffset'', 4, 4), (''nlistCount'', 4, 4), (''stringsOffset'', 4, 4),
      (''stringsSize'', 4, 4), (''entriesOffset'', 4, 4), (''entriesCount'', 4, 4)]"

definition RorkHookDyldCacheLocalSymbolsEntry32_layout :: layout where
  "RorkHookDyldCacheLocalSymbolsEntry32_layout =
     [(''dylibOffset'', 4, 4), (''nlistStartIndex'', 4, 4), (''nlistCount'', 4, 4)]"

definition RorkHookDyldCacheLocalSymbolsEntry64_layout :: layout where
  "RorkHookDyldCacheLocalSymbolsEntry64_layout =
     [(''dylibOffset'', 8, 8), (''nlistStartIndex'', 4, 4), (''nlistCount'', 4, 4)]"

section \<open>Accessors\<close>

abbreviation sizeof_cache_header :: u64 where "sizeof_cache_header \<equiv> 456"
abbreviation offsetof_symbolFileUUID :: u32 where "offsetof_symbolFileUUID \<equiv> 400"
abbreviation sizeof_image_info :: u64 where "sizeof_image_info \<equiv> 32"
abbreviation sizeof_symbols_info :: u64 where "sizeof_symbols_info \<equiv> 24"
abbreviation sizeof_entry32 :: u64 where "sizeof_entry32 \<equiv> 12"
abbreviation sizeof_entry64 :: u64 where "sizeof_entry64 \<equiv> 16"

definition dch_magic :: "memory \<Rightarrow> u64 \<Rightarrow> u8 list" where [layout_simps]: "dch_magic m h = load_bytes m h 16"
definition dch_mappingOffset :: "memory \<Rightarrow> u64 \<Rightarrow> u32" where [layout_simps]: "dch_mappingOffset m h = load32 m (h + 16)"
definition dch_imagesOffsetOld :: "memory \<Rightarrow> u64 \<Rightarrow> u32" where [layout_simps]: "dch_imagesOffsetOld m h = load32 m (h + 24)"
definition dch_imagesCountOld :: "memory \<Rightarrow> u64 \<Rightarrow> u32" where [layout_simps]: "dch_imagesCountOld m h = load32 m (h + 28)"
definition dch_localSymbolsOffset :: "memory \<Rightarrow> u64 \<Rightarrow> u64" where [layout_simps]: "dch_localSymbolsOffset m h = load64 m (h + 72)"
definition dch_localSymbolsSize :: "memory \<Rightarrow> u64 \<Rightarrow> u64" where [layout_simps]: "dch_localSymbolsSize m h = load64 m (h + 80)"
definition dch_imagesOffset :: "memory \<Rightarrow> u64 \<Rightarrow> u32" where [layout_simps]: "dch_imagesOffset m h = load32 m (h + 448)"
definition dch_imagesCount :: "memory \<Rightarrow> u64 \<Rightarrow> u32" where [layout_simps]: "dch_imagesCount m h = load32 m (h + 452)"

definition dci_pathFileOffset :: "memory \<Rightarrow> u64 \<Rightarrow> u32" where [layout_simps]: "dci_pathFileOffset m a = load32 m (a + 24)"

definition dcl_nlistOffset :: "memory \<Rightarrow> u64 \<Rightarrow> u32" where [layout_simps]: "dcl_nlistOffset m a = load32 m a"
definition dcl_nlistCount :: "memory \<Rightarrow> u64 \<Rightarrow> u32" where [layout_simps]: "dcl_nlistCount m a = load32 m (a + 4)"
definition dcl_stringsOffset :: "memory \<Rightarrow> u64 \<Rightarrow> u32" where [layout_simps]: "dcl_stringsOffset m a = load32 m (a + 8)"
definition dcl_stringsSize :: "memory \<Rightarrow> u64 \<Rightarrow> u32" where [layout_simps]: "dcl_stringsSize m a = load32 m (a + 12)"
definition dcl_entriesOffset :: "memory \<Rightarrow> u64 \<Rightarrow> u32" where [layout_simps]: "dcl_entriesOffset m a = load32 m (a + 16)"
definition dcl_entriesCount :: "memory \<Rightarrow> u64 \<Rightarrow> u32" where [layout_simps]: "dcl_entriesCount m a = load32 m (a + 20)"

definition dce32_nlistStartIndex :: "memory \<Rightarrow> u64 \<Rightarrow> u32" where [layout_simps]: "dce32_nlistStartIndex m a = load32 m (a + 4)"
definition dce32_nlistCount :: "memory \<Rightarrow> u64 \<Rightarrow> u32" where [layout_simps]: "dce32_nlistCount m a = load32 m (a + 8)"
definition dce64_nlistStartIndex :: "memory \<Rightarrow> u64 \<Rightarrow> u32" where [layout_simps]: "dce64_nlistStartIndex m a = load32 m (a + 8)"
definition dce64_nlistCount :: "memory \<Rightarrow> u64 \<Rightarrow> u32" where [layout_simps]: "dce64_nlistCount m a = load32 m (a + 12)"

section \<open>Static assertions\<close>

definition dyld_cache_static_asserts :: bool where
  "dyld_cache_static_asserts \<longleftrightarrow>
     offset_of RorkHookDyldCacheHeader_layout ''mappingOffset'' = Some 16 \<and>
     offset_of RorkHookDyldCacheHeader_layout ''localSymbolsOffset'' = Some 72 \<and>
     offset_of RorkHookDyldCacheHeader_layout ''mappingWithSlideOffset'' = Some 312 \<and>
     offset_of RorkHookDyldCacheHeader_layout ''symbolFileUUID'' = Some 400 \<and>
     offset_of RorkHookDyldCacheHeader_layout ''imagesOffset'' = Some 448 \<and>
     size_of RorkHookDyldCacheHeader_layout = 456 \<and>
     size_of RorkHookDyldCacheImageInfo_layout = 32 \<and>
     size_of RorkHookDyldCacheLocalSymbolsInfo_layout = 24 \<and>
     size_of RorkHookDyldCacheLocalSymbolsEntry32_layout = 12 \<and>
     size_of RorkHookDyldCacheLocalSymbolsEntry64_layout = 16"

section \<open>Members\<close>

text \<open>The bytes of a member of the struct at \<open>a\<close>, where the layout puts it and as many as it has, and an
  integer member as a word, if the word has the member's width.\<close>

definition member_at :: "layout \<Rightarrow> string \<Rightarrow> (nat \<times> nat) option" where
  "member_at fs name =
     (case (offset_of fs name, map_of fs name) of
        (Some off, Some (sz, al)) \<Rightarrow> Some (off, sz)
      | _ \<Rightarrow> None)"

definition member_bytes :: "layout \<Rightarrow> string \<Rightarrow> memory \<Rightarrow> u64 \<Rightarrow> u8 list option" where
  "member_bytes fs name m a = map_option (\<lambda>(off, sz). load_bytes m (a + of_nat off) sz) (member_at fs name)"

definition member_word :: "layout \<Rightarrow> string \<Rightarrow> memory \<Rightarrow> u64 \<Rightarrow> 'a::len word option" where
  "member_word fs name m a =
     (case member_bytes fs name m a of
        None \<Rightarrow> None
      | Some bs \<Rightarrow> if LENGTH('a) = 8 * length bs then Some (le_word bs) else None)"

text \<open>The layouts evaluated.\<close>

lemma header_offsets:
  "member_offsets RorkHookDyldCacheHeader_layout 0 =
     [(''magic'', 0), (''mappingOffset'', 16), (''mappingCount'', 20), (''imagesOffsetOld'', 24),
      (''imagesCountOld'', 28), (''dyldBaseAddress'', 32), (''codeSignatureOffset'', 40),
      (''codeSignatureSize'', 48), (''slideInfoOffsetUnused'', 56), (''slideInfoSizeUnused'', 64),
      (''localSymbolsOffset'', 72), (''localSymbolsSize'', 80), (''uuid'', 88), (''cacheType'', 104),
      (''branchPoolsOffset'', 112), (''branchPoolsCount'', 116), (''dyldInCacheMH'', 120),
      (''dyldInCacheEntry'', 128), (''imagesTextOffset'', 136), (''imagesTextCount'', 144),
      (''patchInfoAddr'', 152), (''patchInfoSize'', 160), (''otherImageGroupAddrUnused'', 168),
      (''otherImageGroupSizeUnused'', 176), (''progClosuresAddr'', 184), (''progClosuresSize'', 192),
      (''progClosuresTrieAddr'', 200), (''progClosuresTrieSize'', 208), (''platform'', 216),
      (''formatAndFlags'', 220), (''sharedRegionStart'', 224), (''sharedRegionSize'', 232), (''maxSlide'',
      240), (''dylibsImageArrayAddr'', 248), (''dylibsImageArraySize'', 256), (''dylibsTrieAddr'', 264),
      (''dylibsTrieSize'', 272), (''otherImageArrayAddr'', 280), (''otherImageArraySize'', 288),
      (''otherTrieAddr'', 296), (''otherTrieSize'', 304), (''mappingWithSlideOffset'', 312),
      (''mappingWithSlideCount'', 316), (''dylibsPBLStateArrayAddrUnused'', 320), (''dylibsPBLSetAddr'',
      328), (''programsPBLSetPoolAddr'', 336), (''programsPBLSetPoolSize'', 344), (''programTrieAddr'',
      352), (''programTrieSize'', 360), (''osVersion'', 364), (''altPlatform'', 368), (''altOsVersion'',
      372), (''swiftOptsOffset'', 376), (''swiftOptsSize'', 384), (''subCacheArrayOffset'', 392),
      (''subCacheArrayCount'', 396), (''symbolFileUUID'', 400), (''rosettaReadOnlyAddr'', 416),
      (''rosettaReadOnlySize'', 424), (''rosettaReadWriteAddr'', 432), (''rosettaReadWriteSize'', 440),
      (''imagesOffset'', 448), (''imagesCount'', 452)]"
  by (simp add: RorkHookDyldCacheHeader_layout_def round_up_def)

lemma layout_facts:
  "member_at RorkHookDyldCacheHeader_layout ''magic'' = Some (0, 16)"
  "member_at RorkHookDyldCacheHeader_layout ''mappingOffset'' = Some (16, 4)"
  "member_at RorkHookDyldCacheHeader_layout ''imagesOffsetOld'' = Some (24, 4)"
  "member_at RorkHookDyldCacheHeader_layout ''imagesCountOld'' = Some (28, 4)"
  "member_at RorkHookDyldCacheHeader_layout ''localSymbolsOffset'' = Some (72, 8)"
  "member_at RorkHookDyldCacheHeader_layout ''localSymbolsSize'' = Some (80, 8)"
  "member_at RorkHookDyldCacheHeader_layout ''symbolFileUUID'' = Some (400, 16)"
  "member_at RorkHookDyldCacheHeader_layout ''imagesOffset'' = Some (448, 4)"
  "member_at RorkHookDyldCacheHeader_layout ''imagesCount'' = Some (452, 4)"
  "member_at RorkHookDyldCacheImageInfo_layout ''pathFileOffset'' = Some (24, 4)"
  "member_at RorkHookDyldCacheLocalSymbolsInfo_layout ''nlistOffset'' = Some (0, 4)"
  "member_at RorkHookDyldCacheLocalSymbolsInfo_layout ''nlistCount'' = Some (4, 4)"
  "member_at RorkHookDyldCacheLocalSymbolsInfo_layout ''stringsOffset'' = Some (8, 4)"
  "member_at RorkHookDyldCacheLocalSymbolsInfo_layout ''stringsSize'' = Some (12, 4)"
  "member_at RorkHookDyldCacheLocalSymbolsInfo_layout ''entriesOffset'' = Some (16, 4)"
  "member_at RorkHookDyldCacheLocalSymbolsInfo_layout ''entriesCount'' = Some (20, 4)"
  "member_at RorkHookDyldCacheLocalSymbolsEntry32_layout ''nlistStartIndex'' = Some (4, 4)"
  "member_at RorkHookDyldCacheLocalSymbolsEntry32_layout ''nlistCount'' = Some (8, 4)"
  "member_at RorkHookDyldCacheLocalSymbolsEntry64_layout ''nlistStartIndex'' = Some (8, 4)"
  "member_at RorkHookDyldCacheLocalSymbolsEntry64_layout ''nlistCount'' = Some (12, 4)"
  by (simp_all add: member_at_def offset_of_def header_offsets, simp_all add: round_up_def
      RorkHookDyldCacheHeader_layout_def RorkHookDyldCacheImageInfo_layout_def RorkHookDyldCacheLocalSymbolsInfo_layout_def
      RorkHookDyldCacheLocalSymbolsEntry32_layout_def RorkHookDyldCacheLocalSymbolsEntry64_layout_def)

lemma layout_sizes:
  "size_of RorkHookDyldCacheHeader_layout = 456" "size_of RorkHookDyldCacheImageInfo_layout = 32"
  "size_of RorkHookDyldCacheLocalSymbolsInfo_layout = 24" "size_of RorkHookDyldCacheLocalSymbolsEntry32_layout = 12"
  "size_of RorkHookDyldCacheLocalSymbolsEntry64_layout = 16"
  by (simp_all add: size_of_def round_up_def RorkHookDyldCacheHeader_layout_def RorkHookDyldCacheImageInfo_layout_def RorkHookDyldCacheLocalSymbolsInfo_layout_def
      RorkHookDyldCacheLocalSymbolsEntry32_layout_def RorkHookDyldCacheLocalSymbolsEntry64_layout_def)

lemma asserts_hold: "dyld_cache_static_asserts"
  by (simp add: dyld_cache_static_asserts_def layout_sizes offset_of_def header_offsets)

text \<open>
  C40: Under the C layout rules every static assertion about the declared structs holds, the record
  sizes and the field offset that the parser uses as constants are those of the declarations, and
  every accessor of the parser reads exactly the bytes of the member it is named after, at the offset
  and with the width of the declaration, also for the members that no assertion mentions.
\<close>

theorem dyld_cache_layout:
  "dyld_cache_static_asserts \<and>
   [sizeof_cache_header, sizeof_image_info, sizeof_symbols_info, sizeof_entry32, sizeof_entry64] =
     map (of_nat \<circ> size_of)
       [RorkHookDyldCacheHeader_layout, RorkHookDyldCacheImageInfo_layout, RorkHookDyldCacheLocalSymbolsInfo_layout,
        RorkHookDyldCacheLocalSymbolsEntry32_layout, RorkHookDyldCacheLocalSymbolsEntry64_layout] \<and>
   member_at RorkHookDyldCacheHeader_layout ''symbolFileUUID'' = Some (unat offsetof_symbolFileUUID, 16) \<and>
   member_bytes RorkHookDyldCacheHeader_layout ''magic'' m a = Some (dch_magic m a) \<and>
   member_word RorkHookDyldCacheHeader_layout ''mappingOffset'' m a = Some (dch_mappingOffset m a) \<and>
   member_word RorkHookDyldCacheHeader_layout ''imagesOffsetOld'' m a = Some (dch_imagesOffsetOld m a) \<and>
   member_word RorkHookDyldCacheHeader_layout ''imagesCountOld'' m a = Some (dch_imagesCountOld m a) \<and>
   member_word RorkHookDyldCacheHeader_layout ''localSymbolsOffset'' m a = Some (dch_localSymbolsOffset m a) \<and>
   member_word RorkHookDyldCacheHeader_layout ''localSymbolsSize'' m a = Some (dch_localSymbolsSize m a) \<and>
   member_word RorkHookDyldCacheHeader_layout ''imagesOffset'' m a = Some (dch_imagesOffset m a) \<and>
   member_word RorkHookDyldCacheHeader_layout ''imagesCount'' m a = Some (dch_imagesCount m a) \<and>
   member_word RorkHookDyldCacheImageInfo_layout ''pathFileOffset'' m a = Some (dci_pathFileOffset m a) \<and>
   member_word RorkHookDyldCacheLocalSymbolsInfo_layout ''nlistOffset'' m a = Some (dcl_nlistOffset m a) \<and>
   member_word RorkHookDyldCacheLocalSymbolsInfo_layout ''nlistCount'' m a = Some (dcl_nlistCount m a) \<and>
   member_word RorkHookDyldCacheLocalSymbolsInfo_layout ''stringsOffset'' m a = Some (dcl_stringsOffset m a) \<and>
   member_word RorkHookDyldCacheLocalSymbolsInfo_layout ''stringsSize'' m a = Some (dcl_stringsSize m a) \<and>
   member_word RorkHookDyldCacheLocalSymbolsInfo_layout ''entriesOffset'' m a = Some (dcl_entriesOffset m a) \<and>
   member_word RorkHookDyldCacheLocalSymbolsInfo_layout ''entriesCount'' m a = Some (dcl_entriesCount m a) \<and>
   member_word RorkHookDyldCacheLocalSymbolsEntry32_layout ''nlistStartIndex'' m a = Some (dce32_nlistStartIndex m a) \<and>
   member_word RorkHookDyldCacheLocalSymbolsEntry32_layout ''nlistCount'' m a = Some (dce32_nlistCount m a) \<and>
   member_word RorkHookDyldCacheLocalSymbolsEntry64_layout ''nlistStartIndex'' m a = Some (dce64_nlistStartIndex m a) \<and>
   member_word RorkHookDyldCacheLocalSymbolsEntry64_layout ''nlistCount'' m a = Some (dce64_nlistCount m a)"
  by (simp add: asserts_hold layout_sizes layout_facts member_word_def member_bytes_def
      load32_def load64_def layout_simps)

end
