(* ===== verification/Shared_Cache.thy ===== *)
theory Shared_Cache
  imports Symbols Dyld_Cache
begin

text \<open>
  The parser of the dyld shared cache (\<open>Sources/RorkHook/RorkHookSharedCache.c\<close>, from \<open>RorkHookDataAt\<close>
  to \<open>RorkHookStringEquals\<close>, and \<open>RorkHookFindSharedCacheSymbolInData\<close>). A view is an address and a size; every
  read of the parser goes through \<open>RorkHookDataAt\<close> or \<open>RorkHookStringEquals\<close>. The long parser
  \<open>RorkHookFindSharedCacheSymbolInData\<close> is split at its stages, in order; \<open>None\<close> stands for an
  early \<open>return NULL\<close>.

  The lemmas give the value of each stage, compose them to the specification \<open>cache_lookup\<close> and show
  that a lookup depends on the contents of its two views only.
\<close>

section \<open>Bounded views\<close>

record RorkHookDataView =
  dv_bytes :: u64
  dv_size :: u64

definition RorkHookDataAt :: "RorkHookDataView \<Rightarrow> u64 \<Rightarrow> u64 \<Rightarrow> u64" where
  "RorkHookDataAt view offset len =
     (if dv_bytes view = 0 \<or> SIZE_MAX < offset then 0
      else
        let nativeOffset = offset in
        if dv_size view < nativeOffset \<or> dv_size view - nativeOffset < len then 0
        else dv_bytes view + nativeOffset)"

definition RorkHookIndexedOffset :: "u64 \<Rightarrow> u64 \<Rightarrow> u64 \<Rightarrow> u64 outp \<Rightarrow> bool \<times> u64 outp" where
  "RorkHookIndexedOffset base index stride offsetOut =
     (case offsetOut of
        None \<Rightarrow> (False, None)
      | Some _ \<Rightarrow>
          if 2 ^ 64 \<le> unat index * unat stride then (False, offsetOut)
          else
            let elementOffset = index * stride in
            if 2 ^ 64 \<le> unat base + unat elementOffset then (False, offsetOut)
            else (True, Some (base + elementOffset)))"

text \<open>\<open>RorkHookReadRecord\<close> returns whether the copy happened; the copied record is the bytes at the
  returned address, which the callers read field by field.\<close>

definition RorkHookReadRecord :: "RorkHookDataView \<Rightarrow> u64 \<Rightarrow> u64 \<Rightarrow> u64 option" where
  "RorkHookReadRecord view offset recordSize =
     (if recordSize = 0 then None
      else
        let bytes = RorkHookDataAt view offset recordSize in
        if bytes = 0 then None else Some bytes)"

definition RorkHookStringEquals :: "memory \<Rightarrow> RorkHookDataView \<Rightarrow> u64 \<Rightarrow> cstring option \<Rightarrow> bool" where
  "RorkHookStringEquals m view offset expected =
     (case expected of
        None \<Rightarrow> False
      | Some str \<Rightarrow>
          if dv_bytes view = 0 \<or> SIZE_MAX < offset \<or> dv_size view \<le> offset then False
          else
            let candidate = dv_bytes view + offset; remaining = dv_size view - offset in
            (case memchr_nul m candidate (unat remaining) of
               None \<Rightarrow> False
             | Some candidateLength \<Rightarrow>
                 candidateLength = length str \<and> load_bytes m candidate (length str) = str))"

section \<open>Stages of the parser\<close>

abbreviation dyld_v1 :: "u8 list" where "dyld_v1 \<equiv> map of_char ''dyld_v1''"

definition image_table :: "memory \<Rightarrow> RorkHookDataView \<Rightarrow> u64 \<Rightarrow> (u64 \<times> u64) option" where
  "image_table m mainView mainHeader =
     (let imagesOffset = ucast (dch_imagesOffset m mainHeader) :: u64;
          imagesCount = ucast (dch_imagesCount m mainHeader) :: u64;
          (imagesOffset, imagesCount) =
            (if imagesOffset = 0 \<or> imagesCount = 0
             then (ucast (dch_imagesOffsetOld m mainHeader), ucast (dch_imagesCountOld m mainHeader))
             else (imagesOffset, imagesCount))
      in
      if imagesOffset = 0 \<or> imagesCount = 0 then None
      else if 2 ^ 64 \<le> unat imagesCount * unat sizeof_image_info then None
      else
        let imageTableSize = imagesCount * sizeof_image_info in
        if SIZE_MAX < imageTableSize \<or> RorkHookDataAt mainView imagesOffset imageTableSize = 0
        then None
        else Some (imagesOffset, imagesCount))"

text \<open>The search for the image: \<open>Some UINT64_MAX\<close> when the loop ends without a match.\<close>

function find_image_loop ::
  "memory \<Rightarrow> RorkHookDataView \<Rightarrow> u64 \<Rightarrow> u64 \<Rightarrow> cstring \<Rightarrow> u64 \<Rightarrow> u64 option" where
  "find_image_loop m mainView imagesOffset imagesCount imagePath index =
     (if index < imagesCount then
        case RorkHookIndexedOffset imagesOffset index sizeof_image_info (Some 0) of
          (True, Some infoOffset) \<Rightarrow>
            (case RorkHookReadRecord mainView infoOffset sizeof_image_info of
               None \<Rightarrow> None
             | Some imageInfo \<Rightarrow>
                 if RorkHookStringEquals m mainView (ucast (dci_pathFileOffset m imageInfo)) (Some imagePath)
                 then Some index
                 else find_image_loop m mainView imagesOffset imagesCount imagePath (index + 1))
        | _ \<Rightarrow> None
      else Some UINT64_MAX)"
  by pat_completeness auto
termination
  by (relation "measure (\<lambda>(m, v, off, count, path, index). unat count - unat index)")
     (auto intro: word_index_decreases)

declare find_image_loop.simps [simp del]

definition local_view :: "memory \<Rightarrow> RorkHookDataView \<Rightarrow> u64 \<Rightarrow> RorkHookDataView option" where
  "local_view m symbolsView symbolsHeader =
     (if dch_localSymbolsOffset m symbolsHeader = 0 \<or> SIZE_MAX < dch_localSymbolsOffset m symbolsHeader
      then None
      else
        let localBase = dch_localSymbolsOffset m symbolsHeader in
        if dv_size symbolsView < localBase \<or> SIZE_MAX < dch_localSymbolsSize m symbolsHeader then None
        else
          let localSize = (if dch_localSymbolsSize m symbolsHeader = 0
                           then dv_size symbolsView - localBase
                           else dch_localSymbolsSize m symbolsHeader)
          in
          if dv_size symbolsView - localBase < localSize then None
          else Some \<lparr>dv_bytes = dv_bytes symbolsView + localBase, dv_size = localSize\<rparr>)"

definition image_symbol_range ::
  "memory \<Rightarrow> u64 \<Rightarrow> RorkHookDataView \<Rightarrow> u64 \<Rightarrow> u64 \<Rightarrow> (u64 \<times> u64) option" where
  "image_symbol_range m mainHeader localView symbolsInfo imageIndex =
     (let uses64BitEntry = offsetof_symbolFileUUID \<le> dch_mappingOffset m mainHeader;
          entrySize = (if uses64BitEntry then sizeof_entry64 else sizeof_entry32)
      in
      case RorkHookIndexedOffset (ucast (dcl_entriesOffset m symbolsInfo)) imageIndex entrySize (Some 0) of
        (True, Some entryOffset) \<Rightarrow>
          (case RorkHookReadRecord localView entryOffset entrySize of
             None \<Rightarrow> None
           | Some entry \<Rightarrow>
               let nlistStartIndex = (if uses64BitEntry then dce64_nlistStartIndex m entry
                                      else dce32_nlistStartIndex m entry);
                   nlistCount = (if uses64BitEntry then dce64_nlistCount m entry
                                 else dce32_nlistCount m entry)
               in
               if 2 ^ 64 \<le> unat (ucast nlistStartIndex :: u64) + unat (ucast nlistCount :: u64) then None
               else
                 let nlistEnd = ucast nlistStartIndex + ucast nlistCount :: u64 in
                 if ucast (dcl_nlistCount m symbolsInfo) < nlistEnd then None
                 else Some (ucast nlistStartIndex, nlistEnd))
      | _ \<Rightarrow> None)"

definition strings_view :: "memory \<Rightarrow> RorkHookDataView \<Rightarrow> u64 \<Rightarrow> RorkHookDataView option" where
  "strings_view m localView symbolsInfo =
     (let nlistCount = ucast (dcl_nlistCount m symbolsInfo) :: u64;
          stringsOffset = ucast (dcl_stringsOffset m symbolsInfo) :: u64;
          stringsSize = ucast (dcl_stringsSize m symbolsInfo) :: u64
      in
      if 2 ^ 64 \<le> unat nlistCount * unat sizeof_nlist then None
      else
        let nlistTableSize = nlistCount * sizeof_nlist in
        if SIZE_MAX < nlistTableSize \<or>
           RorkHookDataAt localView (ucast (dcl_nlistOffset m symbolsInfo)) nlistTableSize = 0 \<or>
           RorkHookDataAt localView stringsOffset stringsSize = 0
        then None
        else Some \<lparr>dv_bytes = dv_bytes localView + stringsOffset, dv_size = stringsSize\<rparr>)"

function find_local_loop ::
  "memory \<Rightarrow> RorkHookDataView \<Rightarrow> u64 \<Rightarrow> RorkHookDataView \<Rightarrow> cstring \<Rightarrow> u64 \<Rightarrow> u64 \<Rightarrow> RorkHookNList option" where
  "find_local_loop m localView nlistOffset stringsView symbolName nlistEnd index =
     (if index < nlistEnd then
        case RorkHookIndexedOffset nlistOffset index sizeof_nlist (Some 0) of
          (True, Some symbolOffset) \<Rightarrow>
            (case RorkHookReadRecord localView symbolOffset sizeof_nlist of
               None \<Rightarrow> find_local_loop m localView nlistOffset stringsView symbolName nlistEnd (index + 1)
             | Some address \<Rightarrow>
                 let symbol = read_nlist m address in
                 if n_strx symbol = 0 \<or> dv_size stringsView \<le> ucast (n_strx symbol) \<or>
                    n_type symbol AND N_TYPE \<noteq> N_SECT \<or>
                    \<not> RorkHookStringEquals m stringsView (ucast (n_strx symbol)) (Some symbolName)
                 then find_local_loop m localView nlistOffset stringsView symbolName nlistEnd (index + 1)
                 else Some symbol)
        | _ \<Rightarrow> find_local_loop m localView nlistOffset stringsView symbolName nlistEnd (index + 1)
      else None)"
  by pat_completeness auto
termination
  by (relation "measure (\<lambda>(m, v, off, sv, name, end, index). unat end - unat index)")
     (auto intro: word_index_decreases)

declare find_local_loop.simps [simp del]

text \<open>The stages in sequence, up to the symbol that is found.\<close>

definition cache_symbol_entry ::
  "memory \<Rightarrow> RorkHookDataView \<Rightarrow> RorkHookDataView \<Rightarrow> cstring \<Rightarrow> cstring \<Rightarrow> RorkHookNList option" where
  "cache_symbol_entry m mainView symbolsView imagePath symbolName =
     (case (RorkHookReadRecord mainView 0 sizeof_cache_header,
            RorkHookReadRecord symbolsView 0 sizeof_cache_header) of
        (Some mainHeader, Some symbolsHeader) \<Rightarrow>
          if take 7 (dch_magic m mainHeader) \<noteq> dyld_v1 \<or> take 7 (dch_magic m symbolsHeader) \<noteq> dyld_v1
          then None
          else
            (case image_table m mainView mainHeader of
               None \<Rightarrow> None
             | Some (imagesOffset, imagesCount) \<Rightarrow>
                 (case find_image_loop m mainView imagesOffset imagesCount imagePath 0 of
                    None \<Rightarrow> None
                  | Some imageIndex \<Rightarrow>
                      if imageIndex = UINT64_MAX then None
                      else
                        (case local_view m symbolsView symbolsHeader of
                           None \<Rightarrow> None
                         | Some localView \<Rightarrow>
                             (case RorkHookReadRecord localView 0 sizeof_symbols_info of
                                None \<Rightarrow> None
                              | Some symbolsInfo \<Rightarrow>
                                  if ucast (dcl_entriesCount m symbolsInfo) \<le> imageIndex then None
                                  else
                                    (case image_symbol_range m mainHeader localView symbolsInfo imageIndex of
                                       None \<Rightarrow> None
                                     | Some (nlistStartIndex, nlistEnd) \<Rightarrow>
                                         (case strings_view m localView symbolsInfo of
                                            None \<Rightarrow> None
                                          | Some stringsView \<Rightarrow>
                                              find_local_loop m localView (ucast (dcl_nlistOffset m symbolsInfo))
                                                stringsView symbolName nlistEnd nlistStartIndex))))))
      | _ \<Rightarrow> None)"

definition RorkHookFindSharedCacheSymbolInData ::
  "'w platform \<Rightarrow> 'w machine \<Rightarrow> u64 \<Rightarrow> u64 \<Rightarrow> u64 \<Rightarrow> u64 \<Rightarrow> u64 \<Rightarrow> cstring option \<Rightarrow> cstring option \<Rightarrow> u64" where
  "RorkHookFindSharedCacheSymbolInData pf s mainData mainSize symbolsData symbolsSize slide
       imagePath symbolName =
     (case (imagePath, symbolName) of
        (Some path, Some name) \<Rightarrow>
          if mainData = 0 \<or> symbolsData = 0 then 0
          else
            (case cache_symbol_entry (mem s) \<lparr>dv_bytes = mainData, dv_size = mainSize\<rparr>
                    \<lparr>dv_bytes = symbolsData, dv_size = symbolsSize\<rparr> path name of
               None \<Rightarrow> 0
             | Some symbol \<Rightarrow>
                 if UINTPTR_MAX - slide < n_value symbol then 0
                 else RorkHookSignPointerIfExecutable pf (world s) (slide + n_value symbol))
      | _ \<Rightarrow> 0)"

section \<open>Views\<close>

definition valid_view :: "RorkHookDataView \<Rightarrow> bool" where
  "valid_view v \<longleftrightarrow> dv_bytes v \<noteq> 0 \<and> unat (dv_bytes v) + unat (dv_size v) < 2 ^ 64"

definition fits :: "RorkHookDataView \<Rightarrow> nat \<Rightarrow> nat \<Rightarrow> bool" where
  "fits v off n \<longleftrightarrow> off + n \<le> unat (dv_size v)"

definition at :: "RorkHookDataView \<Rightarrow> nat \<Rightarrow> u64" where
  "at v off = dv_bytes v + of_nat off"

lemma at_word: "dv_bytes v + (w :: u64) = at v (unat w)"
  by (simp add: at_def)

lemma at_nonnull:
  assumes "valid_view v" "fits v off n"
  shows "at v off \<noteq> 0" "unat (at v off) = unat (dv_bytes v) + off"
proof -
  have "unat (of_nat off :: u64) = off" using assms by (simp add: valid_view_def fits_def unat_of_nat)
  then show u: "unat (at v off) = unat (dv_bytes v) + off"
    unfolding at_def using assms by (subst unat_add_no_wrap) (auto simp: valid_view_def fits_def)
  have "0 < unat (dv_bytes v)" using assms(1) by (simp add: valid_view_def unat_gt_0)
  with u show "at v off \<noteq> 0" by (metis add_gr_0 less_numeral_extra(3) unat_0)
qed

lemma DataAt_value:
  assumes "valid_view v"
  shows "RorkHookDataAt v off n = (if fits v (unat off) (unat n) then at v (unat off) else 0)"
proof -
  have "dv_size v < off \<or> dv_size v - off < n \<longleftrightarrow> \<not> fits v (unat off) (unat n)"
    by (auto simp: fits_def word_less_nat_alt unat_sub_if')
  with assms show ?thesis
    by (simp add: RorkHookDataAt_def Let_def max_offset_guards valid_view_def at_word)
qed

lemma ReadRecord_value:
  assumes "valid_view v" "n \<noteq> 0"
  shows "RorkHookReadRecord v off n = (if fits v (unat off) (unat n) then Some (at v (unat off)) else None)"
  using assms at_nonnull(1) [OF assms(1)] by (auto simp: RorkHookReadRecord_def DataAt_value Let_def)

definition indexed :: "u64 \<Rightarrow> u64 \<Rightarrow> u64 \<Rightarrow> u64 option" where
  "indexed base index stride =
     (if unat base + unat index * unat stride < 2 ^ 64 then Some (base + index * stride) else None)"

interpretation indexed_offset: out_param
  "\<lambda>(base, index, stride). RorkHookIndexedOffset base index stride"
  "\<lambda>(base, index, stride). indexed base index stride"
proof unfold_locales
  fix i :: "u64 \<times> u64 \<times> u64" and old v :: u64
  obtain b x z where i: "i = (b, x, z)" by (cases i) auto
  have run: "RorkHookIndexedOffset b x z (Some old) =
      (case indexed b x z of None \<Rightarrow> (False, Some old) | Some v \<Rightarrow> (True, Some v))"
  proof (cases "unat x * unat z < 2 ^ 64")
    case True
    then have "unat (x * z) = unat x * unat z" by (simp add: unat_word_ariths)
    with True show ?thesis by (auto simp: RorkHookIndexedOffset_def indexed_def Let_def)
  next
    case False
    then show ?thesis by (simp add: RorkHookIndexedOffset_def indexed_def)
  qed
  show "(case i of (b, x, z) \<Rightarrow> RorkHookIndexedOffset b x z) None = (False, None)"
    by (simp add: i RorkHookIndexedOffset_def)
  show "(case i of (b, x, z) \<Rightarrow> indexed b x z) = None \<Longrightarrow>
      (case i of (b, x, z) \<Rightarrow> RorkHookIndexedOffset b x z) (Some old) = (False, Some old)"
    by (simp add: i run)
  show "(case i of (b, x, z) \<Rightarrow> indexed b x z) = Some v \<Longrightarrow>
      (case i of (b, x, z) \<Rightarrow> RorkHookIndexedOffset b x z) (Some old) = (True, Some v)"
    by (simp add: i run)
qed

lemma IndexedOffset_value:
  "RorkHookIndexedOffset b x z (Some old) =
     (case indexed b x z of None \<Rightarrow> (False, Some old) | Some v \<Rightarrow> (True, Some v))"
  using indexed_offset.run_cases [of "(b, x, z)" "Some old"] by simp

definition string_at :: "memory \<Rightarrow> RorkHookDataView \<Rightarrow> nat \<Rightarrow> cstring \<Rightarrow> bool" where
  "string_at m v off str \<longleftrightarrow>
     0 \<notin> set str \<and> off + length str < unat (dv_size v) \<and>
     load_bytes m (at v off) (Suc (length str)) = str @ [0]"

lemma StringEquals_value:
  assumes "dv_bytes v \<noteq> 0"
  shows "RorkHookStringEquals m v off (Some str) = string_at m v (unat off) str"
proof (cases "dv_size v \<le> off")
  case True
  then show ?thesis using assms
    by (auto simp: RorkHookStringEquals_def string_at_def word_le_nat_alt)
next
  case False
  then have "unat (dv_size v - off) = unat (dv_size v) - unat off" "unat off < unat (dv_size v)"
    by (auto simp: unat_sub_if' word_le_nat_alt)
  then have "string_at m v (unat off) str \<longleftrightarrow>
      (case memchr_nul m (at v (unat off)) (unat (dv_size v - off)) of None \<Rightarrow> False
       | Some k \<Rightarrow> k = length str \<and> load_bytes m (at v (unat off)) k = str)"
    by (auto simp: candidate_matches string_at_def less_diff_conv)
  with False assms show ?thesis
    by (auto simp: RorkHookStringEquals_def max_offset_guards Let_def at_word split: option.split)
qed

section \<open>What each stage computes\<close>

definition image_location :: "memory \<Rightarrow> u64 \<Rightarrow> u32 \<times> u32" where
  "image_location m h =
     (if dch_imagesOffset m h = 0 \<or> dch_imagesCount m h = 0
      then (dch_imagesOffsetOld m h, dch_imagesCountOld m h)
      else (dch_imagesOffset m h, dch_imagesCount m h))"

lemma ucast_zero_iff: "(ucast (w :: u32) :: u64) = 0 \<longleftrightarrow> w = 0"
  by (metis unat_widen unat_eq_zero)

lemma unat_scaled:
  assumes "unat z \<le> 2 ^ 16"
  shows "unat (ucast (c :: u32) * (z :: u64)) = unat z * unat c" "unat c * unat z < 2 ^ 64"
proof -
  have "unat c < 2 ^ 32" using unsigned_less [of c, where ?'a = nat] by simp
  then have "unat c * unat z \<le> 2 ^ 32 * 2 ^ 16" using assms by (intro mult_le_mono) auto
  then show "unat c * unat z < 2 ^ 64" by simp
  then show "unat (ucast c * z) = unat z * unat c" by (simp add: unat_word_ariths mult.commute)
qed

lemma image_table_value:
  assumes "valid_view v"
  shows "image_table m v h =
    (case image_location m h of (off, cnt) \<Rightarrow>
       if off \<noteq> 0 \<and> cnt \<noteq> 0 \<and> fits v (unat off) (32 * unat cnt) then Some (ucast off, ucast cnt) else None)"
proof -
  obtain off cnt where loc: "image_location m h = (off, cnt)" by fastforce
  have "image_table m v h =
      (if ucast off = (0 :: u64) \<or> ucast cnt = (0 :: u64) then None
       else if 2 ^ 64 \<le> unat (ucast cnt :: u64) * unat (32 :: u64) then None
       else if RorkHookDataAt v (ucast off) (ucast cnt * 32) = 0 then None
       else Some (ucast off, ucast cnt))"
    using loc by (auto simp: image_table_def image_location_def Let_def ucast_zero_iff max_offset_guards split: if_splits)
  then show ?thesis
    using unat_scaled [of 32 cnt] at_nonnull(1) [OF assms]
    by (auto simp: loc ucast_zero_iff DataAt_value [OF assms])
qed

definition image_named :: "memory \<Rightarrow> RorkHookDataView \<Rightarrow> nat \<Rightarrow> cstring \<Rightarrow> nat \<Rightarrow> bool" where
  "image_named m v off path i =
     string_at m v (unat (dci_pathFileOffset m (at v (off + 32 * i)))) path"

lemma indexed_ucast:
  assumes "unat z \<le> 2 ^ 16" "unat index < 2 ^ 33"
  shows "\<exists>x. indexed (ucast (off :: u32)) index z = Some x \<and> unat x = unat off + unat z * unat index"
proof -
  have o: "unat off < 2 ^ 32" using unsigned_less [of off, where ?'a = nat] by simp
  have "unat index * unat z \<le> 2 ^ 33 * 2 ^ 16" using assms by (intro mult_le_mono) auto
  then have lt: "unat off + unat index * unat z < 2 ^ 64" using o by simp
  then have "unat (index * z) = unat index * unat z" by (simp add: unat_word_ariths)
  with lt show ?thesis by (simp add: indexed_def unat_add_no_wrap mult.commute)
qed

lemma find_image_loop_spec:
  fixes off cnt :: u32
  assumes "valid_view v" "fits v (unat off) (32 * unat cnt)" "unat index \<le> unat cnt"
  shows "find_image_loop m v (ucast off) (ucast (cnt :: u32)) path index =
    Some (case find (image_named m v (unat off) path) [unat index..<unat cnt] of
            None \<Rightarrow> UINT64_MAX | Some i \<Rightarrow> of_nat i)"
  using assms(3)
proof (induction "unat cnt - unat index" arbitrary: index rule: less_induct)
  case less
  have c32: "unat cnt < 2 ^ 32" using unsigned_less [of cnt, where ?'a = nat] by simp
  show ?case
  proof (cases "index < ucast cnt")
    case False
    then have none: "[unat index..<unat cnt] = []" by (simp add: word_less_nat_alt)
    show ?thesis unfolding none using False by (subst find_image_loop.simps) simp
  next
    case True
    then have lt: "unat index < unat cnt" by (simp add: word_less_nat_alt)
    have inc: "unat (index + 1) = Suc (unat index)" by (rule unat_inc [OF True])
    obtain x where x: "indexed (ucast off) index 32 = Some x" "unat x = unat off + 32 * unat index"
      using indexed_ucast [of 32 index off] lt c32 by auto
    have "fits v (unat x) 32" using assms(2) lt by (simp add: fits_def x(2))
    then have rec: "RorkHookReadRecord v x 32 = Some (at v (unat off + 32 * unat index))"
      using x(2) by (simp add: ReadRecord_value [OF assms(1)])
    have upt: "[unat index..<unat cnt] = unat index # [unat (index + 1)..<unat cnt]"
      using lt inc by (simp add: upt_conv_Cons)
    have se: "RorkHookStringEquals m v w (Some str) = string_at m v (unat w) str" for w str
      using assms(1) by (intro StringEquals_value) (simp add: valid_view_def)
    have "find_image_loop m v (ucast off) (ucast cnt) path index =
        (if image_named m v (unat off) path (unat index) then Some index
         else find_image_loop m v (ucast off) (ucast cnt) path (index + 1))"
      using True by (subst find_image_loop.simps) (simp add: IndexedOffset_value x(1) rec se image_named_def)
    then show ?thesis
      unfolding upt using less.hyps [of "index + 1"] lt inc by simp
  qed
qed

lemma find_local_loop_spec:
  fixes off cnt :: u32
  assumes v: "valid_view v" and f: "fits v (unat off) (16 * unat cnt)" and sv: "dv_bytes sv \<noteq> 0"
    and "unat index \<le> unat fin" "unat fin \<le> unat (cnt :: u32)"
  shows "find_local_loop m v (ucast off) sv name fin index =
    map_option (nlist_at m (at v (unat off)))
      (find (symbol_matches m (at v (unat off)) (dv_bytes sv) (unat (dv_size sv)) name) [unat index..<unat fin])"
  using assms(4)
proof (induction "unat fin - unat index" arbitrary: index rule: less_induct)
  case less
  have c32: "unat cnt < 2 ^ 32" using unsigned_less [of cnt, where ?'a = nat] by simp
  show ?case
  proof (cases "index < fin")
    case False
    then have none: "[unat index..<unat fin] = []" by (simp add: word_less_nat_alt)
    show ?thesis unfolding none using False by (subst find_local_loop.simps) simp
  next
    case True
    then have lt: "unat index < unat fin" by (simp add: word_less_nat_alt)
    have inc: "unat (index + 1) = Suc (unat index)" by (rule unat_inc [OF True])
    obtain x where x: "indexed (ucast off) index 16 = Some x" "unat x = unat off + 16 * unat index"
      using indexed_ucast [of 16 index off] lt c32 assms(5) by auto
    have "fits v (unat x) 16" using f lt assms(5) by (simp add: fits_def x(2))
    then have rec: "RorkHookReadRecord v x 16 = Some (at v (unat off + 16 * unat index))"
      using x(2) by (simp add: ReadRecord_value [OF v])
    let ?e = "read_nlist m (at v (unat off + 16 * unat index))"
    have e: "nlist_at m (at v (unat off)) (unat index) = ?e" by (simp add: nlist_at_def at_def add.assoc)
    have upt: "[unat index..<unat fin] = unat index # [unat (index + 1)..<unat fin]"
      using lt inc by (simp add: upt_conv_Cons)
    have "symbol_matches m (at v (unat off)) (dv_bytes sv) (unat (dv_size sv)) name (unat index) \<longleftrightarrow>
        \<not> (n_strx ?e = 0 \<or> dv_size sv \<le> ucast (n_strx ?e) \<or> n_type ?e AND N_TYPE \<noteq> N_SECT \<or>
           \<not> string_at m sv (unat (n_strx ?e)) name)"
      unfolding symbol_matches_def Let_def e
      by (auto simp: string_at_def word_le_nat_alt at_def [of sv] unat_gt_0)
    then have "find_local_loop m v (ucast off) sv name fin index =
        (if symbol_matches m (at v (unat off)) (dv_bytes sv) (unat (dv_size sv)) name (unat index) then Some ?e
         else find_local_loop m v (ucast off) sv name fin (index + 1))"
      using True by (subst find_local_loop.simps)
        (simp add: IndexedOffset_value x(1) rec Let_def StringEquals_value [OF sv])
    then show ?thesis
      unfolding upt using less.hyps [of "index + 1"] lt inc e by simp
  qed
qed

definition local_region :: "memory \<Rightarrow> RorkHookDataView \<Rightarrow> u64 \<Rightarrow> (nat \<times> nat) option" where
  "local_region m v h =
     (let lo = unat (dch_localSymbolsOffset m h);
          n = (if dch_localSymbolsSize m h = 0 then unat (dv_size v) - lo else unat (dch_localSymbolsSize m h))
      in if lo \<noteq> 0 \<and> lo \<le> unat (dv_size v) \<and> fits v lo n then Some (lo, n) else None)"

definition sub_view :: "RorkHookDataView \<Rightarrow> nat \<Rightarrow> nat \<Rightarrow> RorkHookDataView" where
  "sub_view v off n = \<lparr>dv_bytes = at v off, dv_size = of_nat n\<rparr>"

lemma sub_view_simps:
  assumes "valid_view v" "fits v off n"
  shows "valid_view (sub_view v off n)" "unat (dv_size (sub_view v off n)) = n"
    "fits (sub_view v off n) x k = (x + k \<le> n)" "at (sub_view v off n) x = at v (off + x)"
    "dv_bytes (sub_view v off n) = at v off"
proof -
  have n: "unat (of_nat n :: u64) = n" using assms by (simp add: valid_view_def fits_def unat_of_nat)
  then show "unat (dv_size (sub_view v off n)) = n" "fits (sub_view v off n) x k = (x + k \<le> n)"
    by (simp_all add: sub_view_def fits_def)
  show "valid_view (sub_view v off n)"
    using at_nonnull [OF assms] assms n by (simp add: valid_view_def sub_view_def fits_def)
  show "at (sub_view v off n) x = at v (off + x)" "dv_bytes (sub_view v off n) = at v off"
    by (simp_all add: sub_view_def at_def add.assoc)
qed

lemma local_view_value:
  "local_view m v h = map_option (\<lambda>(lo, n). sub_view v lo n) (local_region m v h)"
proof (cases "dv_size v < dch_localSymbolsOffset m h")
  case True
  then show ?thesis by (auto simp: local_view_def local_region_def Let_def word_less_nat_alt)
next
  case False
  then have u: "unat (dv_size v - dch_localSymbolsOffset m h) = unat (dv_size v) - unat (dch_localSymbolsOffset m h)"
    "unat (dch_localSymbolsOffset m h) \<le> unat (dv_size v)"
    by (auto simp: unat_sub_if' word_less_nat_alt)
  have w: "of_nat (unat (dv_size v) - unat (dch_localSymbolsOffset m h)) = dv_size v - dch_localSymbolsOffset m h"
    by (simp flip: u(1))
  have "dv_size v - dch_localSymbolsOffset m h < dch_localSymbolsSize m h \<longleftrightarrow>
      \<not> fits v (unat (dch_localSymbolsOffset m h)) (unat (dch_localSymbolsSize m h))"
    using u by (auto simp: word_less_nat_alt fits_def)
  with False u w show ?thesis
    by (auto simp: local_view_def local_region_def sub_view_def Let_def max_offset_guards at_word
        fits_def unat_eq_zero)
qed

definition entry_size :: "memory \<Rightarrow> u64 \<Rightarrow> nat" where
  "entry_size m h = (if 400 \<le> dch_mappingOffset m h then 16 else 12)"

definition entry_range :: "memory \<Rightarrow> u64 \<Rightarrow> u64 \<Rightarrow> nat \<times> nat" where
  "entry_range m h e =
     (if 400 \<le> dch_mappingOffset m h then (unat (dce64_nlistStartIndex m e), unat (dce64_nlistCount m e))
      else (unat (dce32_nlistStartIndex m e), unat (dce32_nlistCount m e)))"

lemma image_symbol_range_value:
  assumes "valid_view v" "unat i < 2 ^ 32"
  shows "image_symbol_range m h v info i =
    (let x = unat (dcl_entriesOffset m info) + entry_size m h * unat i in
     case entry_range m h (at v x) of (start, n) \<Rightarrow>
       if fits v x (entry_size m h) \<and> start + n \<le> unat (dcl_nlistCount m info)
       then Some (of_nat start, of_nat (start + n)) else None)"
proof -
  let ?big = "400 \<le> dch_mappingOffset m h"
  let ?z = "if ?big then 16 else 12 :: u64"
  have z: "unat ?z = entry_size m h" "unat ?z \<le> 2 ^ 16" "?z \<noteq> 0" by (simp_all add: entry_size_def)
  obtain x where x: "indexed (ucast (dcl_entriesOffset m info)) i ?z = Some x"
    "unat x = unat (dcl_entriesOffset m info) + entry_size m h * unat i"
    using indexed_ucast [OF z(2), of i "dcl_entriesOffset m info"] assms(2) z(1) by auto
  have rec: "RorkHookReadRecord v x ?z =
      (if fits v (unat x) (entry_size m h) then Some (at v (unat x)) else None)"
    unfolding z(1) [symmetric] by (rule ReadRecord_value [OF assms(1) z(3)])
  have sum: "unat (ucast a + ucast b :: u64) = unat a + unat b" "\<not> 2 ^ 64 \<le> unat a + unat b" for a b :: u32
    using unsigned_less [of a, where ?'a = nat] unsigned_less [of b, where ?'a = nat]
    by (simp_all add: unat_add_no_wrap)
  have less: "ucast (c :: u32) < (ucast a + ucast b :: u64) \<longleftrightarrow> \<not> unat a + unat b \<le> unat c" for a b c :: u32
    by (auto simp: word_less_nat_alt sum(1))
  have "image_symbol_range m h v info i =
      (if fits v (unat x) (entry_size m h) then
         (let a = (if ?big then dce64_nlistStartIndex m (at v (unat x)) else dce32_nlistStartIndex m (at v (unat x)));
              b = (if ?big then dce64_nlistCount m (at v (unat x)) else dce32_nlistCount m (at v (unat x)))
          in if ucast (dcl_nlistCount m info) < (ucast a + ucast b :: u64) then None
             else Some (ucast a, ucast a + ucast b))
       else None)"
    using sum(2) by (simp add: image_symbol_range_def Let_def IndexedOffset_value x(1) rec)
  then show ?thesis
    by (auto simp: Let_def x(2) [symmetric] entry_range_def less)
qed

lemma strings_view_value:
  assumes "valid_view v"
  shows "strings_view m v info =
    (if fits v (unat (dcl_nlistOffset m info)) (16 * unat (dcl_nlistCount m info)) \<and>
        fits v (unat (dcl_stringsOffset m info)) (unat (dcl_stringsSize m info))
     then Some (sub_view v (unat (dcl_stringsOffset m info)) (unat (dcl_stringsSize m info))) else None)"
  using unat_scaled [of 16 "dcl_nlistCount m info"] at_nonnull(1) [OF assms]
  by (auto simp: strings_view_def Let_def DataAt_value [OF assms] max_offset_guards sub_view_def at_word)

section \<open>Specification of a cache lookup\<close>

text \<open>The symbol value found in the local-symbol region \<open>(lo, n)\<close> for the image with index \<open>i\<close>.\<close>

definition region_lookup ::
  "memory \<Rightarrow> u64 \<Rightarrow> RorkHookDataView \<Rightarrow> nat \<Rightarrow> nat \<Rightarrow> nat \<Rightarrow> cstring \<Rightarrow> u64 option" where
  "region_lookup m h v lo n i name =
     (let info = at v lo; es = entry_size m h; x = unat (dcl_entriesOffset m info) + es * i;
          cnt = unat (dcl_nlistCount m info); no = unat (dcl_nlistOffset m info);
          so = unat (dcl_stringsOffset m info); z = unat (dcl_stringsSize m info)
      in
      if n < 24 \<or> unat (dcl_entriesCount m info) \<le> i \<or> n < x + es then None
      else
        case entry_range m h (at v (lo + x)) of (start, k) \<Rightarrow>
          if cnt < start + k \<or> n < no + 16 * cnt \<or> n < so + z then None
          else map_option (\<lambda>j. n_value (nlist_at m (at v (lo + no)) j))
                 (find (symbol_matches m (at v (lo + no)) (at v (lo + so)) z name) [start..<start + k]))"

definition cache_lookup ::
  "memory \<Rightarrow> RorkHookDataView \<Rightarrow> RorkHookDataView \<Rightarrow> cstring \<Rightarrow> cstring \<Rightarrow> u64 option" where
  "cache_lookup m mv sv path name =
     (if \<not> fits mv 0 456 \<or> \<not> fits sv 0 456 \<or> take 7 (dch_magic m (at mv 0)) \<noteq> dyld_v1 \<or>
         take 7 (dch_magic m (at sv 0)) \<noteq> dyld_v1
      then None
      else
        case image_location m (at mv 0) of (off, cnt) \<Rightarrow>
          if off = 0 \<or> cnt = 0 \<or> \<not> fits mv (unat off) (32 * unat cnt) then None
          else
            case find (image_named m mv (unat off) path) [0..<unat cnt] of
              None \<Rightarrow> None
            | Some i \<Rightarrow>
                (case local_region m sv (at sv 0) of
                   None \<Rightarrow> None
                 | Some (lo, n) \<Rightarrow> region_lookup m (at mv 0) sv lo n i name))"

lemma local_region_fits: "local_region m v h = Some (lo, n) \<Longrightarrow> fits v lo n"
  by (auto simp: local_region_def Let_def split: if_splits)

text \<open>The search in the symbol range of one image, with the string table as a view inside the region.\<close>

lemma region_loop:
  fixes count offset stroff strsize :: u32
  assumes v: "valid_view v" "fits v lo n"
    and sv: "sv = sub_view (sub_view v lo n) (unat stroff) (unat strsize)"
    and t: "start + k \<le> unat count" "unat offset + 16 * unat count \<le> n" "unat stroff + unat strsize \<le> n"
  shows "find_local_loop m (sub_view v lo n) (ucast offset) sv name (of_nat (start + k)) (of_nat start) =
    map_option (nlist_at m (at v (lo + unat offset)))
      (find (symbol_matches m (at v (lo + unat offset)) (at v (lo + unat stroff)) (unat strsize) name)
         [start..<start + k])"
proof -
  note sub = sub_view_simps [OF v]
  have f: "fits (sub_view v lo n) (unat stroff) (unat strsize)" using t(3) by (simp add: sub)
  note sub2 = sub_view_simps [OF sub(1) f, folded sv]
  have "unat count < 2 ^ 32" using unsigned_less [of count, where ?'a = nat] by simp
  then have u: "unat (of_nat start :: u64) = start" "unat (of_nat (start + k) :: u64) = start + k"
    using t(1) by (simp_all add: unat_of_nat del: of_nat_add)
  have "dv_bytes sv \<noteq> 0" using sub2(1) by (simp add: valid_view_def)
  then have "find_local_loop m (sub_view v lo n) (ucast offset) sv name (of_nat (start + k)) (of_nat start) =
    map_option (nlist_at m (at (sub_view v lo n) (unat offset)))
      (find (symbol_matches m (at (sub_view v lo n) (unat offset)) (dv_bytes sv) (unat (dv_size sv)) name)
        [unat (of_nat start :: u64)..<unat (of_nat (start + k) :: u64)])"
    using t u sub(3) by (intro find_local_loop_spec [OF sub(1), of _ count]) simp_all
  then show ?thesis unfolding u sub2(2,5) sub(4) .
qed

lemma region_stage:
  assumes v: "valid_view v" "fits v lo n" and i: "i < 2 ^ 32"
  shows "map_option n_value
    (case RorkHookReadRecord (sub_view v lo n) 0 24 of None \<Rightarrow> None
     | Some info \<Rightarrow> if ucast (dcl_entriesCount m info) \<le> (of_nat i :: u64) then None
        else (case image_symbol_range m h (sub_view v lo n) info (of_nat i) of None \<Rightarrow> None
          | Some (a, b) \<Rightarrow> (case strings_view m (sub_view v lo n) info of None \<Rightarrow> None
              | Some sv \<Rightarrow> find_local_loop m (sub_view v lo n) (ucast (dcl_nlistOffset m info)) sv name b a)))
   = region_lookup m h v lo n i name"
proof -
  note sub = sub_view_simps [OF v]
  let ?info = "at v lo"
  let ?x = "unat (dcl_entriesOffset m ?info) + entry_size m h * i"
  have ui: "unat (of_nat i :: u64) = i" using i by (simp add: unat_of_nat)
  have rec: "RorkHookReadRecord (sub_view v lo n) 0 24 = (if 24 \<le> n then Some ?info else None)"
    by (simp add: ReadRecord_value [OF sub(1)] sub)
  have le: "ucast (dcl_entriesCount m ?info) \<le> (of_nat i :: u64) \<longleftrightarrow> unat (dcl_entriesCount m ?info) \<le> i"
    by (simp add: word_le_nat_alt ui)
  obtain start k where er: "entry_range m h (at v (lo + ?x)) = (start, k)" by fastforce
  have range: "image_symbol_range m h (sub_view v lo n) ?info (of_nat i) =
      (if ?x + entry_size m h \<le> n \<and> start + k \<le> unat (dcl_nlistCount m ?info)
       then Some (of_nat start, of_nat (start + k)) else None)"
    using i er by (simp add: image_symbol_range_value [OF sub(1)] ui sub Let_def del: of_nat_add)
  define sv where "sv = sub_view (sub_view v lo n) (unat (dcl_stringsOffset m ?info)) (unat (dcl_stringsSize m ?info))"
  have loop: "find_local_loop m (sub_view v lo n) (ucast (dcl_nlistOffset m ?info)) sv name
      (of_nat (start + k)) (of_nat start) =
    map_option (nlist_at m (at v (lo + unat (dcl_nlistOffset m ?info))))
      (find (symbol_matches m (at v (lo + unat (dcl_nlistOffset m ?info)))
         (at v (lo + unat (dcl_stringsOffset m ?info))) (unat (dcl_stringsSize m ?info)) name) [start..<start + k])"
    if "start + k \<le> unat (dcl_nlistCount m ?info)"
      "unat (dcl_nlistOffset m ?info) + 16 * unat (dcl_nlistCount m ?info) \<le> n"
      "unat (dcl_stringsOffset m ?info) + unat (dcl_stringsSize m ?info) \<le> n"
    using that by (intro region_loop [OF v sv_def])
  have strings: "strings_view m (sub_view v lo n) ?info =
      (if unat (dcl_nlistOffset m ?info) + 16 * unat (dcl_nlistCount m ?info) \<le> n \<and>
          unat (dcl_stringsOffset m ?info) + unat (dcl_stringsSize m ?info) \<le> n then Some sv else None)"
    by (simp add: strings_view_value [OF sub(1)] sub sv_def)
  show ?thesis
    unfolding region_lookup_def Let_def
    using loop by (auto simp: rec le range er strings option.map_comp comp_def not_less not_le simp del: of_nat_add)
qed

lemma index_not_max:
  assumes "i < 2 ^ 32"
  shows "(of_nat i :: u64) \<noteq> UINT64_MAX"
proof
  assume e: "(of_nat i :: u64) = UINT64_MAX"
  have "unat (of_nat i :: u64) = i" using assms by (simp add: unat_of_nat)
  moreover have "unat UINT64_MAX = 2 ^ 64 - 1" by (simp add: unsigned_minus_1_eq_mask mask_eq_exp_minus_1)
  ultimately show False using e assms by simp
qed

lemma cache_symbol_entry_value:
  assumes mv: "valid_view mv" and sv: "valid_view sv"
  shows "map_option n_value (cache_symbol_entry m mv sv path name) = cache_lookup m mv sv path name"
proof (cases "fits mv 0 456 \<and> fits sv 0 456 \<and> take 7 (dch_magic m (at mv 0)) = dyld_v1 \<and>
    take 7 (dch_magic m (at sv 0)) = dyld_v1")
  case False
  then show ?thesis
    by (auto simp: cache_symbol_entry_def cache_lookup_def ReadRecord_value [OF mv] ReadRecord_value [OF sv])
next
  case hdr: True
  obtain off cnt where loc: "image_location m (at mv 0) = (off, cnt)" by fastforce
  have rec: "RorkHookReadRecord mv 0 456 = Some (at mv 0)" "RorkHookReadRecord sv 0 456 = Some (at sv 0)"
    using hdr by (simp_all add: ReadRecord_value [OF mv] ReadRecord_value [OF sv])
  show ?thesis
  proof (cases "off \<noteq> 0 \<and> cnt \<noteq> 0 \<and> fits mv (unat off) (32 * unat cnt)")
    case False
    then show ?thesis
      using hdr by (auto simp: cache_symbol_entry_def cache_lookup_def rec image_table_value [OF mv] loc)
  next
    case tab: True
    have loop: "find_image_loop m mv (ucast off) (ucast cnt) path 0 =
        Some (case find (image_named m mv (unat off) path) [0..<unat cnt] of None \<Rightarrow> UINT64_MAX | Some i \<Rightarrow> of_nat i)"
      using find_image_loop_spec [OF mv, of off cnt 0] tab by simp
    show ?thesis
    proof (cases "find (image_named m mv (unat off) path) [0..<unat cnt]")
      case None
      then show ?thesis
        using hdr tab by (simp add: cache_symbol_entry_def cache_lookup_def rec image_table_value [OF mv] loc loop)
    next
      case (Some i)
      have c32: "unat cnt < 2 ^ 32" using unsigned_less [of cnt, where ?'a = nat] by simp
      then have i: "i < 2 ^ 32" using find_SomeD [OF Some] by simp
      have "(of_nat i :: u64) \<noteq> UINT64_MAX" by (rule index_not_max [OF i])
      then show ?thesis
        using hdr tab Some region_stage [OF sv local_region_fits i]
        by (cases "local_region m sv (at sv 0)")
           (auto simp: cache_symbol_entry_def cache_lookup_def rec image_table_value [OF mv] loc loop
             local_view_value)
    qed
  qed
qed

section \<open>The parser reads only inside its views\<close>

text \<open>A lookup depends on the contents of the two views only, neither on the rest of memory nor on
  where the views are mapped.\<close>

definition same_view :: "memory \<Rightarrow> RorkHookDataView \<Rightarrow> memory \<Rightarrow> RorkHookDataView \<Rightarrow> bool" where
  "same_view m v m' v' \<longleftrightarrow>
     dv_size v = dv_size v' \<and> same_bytes m (dv_bytes v) m' (dv_bytes v') (unat (dv_size v))"

lemma same_view_size: "same_view m v m' v' \<Longrightarrow> dv_size v' = dv_size v"
  by (simp add: same_view_def)

lemma same_view_fits: "same_view m v m' v' \<Longrightarrow> fits v' = fits v"
  by (simp add: same_view_def fits_def fun_eq_iff)

lemma same_view_at: "same_view m v m' v' \<Longrightarrow> fits v off n \<Longrightarrow> same_bytes m (at v off) m' (at v' off) n"
  unfolding same_view_def fits_def at_def by (intro same_sub_nat) auto

lemma same_cache_header:
  assumes "same_bytes m h m' h' 456"
  shows "dch_magic m h = dch_magic m' h'" "dch_mappingOffset m h = dch_mappingOffset m' h'"
    "image_location m h = image_location m' h'" "dch_localSymbolsOffset m h = dch_localSymbolsOffset m' h'"
    "dch_localSymbolsSize m h = dch_localSymbolsSize m' h'"
proof -
  show "dch_magic m h = dch_magic m' h'"
    using same_load_bytes [OF assms, of 16] by (simp add: layout_simps)
  show "dch_mappingOffset m h = dch_mappingOffset m' h'" "dch_localSymbolsOffset m h = dch_localSymbolsOffset m' h'"
    "dch_localSymbolsSize m h = dch_localSymbolsSize m' h'"
    using same_field32 [OF assms] same_field64 [OF assms] by (simp_all add: layout_simps)
  show "image_location m h = image_location m' h'"
    using same_field32 [OF assms] by (simp add: image_location_def layout_simps)
qed

lemma same_string_at:
  assumes "same_view m v m' v'"
  shows "string_at m v off str = string_at m' v' off str"
proof -
  have "load_bytes m (at v off) (Suc (length str)) = load_bytes m' (at v' off) (Suc (length str))"
    if "off + length str < unat (dv_size v')"
    by (rule same_load_bytes [OF same_view_at [OF assms, of off "Suc (length str)"]])
       (use that assms in \<open>auto simp: fits_def same_view_def\<close>)
  moreover have "dv_size v = dv_size v'" using assms by (simp add: same_view_def)
  ultimately show ?thesis unfolding string_at_def by (intro conj_cong refl) simp_all
qed

lemma same_image_named:
  assumes "same_view m v m' v'" "fits v off (32 * n)" "i < n"
  shows "image_named m v off path i = image_named m' v' off path i"
proof -
  have "same_bytes m (at v (off + 32 * i)) m' (at v' (off + 32 * i)) 32"
    using assms(2,3) by (intro same_view_at [OF assms(1)]) (simp add: fits_def)
  then have "dci_pathFileOffset m (at v (off + 32 * i)) = dci_pathFileOffset m' (at v' (off + 32 * i))"
    by (simp add: layout_simps same_field32)
  then show ?thesis by (simp add: image_named_def same_string_at [OF assms(1)])
qed

lemma same_entry_search:
  assumes "same_bytes m symbols m' symbols' (16 * cnt)" "same_bytes m strings m' strings' z" "k \<le> cnt"
  shows "map_option (\<lambda>j. n_value (nlist_at m symbols j)) (find (symbol_matches m symbols strings z name) [a..<k]) =
    map_option (\<lambda>j. n_value (nlist_at m' symbols' j)) (find (symbol_matches m' symbols' strings' z name) [a..<k])"
proof -
  note s = same_symbol_matches [OF assms(1,2)]
  have "find (symbol_matches m symbols strings z name) [a..<k] =
      find (symbol_matches m' symbols' strings' z name) [a..<k]"
    using assms(3) by (intro find_cong refl s(1)) auto
  then show ?thesis
    using s(2) assms(3)
    by (cases "find (symbol_matches m' symbols' strings' z name) [a..<k]") (auto dest: find_SomeD)
qed

lemma same_region_lookup:
  assumes h: "same_bytes m h m' h' 456" and v: "same_view m v m' v'" "fits v lo n"
  shows "region_lookup m h v lo n i name = region_lookup m' h' v' lo n i name"
proof (cases "n < 24")
  case False
  have sub: "same_bytes m (at v (lo + x)) m' (at v' (lo + x)) k" if "x + k \<le> n" for x k
    using that v(2) by (intro same_view_at [OF v(1)]) (simp add: fits_def)
  have info: "same_bytes m (at v lo) m' (at v' lo) 24" using sub [of 0 24] False by simp
  have es: "entry_size m h = entry_size m' h'" by (simp add: entry_size_def same_cache_header [OF h])
  have f: "dcl_entriesOffset m (at v lo) = dcl_entriesOffset m' (at v' lo)"
    "dcl_entriesCount m (at v lo) = dcl_entriesCount m' (at v' lo)"
    "dcl_nlistCount m (at v lo) = dcl_nlistCount m' (at v' lo)"
    "dcl_nlistOffset m (at v lo) = dcl_nlistOffset m' (at v' lo)"
    "dcl_stringsOffset m (at v lo) = dcl_stringsOffset m' (at v' lo)"
    "dcl_stringsSize m (at v lo) = dcl_stringsSize m' (at v' lo)"
    using same_field32 [OF info] same_load32 [OF info] by (simp_all add: layout_simps)
  have er: "entry_range m h (at v (lo + x)) = entry_range m' h' (at v' (lo + x))"
    if "\<not> n < x + entry_size m' h'" for x
    using that sub [of x "entry_size m' h'"] same_cache_header(2) [OF h]
    by (auto simp: entry_range_def entry_size_def layout_simps same_field32 split: if_splits)
  have fd: "map_option (\<lambda>j. n_value (nlist_at m (at v (lo + no)) j))
      (find (symbol_matches m (at v (lo + no)) (at v (lo + so)) z name) [a..<a + k]) =
    map_option (\<lambda>j. n_value (nlist_at m' (at v' (lo + no)) j))
      (find (symbol_matches m' (at v' (lo + no)) (at v' (lo + so)) z name) [a..<a + k])"
    if "\<not> (cnt < a + k \<or> n < no + 16 * cnt \<or> n < so + z)" for no so z a k cnt
    using that by (intro same_entry_search [of _ _ _ _ cnt] sub) auto
  show ?thesis
    unfolding region_lookup_def Let_def f es
    by (intro if_cong refl) (subst er, simp, auto simp only: split_beta intro!: if_cong fd)
qed (simp add: region_lookup_def)

lemma same_cache_lookup:
  assumes mv: "same_view m mv m' mv'" and sv: "same_view m sv m' sv'"
  shows "cache_lookup m mv sv path name = cache_lookup m' mv' sv' path name"
proof (cases "fits mv 0 456 \<and> fits sv 0 456")
  case True
  then have h: "same_bytes m (at mv 0) m' (at mv' 0) 456" "same_bytes m (at sv 0) m' (at sv' 0) 456"
    by (auto intro: same_view_at mv sv)
  obtain off cnt where loc: "image_location m' (at mv' 0) = (off, cnt)" by fastforce
  have fi: "find (image_named m mv (unat off) path) [0..<unat cnt] =
      find (image_named m' mv' (unat off) path) [0..<unat cnt]" if "fits mv (unat off) (32 * unat cnt)"
    using same_image_named [OF mv that] by (intro find_cong) auto
  have lr: "local_region m sv (at sv 0) = local_region m' sv' (at sv' 0)"
    unfolding local_region_def same_cache_header [OF h(2)] same_view_fits [OF sv] same_view_size [OF sv] by (rule refl)
  show ?thesis
    using fi loc same_region_lookup [OF h(1) sv local_region_fits, OF trans [OF lr]]
    by (auto simp: cache_lookup_def same_cache_header [OF h(1)] same_cache_header [OF h(2)] lr
        same_view_fits [OF mv] same_view_fits [OF sv] split: option.split)
qed (auto simp: cache_lookup_def same_view_fits [OF mv] same_view_fits [OF sv])

lemma FindSharedCacheSymbolInData_value:
  assumes "valid_view \<lparr>dv_bytes = mb, dv_size = mz\<rparr>" "valid_view \<lparr>dv_bytes = sb, dv_size = sz\<rparr>"
  shows "RorkHookFindSharedCacheSymbolInData pf s mb mz sb sz slide (Some path) (Some name) =
    (case cache_lookup (mem s) \<lparr>dv_bytes = mb, dv_size = mz\<rparr> \<lparr>dv_bytes = sb, dv_size = sz\<rparr> path name of
       None \<Rightarrow> 0
     | Some v \<Rightarrow> if unat slide + unat v < 2 ^ 64
                 then RorkHookSignPointerIfExecutable pf (world s) (slide + v) else 0)"
proof -
  have "mb \<noteq> 0" "sb \<noteq> 0" using assms by (simp_all add: valid_view_def)
  then show ?thesis
    unfolding cache_symbol_entry_value [OF assms, symmetric]
    by (auto simp: RorkHookFindSharedCacheSymbolInData_def max_minus_less add.commute not_less
        split: option.split)
qed

section \<open>Properties\<close>

text \<open>
  C7: The cache parser computes the specified lookup: image found by its install name in the image
  table of the main cache, its entry in the local-symbol region of the symbols cache (the 32-bit or
  the 64-bit layout, as the header says), the first section symbol with the name in that entry's
  range, and its value plus the slide when the sum is an address. Every other input gives null.
  (Hypotheses: the two byte ranges are non-null and do not wrap around the address space.)
\<close>

theorem FindSharedCacheSymbolInData_exact:
  assumes "valid_view \<lparr>dv_bytes = mb, dv_size = mz\<rparr>" "valid_view \<lparr>dv_bytes = sb, dv_size = sz\<rparr>"
  shows "RorkHookFindSharedCacheSymbolInData pf s mb mz sb sz slide (Some path) (Some name) =
    (case cache_lookup (mem s) \<lparr>dv_bytes = mb, dv_size = mz\<rparr> \<lparr>dv_bytes = sb, dv_size = sz\<rparr> path name of
       None \<Rightarrow> 0
     | Some v \<Rightarrow> if unat slide + unat v < 2 ^ 64
                 then RorkHookSignPointerIfExecutable pf (world s) (slide + v) else 0)"
  using assms by (rule FindSharedCacheSymbolInData_value)

text \<open>
  C30: The cache parser never depends on a byte outside the two ranges it was given: machines whose
  memories agree on them give the same result for every image path and symbol name, however
  malformed the cache is.
\<close>

theorem FindSharedCacheSymbolInData_reads_bounded:
  assumes "valid_view \<lparr>dv_bytes = mb, dv_size = mz\<rparr>" "valid_view \<lparr>dv_bytes = sb, dv_size = sz\<rparr>"
    and "world s = world s'" "agree (mem s) (mem s') mb (unat mz)" "agree (mem s) (mem s') sb (unat sz)"
  shows "RorkHookFindSharedCacheSymbolInData pf s mb mz sb sz slide path name =
    RorkHookFindSharedCacheSymbolInData pf s' mb mz sb sz slide path name"
proof (cases "\<exists>p nm. path = Some p \<and> name = Some nm")
  case True
  then obtain p nm where n: "path = Some p" "name = Some nm" by blast
  let ?mv = "\<lparr>dv_bytes = mb, dv_size = mz\<rparr>" and ?sv = "\<lparr>dv_bytes = sb, dv_size = sz\<rparr>"
  have "map_option n_value (cache_symbol_entry (mem s) ?mv ?sv p nm) =
      map_option n_value (cache_symbol_entry (mem s') ?mv ?sv p nm)"
    unfolding cache_symbol_entry_value [OF assms(1,2)]
    by (rule same_cache_lookup) (simp_all add: same_view_def assms(4,5) [unfolded agree_same])
  then show ?thesis
    using n assms(3)
    by (cases "cache_symbol_entry (mem s) ?mv ?sv p nm"; cases "cache_symbol_entry (mem s') ?mv ?sv p nm")
       (simp_all add: RorkHookFindSharedCacheSymbolInData_def)
qed (cases path; cases name; simp add: RorkHookFindSharedCacheSymbolInData_def)

section \<open>A sample cache\<close>

text \<open>A cache file with one image (\<open>/a\<close>) and one local symbol (\<open>_f\<close>), in the 64-bit layout, and two states
  with this file mapped that differ in a byte behind it.\<close>

definition cache_bytes :: "u8 list" where
  "cache_bytes =
     map of_char ''dyld_v1  arm64e'' @ [0] @ le_bytes 4 (456 :: u32) @ replicate 52 0 @
     le_bytes 8 (492 :: u64) @ le_bytes 8 (60 :: u64) @ replicate 360 0 @
     le_bytes 4 (456 :: u32) @ le_bytes 4 (1 :: u32) @
     replicate 24 0 @ le_bytes 4 (488 :: u32) @ replicate 4 0 @ [47, 97, 0, 0] @
     concat (map (le_bytes 4) [40 :: u32, 1, 56, 4, 24, 1]) @
     replicate 8 0 @ le_bytes 4 (0 :: u32) @ le_bytes 4 (1 :: u32) @
     le_bytes 4 (1 :: u32) @ [N_SECT, 1, 0, 0] @ le_bytes 8 (0x180000040 :: u64) @ [0, 95, 102, 0]"

lemma cache_bytes_literal [code]:
  "cache_bytes =
     [100, 121, 108, 100, 95, 118, 49, 32, 32, 97, 114, 109, 54, 52, 101, 0, 200, 1, 0, 0, 0, 0, 0,
      0, 0, 0, 0, 0, 0, 0, 0, 0, 0, 0, 0, 0, 0, 0, 0, 0, 0, 0, 0, 0, 0, 0, 0, 0, 0, 0, 0, 0, 0, 0, 0,
      0, 0, 0, 0, 0, 0, 0, 0, 0, 0, 0, 0, 0, 0, 0, 0, 0, 236, 1, 0, 0, 0, 0, 0, 0, 60, 0, 0, 0, 0, 0,
      0, 0, 0, 0, 0, 0, 0, 0, 0, 0, 0, 0, 0, 0, 0, 0, 0, 0, 0, 0, 0, 0, 0, 0, 0, 0, 0, 0, 0, 0, 0, 0,
      0, 0, 0, 0, 0, 0, 0, 0, 0, 0, 0, 0, 0, 0, 0, 0, 0, 0, 0, 0, 0, 0, 0, 0, 0, 0, 0, 0, 0, 0, 0, 0,
      0, 0, 0, 0, 0, 0, 0, 0, 0, 0, 0, 0, 0, 0, 0, 0, 0, 0, 0, 0, 0, 0, 0, 0, 0, 0, 0, 0, 0, 0, 0, 0,
      0, 0, 0, 0, 0, 0, 0, 0, 0, 0, 0, 0, 0, 0, 0, 0, 0, 0, 0, 0, 0, 0, 0, 0, 0, 0, 0, 0, 0, 0, 0, 0,
      0, 0, 0, 0, 0, 0, 0, 0, 0, 0, 0, 0, 0, 0, 0, 0, 0, 0, 0, 0, 0, 0, 0, 0, 0, 0, 0, 0, 0, 0, 0, 0,
      0, 0, 0, 0, 0, 0, 0, 0, 0, 0, 0, 0, 0, 0, 0, 0, 0, 0, 0, 0, 0, 0, 0, 0, 0, 0, 0, 0, 0, 0, 0, 0,
      0, 0, 0, 0, 0, 0, 0, 0, 0, 0, 0, 0, 0, 0, 0, 0, 0, 0, 0, 0, 0, 0, 0, 0, 0, 0, 0, 0, 0, 0, 0, 0,
      0, 0, 0, 0, 0, 0, 0, 0, 0, 0, 0, 0, 0, 0, 0, 0, 0, 0, 0, 0, 0, 0, 0, 0, 0, 0, 0, 0, 0, 0, 0, 0,
      0, 0, 0, 0, 0, 0, 0, 0, 0, 0, 0, 0, 0, 0, 0, 0, 0, 0, 0, 0, 0, 0, 0, 0, 0, 0, 0, 0, 0, 0, 0, 0,
      0, 0, 0, 0, 0, 0, 0, 0, 0, 0, 0, 0, 0, 0, 0, 0, 0, 0, 0, 0, 0, 0, 0, 0, 0, 0, 0, 0, 0, 0, 0, 0,
      0, 0, 0, 0, 0, 0, 0, 0, 0, 0, 0, 0, 0, 0, 0, 0, 0, 0, 0, 0, 0, 0, 0, 0, 0, 0, 0, 0, 0, 0, 0, 0,
      0, 0, 0, 0, 0, 0, 0, 0, 0, 0, 200, 1, 0, 0, 1, 0, 0, 0, 0, 0, 0, 0, 0, 0, 0, 0, 0, 0, 0, 0, 0,
      0, 0, 0, 0, 0, 0, 0, 0, 0, 0, 0, 232, 1, 0, 0, 0, 0, 0, 0, 47, 97, 0, 0, 40, 0, 0, 0, 1, 0, 0,
      0, 56, 0, 0, 0, 4, 0, 0, 0, 24, 0, 0, 0, 1, 0, 0, 0, 0, 0, 0, 0, 0, 0, 0, 0, 0, 0, 0, 0, 1, 0,
      0, 0, 1, 0, 0, 0, 14, 1, 0, 0, 64, 0, 0, 128, 1, 0, 0, 0, 0, 95, 102, 0]"
  by code_simp

definition cache_memory :: memory where
  "cache_memory = store_bytes (\<lambda>_. 0) 0x40000 cache_bytes"

lemma cache_lookup_sample:
  "cache_lookup cache_memory \<lparr>dv_bytes = 0x40000, dv_size = 552\<rparr> \<lparr>dv_bytes = 0x40000, dv_size = 552\<rparr>
     [47, 97] [95, 102] = Some 0x180000040"
  by code_simp

definition cache_state :: "u8 \<Rightarrow> vm_state machine" where
  "cache_state b =
     \<lparr>mem = cache_memory(0x44000 := b), world = \<lparr>page_prot = (\<lambda>q. 1), pinned = [], tpro_register = 0\<rparr>,
      events = []\<rparr>"

lemma cache_state_agree: "agree cache_memory (mem (cache_state b)) 0x40000 (unat (552 :: u64))"
  unfolding cache_state_def machine.simps by (rule agree_update) simp

lemma cache_state_lookup:
  "cache_lookup (mem (cache_state b)) \<lparr>dv_bytes = 0x40000, dv_size = 552\<rparr> \<lparr>dv_bytes = 0x40000, dv_size = 552\<rparr>
     [47, 97] [95, 102] = Some 0x180000040"
proof -
  have "same_view cache_memory \<lparr>dv_bytes = 0x40000, dv_size = 552\<rparr> (mem (cache_state b)) \<lparr>dv_bytes = 0x40000, dv_size = 552\<rparr>"
    using cache_state_agree [of b, unfolded agree_same] by (simp add: same_view_def)
  from same_cache_lookup [OF this this] cache_lookup_sample show ?thesis by simp
qed

lemma cache_view: "valid_view \<lparr>dv_bytes = 0x40000, dv_size = 552\<rparr>"
  by (simp add: valid_view_def)

theorem FindSharedCacheSymbolInData_exact_witness:
  "RorkHookFindSharedCacheSymbolInData (ref_platform False) (cache_state 1) 0x40000 552 0x40000 552 0x8000
     (Some [47, 97]) (Some [95, 102]) = 0x180008040"
  using FindSharedCacheSymbolInData_exact [OF cache_view cache_view, of "ref_platform False" "cache_state 1" "0x8000"
      "[47, 97]" "[95, 102]"]
  by (simp add: cache_state_lookup RorkHookSignPointerIfExecutable_def) (simp add: ref_platform_def)

theorem FindSharedCacheSymbolInData_reads_bounded_witness:
  "RorkHookFindSharedCacheSymbolInData (ref_platform False) (cache_state 1) 0x40000 552 0x40000 552 0x8000
     (Some [47, 97]) (Some [95, 102]) =
   RorkHookFindSharedCacheSymbolInData (ref_platform False) (cache_state 2) 0x40000 552 0x40000 552 0x8000
     (Some [47, 97]) (Some [95, 102])"
  by (rule FindSharedCacheSymbolInData_reads_bounded [OF cache_view cache_view])
     (use cache_state_agree [of 1] cache_state_agree [of 2] in \<open>simp_all add: agree_def cache_state_def [of 1] cache_state_def [of 2]\<close>)

end
