(* ===== verification/Cache_Files.thy ===== *)
theory Cache_Files
  imports Shared_Cache
begin

text \<open>
  The files of the dyld shared cache (\<open>Sources/RorkHook/RorkHookSharedCache.c\<close>: \<open>RorkHookMapFile\<close>,
  \<open>RorkHookUnmapFile\<close>, \<open>RorkHookLocateSharedCache\<close>, \<open>RorkHookFindSharedCacheSymbolAtPath\<close> and
  \<open>RorkHookFindSharedCacheSymbol\<close>).

  The file system, the environment and dyld are parameters (\<open>filesystem\<close>). Opening, closing, mapping
  and unmapping a file are events of the trace.
\<close>

section \<open>Files\<close>

text \<open>What the sources take from the system: opening, status, mapping and closing of files, access
  checks, the environment, and the cache path dyld reports (\<open>None\<close> when the symbol is missing or it
  returns null).\<close>

record 'w filesystem =
  fs_open :: "'w \<Rightarrow> cstring \<Rightarrow> int \<times> 'w"
  fs_fstat :: "'w \<Rightarrow> int \<Rightarrow> (bool \<times> i64) option"
  fs_mmap :: "'w \<Rightarrow> memory \<Rightarrow> int \<Rightarrow> u64 \<Rightarrow> u64 option \<times> memory \<times> 'w"
  fs_close :: "'w \<Rightarrow> int \<Rightarrow> 'w"
  fs_munmap :: "'w \<Rightarrow> u64 \<Rightarrow> u64 \<Rightarrow> 'w"
  fs_readable :: "'w \<Rightarrow> cstring \<Rightarrow> bool"
  fs_searchable :: "'w \<Rightarrow> cstring \<Rightarrow> bool"
  fs_getenv :: "'w \<Rightarrow> cstring \<Rightarrow> cstring option"
  fs_dyld_path :: "'w \<Rightarrow> cstring option"

record RorkHookFileMapping =
  fm_bytes :: u64
  fm_size :: u64

abbreviation no_mapping :: RorkHookFileMapping where "no_mapping \<equiv> \<lparr>fm_bytes = 0, fm_size = 0\<rparr>"

definition sys_close :: "'w filesystem \<Rightarrow> int \<Rightarrow> 'w machine \<Rightarrow> 'w machine" where
  "sys_close fs fd s = emit (FileClose fd) (s\<lparr>world := fs_close fs (world s) fd\<rparr>)"

definition RorkHookMapFile ::
  "'w filesystem \<Rightarrow> cstring option \<Rightarrow> RorkHookFileMapping outp \<Rightarrow> 'w machine \<Rightarrow>
     bool \<times> RorkHookFileMapping outp \<times> 'w machine" where
  "RorkHookMapFile fs path mappingOut s =
     (case mappingOut of
        None \<Rightarrow> (False, None, s)
      | Some _ \<Rightarrow>
          (case path of
             None \<Rightarrow> (False, Some no_mapping, s)
           | Some p \<Rightarrow>
               (case fs_open fs (world s) p of (descriptor, w) \<Rightarrow>
                  if descriptor < 0 then (False, Some no_mapping, s\<lparr>world := w\<rparr>)
                  else
                    let s = emit (FileOpen descriptor) (s\<lparr>world := w\<rparr>) in
                    (case fs_fstat fs (world s) descriptor of
                       Some (regular, st_size) \<Rightarrow>
                         if regular \<and> 0 <s st_size then
                           let len = st_size in
                           (case fs_mmap fs (world s) (mem s) descriptor len of
                              (None, m, w) \<Rightarrow>
                                (False, Some no_mapping, sys_close fs descriptor (s\<lparr>mem := m, world := w\<rparr>))
                            | (Some bytes, m, w) \<Rightarrow>
                                (True, Some \<lparr>fm_bytes = bytes, fm_size = len\<rparr>,
                                 sys_close fs descriptor
                                   (emit (FileMap bytes len) (s\<lparr>mem := m, world := w\<rparr>))))
                         else (False, Some no_mapping, sys_close fs descriptor s)
                     | None \<Rightarrow> (False, Some no_mapping, sys_close fs descriptor s)))))"

definition RorkHookUnmapFile :: "'w filesystem \<Rightarrow> RorkHookFileMapping \<Rightarrow> 'w machine \<Rightarrow> 'w machine" where
  "RorkHookUnmapFile fs mapping s =
     (if fm_bytes mapping \<noteq> 0 \<and> fm_size mapping \<noteq> 0
      then emit (FileUnmap (fm_bytes mapping) (fm_size mapping))
             (s\<lparr>world := fs_munmap fs (world s) (fm_bytes mapping) (fm_size mapping)\<rparr>)
      else s)"

abbreviation PATH_MAX :: nat where "PATH_MAX \<equiv> 1024"

definition RorkHookFindSharedCacheSymbolAtPath ::
  "'w platform \<Rightarrow> 'w filesystem \<Rightarrow> cstring option \<Rightarrow> u64 \<Rightarrow> cstring option \<Rightarrow> cstring option \<Rightarrow>
     'w machine \<Rightarrow> u64 \<times> 'w machine" where
  "RorkHookFindSharedCacheSymbolAtPath pf fs mainPath slide imagePath symbolName s =
     (if mainPath = None \<or> imagePath = None \<or> symbolName = None then (0, s)
      else
        case RorkHookMapFile fs mainPath (Some no_mapping) s of
          (True, Some mainMapping, s) \<Rightarrow>
            let symbolsPath = the mainPath @ map of_char ''.symbols'';
                written = length symbolsPath
            in
            (case (if written < PATH_MAX then RorkHookMapFile fs (Some symbolsPath) (Some no_mapping) s
                   else (False, Some no_mapping, s)) of
               (hasSidecar, sidecar, s) \<Rightarrow>
                 let symbolsMapping = (case (hasSidecar, sidecar) of
                                         (True, Some mapping) \<Rightarrow> mapping | _ \<Rightarrow> mainMapping);
                     resolved = RorkHookFindSharedCacheSymbolInData pf s
                       (fm_bytes mainMapping) (fm_size mainMapping)
                       (fm_bytes symbolsMapping) (fm_size symbolsMapping) slide imagePath symbolName;
                     s = (if hasSidecar then RorkHookUnmapFile fs symbolsMapping s else s);
                     s = RorkHookUnmapFile fs mainMapping s
                 in (resolved, s))
        | (_, _, s) \<Rightarrow> (0, s))"

section \<open>Locating the cache\<close>

text \<open>The static buffer and the once token.\<close>

record cache_path_state =
  cachePath :: cstring
  onceToken :: bool

abbreviation cryptexCacheDirectory :: cstring where
  "cryptexCacheDirectory \<equiv>
     map of_char ''/private/preboot/Cryptexes/OS/System/Library/Caches/com.apple.dyld''"
abbreviation cryptexCacheBasePath :: cstring where
  "cryptexCacheBasePath \<equiv>
     map of_char ''/private/preboot/Cryptexes/OS/System/Library/Caches/com.apple.dyld/dyld_shared_cache''"
abbreviation systemCacheDirectory :: cstring where
  "systemCacheDirectory \<equiv> map of_char ''/System/Library/Caches/com.apple.dyld''"
abbreviation systemCacheBasePath :: cstring where
  "systemCacheBasePath \<equiv> map of_char ''/System/Library/Caches/com.apple.dyld/dyld_shared_cache''"
abbreviation suffixes :: "cstring list" where
  "suffixes \<equiv> [map of_char ''_arm64e'', map of_char ''_arm64'', map of_char ''_armv7s'', map of_char ''_armv7'']"

text \<open>The suffix loop: the first suffix that fits the buffer and names a readable file.\<close>

fun probe_suffixes :: "'w filesystem \<Rightarrow> 'w \<Rightarrow> cstring \<Rightarrow> cstring list \<Rightarrow> cstring" where
  "probe_suffixes fs w base [] = []"
| "probe_suffixes fs w base (suffix # rest) =
     (let path = base @ suffix in
      if length path < PATH_MAX \<and> fs_readable fs w path then path
      else probe_suffixes fs w base rest)"

definition locate_once :: "'w filesystem \<Rightarrow> 'w \<Rightarrow> cstring" where
  "locate_once fs w =
     (let active = (case fs_dyld_path fs w of
                      Some activePath \<Rightarrow>
                        if length activePath < PATH_MAX \<and> fs_readable fs w activePath
                        then Some activePath else None
                    | None \<Rightarrow> None)
      in
      case active of
        Some path \<Rightarrow> path
      | None \<Rightarrow>
          (case (fs_getenv fs w (map of_char ''DYLD_SHARED_REGION''),
                 fs_getenv fs w (map of_char ''DYLD_SHARED_CACHE_DIR'')) of
             (sharedRegion, sharedCacheDir) \<Rightarrow>
               if sharedRegion = Some (map of_char ''private'') \<and> sharedCacheDir \<noteq> None then
                 let path = the sharedCacheDir @ map of_char ''/dyld_shared_cache'' in
                 if PATH_MAX \<le> length path then [] else probe_suffixes fs w path suffixes
               else if fs_searchable fs w cryptexCacheDirectory
               then probe_suffixes fs w cryptexCacheBasePath suffixes
               else if fs_searchable fs w systemCacheDirectory
               then probe_suffixes fs w systemCacheBasePath suffixes
               else []))"

definition RorkHookLocateSharedCache ::
  "'w filesystem \<Rightarrow> 'w \<Rightarrow> cache_path_state \<Rightarrow> cstring \<times> cache_path_state" where
  "RorkHookLocateSharedCache fs w c =
     (let c = (if onceToken c then c else c\<lparr>cachePath := locate_once fs w, onceToken := True\<rparr>)
      in (cachePath c, c))"

definition RorkHookFindSharedCacheSymbol ::
  "'w platform \<Rightarrow> 'w filesystem \<Rightarrow> cstring option \<Rightarrow> cstring option \<Rightarrow> cache_path_state \<Rightarrow> 'w machine \<Rightarrow>
     u64 \<times> cache_path_state \<times> 'w machine" where
  "RorkHookFindSharedCacheSymbol pf fs imagePath symbolName c s =
     (if imagePath = None \<or> symbolName = None then (0, c, s)
      else
        case RorkHookLocateSharedCache fs (world s) c of
          (mainPath, c) \<Rightarrow>
            if mainPath = [] then (0, c, s)
            else
              (case RorkHookFindSharedCacheSymbolAtPath pf fs (Some mainPath)
                      (RorkHookSharedCacheSlide pf s) imagePath symbolName s of
                 (resolved, s) \<Rightarrow> (resolved, c, s)))"

section \<open>Resources\<close>

fun opened :: "event list \<Rightarrow> int list" where
  "opened [] = []"
| "opened (FileOpen fd # es) = fd # opened es"
| "opened (_ # es) = opened es"

fun closed :: "event list \<Rightarrow> int list" where
  "closed [] = []"
| "closed (FileClose fd # es) = fd # closed es"
| "closed (_ # es) = closed es"

fun mapped_ranges :: "event list \<Rightarrow> (u64 \<times> u64) list" where
  "mapped_ranges [] = []"
| "mapped_ranges (FileMap a n # es) = (a, n) # mapped_ranges es"
| "mapped_ranges (_ # es) = mapped_ranges es"

fun unmapped_ranges :: "event list \<Rightarrow> (u64 \<times> u64) list" where
  "unmapped_ranges [] = []"
| "unmapped_ranges (FileUnmap a n # es) = (a, n) # unmapped_ranges es"
| "unmapped_ranges (_ # es) = unmapped_ranges es"

text \<open>A successful \<open>mmap\<close> with a null hint does not return the null page.\<close>

definition mmap_nonnull :: "'w filesystem \<Rightarrow> bool" where
  "mmap_nonnull fs \<longleftrightarrow> (\<forall>w m fd n. fst (fs_mmap fs w m fd n) \<noteq> Some 0)"

text \<open>The four ways through \<open>RorkHookMapFile\<close>, with the system calls made on each.\<close>

lemma MapFile_paths:
  obtains (unopened) fd w where "fs_open fs (world s) p = (fd, w)" "fd < 0"
      "RorkHookMapFile fs (Some p) (Some old) s = (False, Some no_mapping, s\<lparr>world := w\<rparr>)"
  | (unsuitable) fd w where "fs_open fs (world s) p = (fd, w)" "0 \<le> fd"
      "RorkHookMapFile fs (Some p) (Some old) s =
         (False, Some no_mapping, sys_close fs fd (emit (FileOpen fd) (s\<lparr>world := w\<rparr>)))"
  | (unmapped) fd w n m' w' where "fs_open fs (world s) p = (fd, w)" "0 \<le> fd"
      "fs_mmap fs w (mem s) fd n = (None, m', w')"
      "RorkHookMapFile fs (Some p) (Some old) s =
         (False, Some no_mapping, sys_close fs fd (emit (FileOpen fd) (s\<lparr>mem := m', world := w'\<rparr>)))"
  | (mapped) fd w n b m' w' where "fs_open fs (world s) p = (fd, w)" "0 \<le> fd"
      "fs_fstat fs w fd = Some (True, n)" "0 <s n" "fs_mmap fs w (mem s) fd n = (Some b, m', w')"
      "RorkHookMapFile fs (Some p) (Some old) s =
         (True, Some \<lparr>fm_bytes = b, fm_size = n\<rparr>,
          sys_close fs fd (emit (FileMap b n) (emit (FileOpen fd) (s\<lparr>mem := m', world := w'\<rparr>))))"
proof -
  obtain fd w where o: "fs_open fs (world s) p = (fd, w)" by fastforce
  consider "fd < 0" | "0 \<le> fd" "\<nexists>n. fs_fstat fs w fd = Some (True, n) \<and> 0 <s n"
    | n where "0 \<le> fd" "fs_fstat fs w fd = Some (True, n)" "0 <s n" by fastforce
  then show thesis
  proof cases
    case 1
    with o show thesis by (intro unopened) (auto simp: RorkHookMapFile_def)
  next
    case 2
    with o show thesis by (intro unsuitable) (auto simp: RorkHookMapFile_def Let_def split: option.split)
  next
    case (3 n)
    obtain r m' w' where mm: "fs_mmap fs w (mem s) fd n = (r, m', w')" by (metis prod_cases3)
    show thesis
    proof (cases r)
      case None
      with o 3 mm show thesis by (intro unmapped) (auto simp: RorkHookMapFile_def Let_def emit_def intro!: arg_cong [of _ _ "sys_close fs fd"])
    next
      case (Some b)
      with o 3 mm show thesis by (intro mapped) (auto simp: RorkHookMapFile_def Let_def emit_def intro!: arg_cong [of _ _ "sys_close fs fd"])
    qed
  qed
qed

lemma MapFile_cases:
  obtains (failed) s' es where "RorkHookMapFile fs p (Some no_mapping) s = (False, Some no_mapping, s')"
      "events s' = events s @ es" "opened es = closed es" "mapped_ranges es = []" "unmapped_ranges es = []"
  | (mapped) s' b n fd where "RorkHookMapFile fs p (Some no_mapping) s =
      (True, Some \<lparr>fm_bytes = b, fm_size = n\<rparr>, s')" "n \<noteq> 0" "mmap_nonnull fs \<Longrightarrow> b \<noteq> 0"
      "events s' = events s @ [FileOpen fd, FileMap b n, FileClose fd]"
proof (cases p)
  case None
  then show thesis using failed [of s "[]"] by (simp add: RorkHookMapFile_def)
next
  case (Some path)
  show thesis
  proof (cases rule: MapFile_paths [of fs s path no_mapping])
    case (unopened fd w)
    then show thesis using failed [of "s\<lparr>world := w\<rparr>" "[]"] Some by simp
  next
    case (unsuitable fd w)
    then show thesis using failed [of _ "[FileOpen fd, FileClose fd]"] Some by (simp add: sys_close_def)
  next
    case (unmapped fd w n m' w')
    then show thesis using failed [of _ "[FileOpen fd, FileClose fd]"] Some by (simp add: sys_close_def)
  next
    case run: (mapped fd w n b m' w')
    have "n \<noteq> 0" using run(4) by (auto simp: word_sless_alt)
    moreover have "mmap_nonnull fs \<Longrightarrow> b \<noteq> 0"
      using run(5) unfolding mmap_nonnull_def by (metis fst_conv)
    ultimately show thesis using mapped [of b n] run(6) Some by (simp add: sys_close_def)
  qed
qed

lemma resource_append:
  "opened (es @ fs) = opened es @ opened fs" "closed (es @ fs) = closed es @ closed fs"
  "mapped_ranges (es @ fs) = mapped_ranges es @ mapped_ranges fs"
  "unmapped_ranges (es @ fs) = unmapped_ranges es @ unmapped_ranges fs"
  by (induction es rule: opened.induct) simp_all

definition released :: "event list \<Rightarrow> bool" where
  "released es \<longleftrightarrow> closed es = opened es \<and> unmapped_ranges es = rev (mapped_ranges es)"

lemma UnmapFile_events:
  "b \<noteq> 0 \<Longrightarrow> n \<noteq> 0 \<Longrightarrow>
     events (RorkHookUnmapFile fs \<lparr>fm_bytes = b, fm_size = n\<rparr> s) = events s @ [FileUnmap b n]"
  by (simp add: RorkHookUnmapFile_def)

text \<open>The attempt to map the sidecar, and the rest of the lookup once the main file is mapped.\<close>

definition sidecar_attempt ::
  "'w filesystem \<Rightarrow> cstring \<Rightarrow> 'w machine \<Rightarrow> bool \<times> RorkHookFileMapping outp \<times> 'w machine" where
  "sidecar_attempt fs path s =
     (if length (path @ map of_char ''.symbols'') < PATH_MAX
      then RorkHookMapFile fs (Some (path @ map of_char ''.symbols'')) (Some no_mapping) s
      else (False, Some no_mapping, s))"

lemma AtPath_run:
  assumes "RorkHookMapFile fs (Some path) (Some no_mapping) s = (True, Some mapping, s1)"
    and "sidecar_attempt fs path s1 = (has_side, out, s2)"
    and "symbols = (case (has_side, out) of (True, Some side) \<Rightarrow> side | _ \<Rightarrow> mapping)"
  shows "RorkHookFindSharedCacheSymbolAtPath pf fs (Some path) slide (Some img) (Some name) s =
    (RorkHookFindSharedCacheSymbolInData pf s2 (fm_bytes mapping) (fm_size mapping)
       (fm_bytes symbols) (fm_size symbols) slide (Some img) (Some name),
     RorkHookUnmapFile fs mapping (if has_side then RorkHookUnmapFile fs symbols s2 else s2))"
  unfolding RorkHookFindSharedCacheSymbolAtPath_def Let_def assms(1,3) option.sel
  by (simp only: option.distinct simp_thms if_False prod.case bool.case option.case
      sidecar_attempt_def [symmetric] assms(2))

lemma sidecar_cases:
  assumes "mmap_nonnull fs" "sidecar_attempt fs path s = (has_side, out, s')"
  obtains (none) es where "\<not> has_side" "events s' = events s @ es" "opened es = closed es"
      "mapped_ranges es = []" "unmapped_ranges es = []"
    | (some) b n fd where "has_side" "out = Some \<lparr>fm_bytes = b, fm_size = n\<rparr>" "b \<noteq> 0" "n \<noteq> 0"
      "events s' = events s @ [FileOpen fd, FileMap b n, FileClose fd]"
proof (cases "length (path @ map of_char ''.symbols'' :: cstring) < PATH_MAX")
  case False
  then show thesis using none [of "[]"] assms(2) by (auto simp: sidecar_attempt_def)
next
  case True
  then have "RorkHookMapFile fs (Some (path @ map of_char ''.symbols'')) (Some no_mapping) s = (has_side, out, s')"
    using assms(2) by (simp add: sidecar_attempt_def)
  then show thesis
    by (cases rule: MapFile_cases [of fs "Some (path @ map of_char ''.symbols'')" s])
       (use assms(1) none some in auto)
qed

lemma AtPath_released:
  assumes nn: "mmap_nonnull fs"
  shows "\<exists>es. events (snd (RorkHookFindSharedCacheSymbolAtPath pf fs p slide img name s)) = events s @ es \<and> released es"
proof (cases "p = None \<or> img = None \<or> name = None")
  case True
  then show ?thesis by (auto simp: RorkHookFindSharedCacheSymbolAtPath_def released_def)
next
  case False
  then obtain path i nm where some: "p = Some path" "img = Some i" "name = Some nm" by (cases p; cases img; cases name) auto
  show ?thesis
  proof (cases rule: MapFile_cases [of fs p s])
    case (failed s' es)
    with False show ?thesis
      by (intro exI [of _ es]) (auto simp: RorkHookFindSharedCacheSymbolAtPath_def released_def)
  next
    case (mapped s1 b n fd)
    have bn: "b \<noteq> 0" "n \<noteq> 0" using mapped nn by auto
    obtain has_side out s2 where sd: "sidecar_attempt fs path s1 = (has_side, out, s2)" by (metis prod_cases3)
    note run = AtPath_run [OF mapped(1) [unfolded some(1)] sd refl, of pf slide i nm]
    show ?thesis
    proof (cases rule: sidecar_cases [OF nn sd])
      case (1 es)
      then show ?thesis
        using run mapped(4) bn some
        by (intro exI [of _ "[FileOpen fd, FileMap b n, FileClose fd] @ es @ [FileUnmap b n]"])
           (simp add: UnmapFile_events released_def resource_append)
    next
      case (2 b2 n2 fd2)
      then show ?thesis
        using run mapped(4) bn some
        by (intro exI [of _ "[FileOpen fd, FileMap b n, FileClose fd, FileOpen fd2, FileMap b2 n2, FileClose fd2,
              FileUnmap b2 n2, FileUnmap b n]"])
           (simp add: UnmapFile_events released_def)
    qed
  qed
qed

section \<open>The path of the cache\<close>

text \<open>The candidates in the order in which they are tried: the path dyld reports, then a base path (from
  the environment for a private cache, otherwise the first directory that can be searched) with each
  suffix. A candidate is taken when it fits the buffer and is readable.\<close>

definition system_bases :: "'w filesystem \<Rightarrow> 'w \<Rightarrow> cstring list" where
  "system_bases fs w =
     (if fs_searchable fs w cryptexCacheDirectory then [cryptexCacheBasePath]
      else if fs_searchable fs w systemCacheDirectory then [systemCacheBasePath] else [])"

definition cache_bases :: "'w filesystem \<Rightarrow> 'w \<Rightarrow> cstring list" where
  "cache_bases fs w =
     (case (fs_getenv fs w (map of_char ''DYLD_SHARED_REGION''), fs_getenv fs w (map of_char ''DYLD_SHARED_CACHE_DIR'')) of
        (Some region, Some dir) \<Rightarrow>
          if region = map of_char ''private'' then [dir @ map of_char ''/dyld_shared_cache'']
          else system_bases fs w
      | _ \<Rightarrow> system_bases fs w)"

definition cache_candidates :: "'w filesystem \<Rightarrow> 'w \<Rightarrow> cstring list" where
  "cache_candidates fs w =
     (case fs_dyld_path fs w of None \<Rightarrow> [] | Some p \<Rightarrow> [p]) @
     concat (map (\<lambda>base. map ((@) base) suffixes) (cache_bases fs w))"

definition usable_cache :: "'w filesystem \<Rightarrow> 'w \<Rightarrow> cstring \<Rightarrow> bool" where
  "usable_cache fs w p \<longleftrightarrow> length p < PATH_MAX \<and> fs_readable fs w p"

definition first_usable :: "'w filesystem \<Rightarrow> 'w \<Rightarrow> cstring list \<Rightarrow> cstring" where
  "first_usable fs w ps = (case find (usable_cache fs w) ps of None \<Rightarrow> [] | Some p \<Rightarrow> p)"

lemma probe_suffixes_first: "probe_suffixes fs w base sfx = first_usable fs w (map ((@) base) sfx)"
  by (induction sfx) (auto simp: first_usable_def usable_cache_def Let_def)

lemma first_usable_none: "(\<And>p. p \<in> set ps \<Longrightarrow> \<not> usable_cache fs w p) \<Longrightarrow> first_usable fs w ps = []"
  by (auto simp: first_usable_def find_None_iff split: option.split dest: find_SomeD)

lemma long_base_unusable:
  "PATH_MAX \<le> length base \<Longrightarrow> first_usable fs w (map ((@) base) sfx) = []"
  by (rule first_usable_none) (auto simp: usable_cache_def)

lemma locate_once_first: "locate_once fs w = first_usable fs w (cache_candidates fs w)"
proof (cases "\<exists>p. fs_dyld_path fs w = Some p \<and> usable_cache fs w p")
  case True
  then show ?thesis by (auto simp: locate_once_def cache_candidates_def first_usable_def usable_cache_def)
next
  case False
  then have none: "(case fs_dyld_path fs w of
      Some p \<Rightarrow> if length p < PATH_MAX \<and> fs_readable fs w p then Some p else None | None \<Rightarrow> None) = None"
    by (auto simp: usable_cache_def split: option.split)
  have rest: "first_usable fs w (cache_candidates fs w) =
      first_usable fs w (concat (map (\<lambda>base. map ((@) base) suffixes) (cache_bases fs w)))"
    using False by (auto simp: cache_candidates_def first_usable_def split: option.split)
  have single: "concat (map f [x]) = f x" for f :: "cstring \<Rightarrow> cstring list" and x by simp
  have none_usable: "first_usable fs w (concat (map f [])) = []" for f :: "cstring \<Rightarrow> cstring list"
    by (simp add: first_usable_def)
  show ?thesis
    unfolding rest locate_once_def Let_def none option.case prod.case probe_suffixes_first
    by (cases "fs_getenv fs w (map of_char ''DYLD_SHARED_REGION'')";
        cases "fs_getenv fs w (map of_char ''DYLD_SHARED_CACHE_DIR'')")
      (simp_all add: cache_bases_def system_bases_def single none_usable long_base_unusable del: list.map)
qed

section \<open>Contents of the files\<close>

text \<open>
  Documented behaviour of the file system, for observations of its state: the contents of the file at
  a path, the contents behind an open descriptor, and the live mappings. Opening yields a descriptor
  of the file at the path, \<open>fstat\<close> reports its length, a successful \<open>mmap\<close> of that length makes its bytes
  visible in a fresh non-null range and leaves the other mappings alone, and none of the calls
  changes a file. Nothing is assumed about when a call succeeds.
\<close>

record 'w file_ghost =
  content :: "'w \<Rightarrow> cstring \<Rightarrow> u8 list"
  open_file :: "'w \<Rightarrow> int \<Rightarrow> u8 list"
  live_maps :: "'w \<Rightarrow> (u64 \<times> u64) list"

definition keeps_files :: "'w file_ghost \<Rightarrow> 'w \<Rightarrow> 'w \<Rightarrow> bool" where
  "keeps_files g w w' \<longleftrightarrow> content g w' = content g w \<and> set (live_maps g w) \<subseteq> set (live_maps g w')"

definition keeps_maps :: "'w file_ghost \<Rightarrow> 'w \<Rightarrow> memory \<Rightarrow> memory \<Rightarrow> bool" where
  "keeps_maps g w m m' \<longleftrightarrow> (\<forall>(b, n) \<in> set (live_maps g w). agree m m' b (unat n))"

definition file_law :: "'w filesystem \<Rightarrow> 'w file_ghost \<Rightarrow> bool" where
  "file_law fs g \<longleftrightarrow>
     (\<forall>w p. case fs_open fs w p of (fd, w') \<Rightarrow>
        keeps_files g w w' \<and> (0 \<le> fd \<longrightarrow> open_file g w' fd = content g w p)) \<and>
     (\<forall>w fd n. fs_fstat fs w fd = Some (True, n) \<longrightarrow> 0 <s n \<longrightarrow> unat n = length (open_file g w fd)) \<and>
     (\<forall>w m fd n. case fs_mmap fs w m fd n of (r, m', w') \<Rightarrow>
        keeps_files g w w' \<and> keeps_maps g w m m' \<and>
        (\<forall>b. r = Some b \<longrightarrow> b \<noteq> 0 \<and> unat b + unat n < 2 ^ 64 \<and> (b, n) \<in> set (live_maps g w') \<and>
           (unat n = length (open_file g w fd) \<longrightarrow> load_bytes m' b (unat n) = open_file g w fd))) \<and>
     (\<forall>w fd. keeps_files g w (fs_close fs w fd))"

lemma keeps_files_trans: "keeps_files g w w' \<Longrightarrow> keeps_files g w' w'' \<Longrightarrow> keeps_files g w w''"
  by (auto simp: keeps_files_def)

lemma file_law_open:
  assumes "file_law fs g" "fs_open fs w p = (fd, w')"
  shows "keeps_files g w w'" "0 \<le> fd \<Longrightarrow> open_file g w' fd = content g w p"
  using assms(1) [unfolded file_law_def, THEN conjunct1, THEN spec, THEN spec, of w p] assms(2) by simp_all

lemma file_law_fstat:
  assumes "file_law fs g" "fs_fstat fs w fd = Some (True, n)" "0 <s n"
  shows "unat n = length (open_file g w fd)"
  using assms(1) [unfolded file_law_def, THEN conjunct2, THEN conjunct1] assms(2,3) by simp

lemma file_law_mmap:
  assumes "file_law fs g" "fs_mmap fs w m fd n = (r, m', w')"
  shows "keeps_files g w w'" "keeps_maps g w m m'"
    and "r = Some b \<Longrightarrow> b \<noteq> 0 \<and> unat b + unat n < 2 ^ 64 \<and> (b, n) \<in> set (live_maps g w')"
    and "r = Some b \<Longrightarrow> unat n = length (open_file g w fd) \<Longrightarrow> load_bytes m' b (unat n) = open_file g w fd"
  using assms(1) [unfolded file_law_def, THEN conjunct2, THEN conjunct2, THEN conjunct1, THEN spec [of _ w],
      THEN spec [of _ m], THEN spec [of _ fd], THEN spec [of _ n]] assms(2) by simp_all

lemma file_law_close: "file_law fs g \<Longrightarrow> keeps_files g w (fs_close fs w fd)"
  by (simp add: file_law_def)

text \<open>A view that holds the bytes of a file.\<close>

definition holds_file :: "memory \<Rightarrow> RorkHookDataView \<Rightarrow> u8 list \<Rightarrow> bool" where
  "holds_file m v bs \<longleftrightarrow>
     valid_view v \<and> unat (dv_size v) = length bs \<and> length bs < 2 ^ 63 \<and> load_bytes m (dv_bytes v) (length bs) = bs"

lemma word_nat_cong: "unat (w :: u64) = k \<Longrightarrow> w = of_nat k"
  by auto

lemma holds_file_kept:
  assumes "holds_file m \<lparr>dv_bytes = b, dv_size = n\<rparr> bs" "(b, n) \<in> set (live_maps g w)" "keeps_maps g w m m'"
  shows "holds_file m' \<lparr>dv_bytes = b, dv_size = n\<rparr> bs"
proof -
  have "agree m m' b (unat n)" using assms(2,3) by (auto simp: keeps_maps_def)
  then have "load_bytes m b (length bs) = load_bytes m' b (length bs)"
    using assms(1) by (intro agree_load_bytes) (auto simp: holds_file_def)
  then show ?thesis using assms(1) by (simp add: holds_file_def)
qed

lemma positive_size:
  assumes "0 <s (n :: u64)"
  shows "unat n < 2 ^ 63"
proof (rule ccontr)
  assume "\<not> unat n < 2 ^ 63"
  then have big: "2 ^ 63 \<le> uint n" by (metis not_less of_nat_less_iff of_nat_numeral of_nat_power uint_nat)
  have lt: "uint n < 2 ^ 64" using unsigned_less [of n, where ?'a = int] by simp
  have "uint n div 2 ^ 63 = 1"
    using int_div_pos_eq [of "uint n" "2 ^ 63" 1 "uint n - 2 ^ 63"] big lt by simp
  then have "bit (uint n) 63" by (simp add: bit_iff_odd)
  then have "sint n = uint n - 2 ^ 64"
    using lt by (simp add: sint_uint signed_take_bit_eq_take_bit_minus take_bit_int_eq_self)
  then show False using lt assms by (simp add: word_sless_alt)
qed

lemma keeps_maps_refl: "keeps_maps g w m m"
  by (simp add: keeps_maps_def agree_def split_beta)

lemma MapFile_files:
  assumes law: "file_law fs g" and run: "RorkHookMapFile fs (Some p) (Some old) s = (ok, out, s')"
  shows "keeps_files g (world s) (world s') \<and> keeps_maps g (world s) (mem s) (mem s') \<and>
    (if ok then \<exists>b n. out = Some \<lparr>fm_bytes = b, fm_size = n\<rparr> \<and> (b, n) \<in> set (live_maps g (world s')) \<and>
       holds_file (mem s') \<lparr>dv_bytes = b, dv_size = n\<rparr> (content g (world s) p)
     else out = Some no_mapping)"
proof (cases rule: MapFile_paths [of fs s p old])
  case (unopened fd w)
  then show ?thesis using run file_law_open(1) [OF law] by (auto simp: keeps_maps_refl)
next
  case (unsuitable fd w)
  then show ?thesis
    using run keeps_files_trans [OF file_law_open(1) [OF law] file_law_close [OF law]]
    by (auto simp: keeps_maps_refl sys_close_def)
next
  case (unmapped fd w n m' w')
  note o = file_law_open(1) [OF law unmapped(1)] and mm = file_law_mmap(1,2) [OF law unmapped(3)]
  have "keeps_maps g (world s) (mem s) m'" using mm(2) o by (auto simp: keeps_maps_def keeps_files_def)
  then show ?thesis
    using run unmapped(4) keeps_files_trans [OF keeps_files_trans [OF o mm(1)] file_law_close [OF law]]
    by (auto simp: sys_close_def)
next
  case (mapped fd w n b m' w')
  note o = file_law_open [OF law mapped(1)] and mm = file_law_mmap [OF law mapped(5)]
    and cl = file_law_close [OF law, of w' fd]
  have "keeps_maps g (world s) (mem s) m'" using mm(2) o(1) by (auto simp: keeps_maps_def keeps_files_def)
  moreover have len: "unat n = length (content g (world s) p)"
    using file_law_fstat [OF law mapped(3,4)] o(2) [OF mapped(2)] by simp
  then have "holds_file m' \<lparr>dv_bytes = b, dv_size = n\<rparr> (content g (world s) p)"
    using mm(3,4) [OF refl] o(2) [OF mapped(2)] positive_size [OF mapped(4)]
    by (simp add: holds_file_def valid_view_def)
  moreover have "(b, n) \<in> set (live_maps g (fs_close fs w' fd))"
    using mm(3) [OF refl] cl by (auto simp: keeps_files_def)
  ultimately show ?thesis
    using run mapped(6) keeps_files_trans [OF keeps_files_trans [OF o(1) mm(1)] cl]
    by (auto simp: sys_close_def)
qed

text \<open>A lookup in the contents of two files, independent of where they are mapped: the main file is
  placed at the bottom and the symbols file in the upper half of an otherwise empty memory.\<close>

definition file_lookup :: "u8 list \<Rightarrow> u8 list \<Rightarrow> cstring \<Rightarrow> cstring \<Rightarrow> u64 option" where
  "file_lookup main symbols path name =
     cache_lookup (store_bytes (store_bytes (\<lambda>_. 0) 0 main) (2 ^ 63) symbols)
       \<lparr>dv_bytes = 0, dv_size = of_nat (length main)\<rparr> \<lparr>dv_bytes = 2 ^ 63, dv_size = of_nat (length symbols)\<rparr>
       path name"

lemma holds_file_lookup:
  assumes "holds_file m mv main" "holds_file m sv symbols"
  shows "cache_lookup m mv sv path name = file_lookup main symbols path name"
proof -
  let ?m = "store_bytes (store_bytes (\<lambda>_. 0) 0 main) (2 ^ 63) symbols"
  have len: "length main < 2 ^ 63" "length symbols < 2 ^ 63" using assms by (auto simp: holds_file_def)
  have same: "same_view m v ?m \<lparr>dv_bytes = a, dv_size = of_nat (length bs)\<rparr>"
    if "holds_file m v bs" "load_bytes ?m a (length bs) = bs" for v a bs
  proof -
    have "dv_size v = of_nat (length bs)"
      using that(1) word_nat_cong [of "dv_size v"] by (simp add: holds_file_def)
    then show ?thesis using that by (simp add: holds_file_def same_view_def same_bytes_iff)
  qed
  have "load_bytes ?m (2 ^ 63) (length symbols) = symbols"
    using len by (intro load_store_same) simp
  moreover have "load_bytes ?m 0 (length main) = load_bytes (store_bytes (\<lambda>_. 0) 0 main) 0 (length main)"
    using len by (intro load_store_frame) auto
  then have "load_bytes ?m 0 (length main) = main" using len by (simp add: load_store_same)
  ultimately show ?thesis
    unfolding file_lookup_def using same_cache_lookup [OF same [OF assms(1)] same [OF assms(2)]] by blast
qed

section \<open>Properties\<close>

text \<open>
  C31: A shared-cache lookup leaks nothing: on every path through \<open>RorkHookFindSharedCacheSymbol\<close>,
  with or without a sidecar, each descriptor that was opened is closed and each mapping that was
  created is released, in reverse order, before the call returns.
\<close>

theorem FindSharedCacheSymbol_releases:
  assumes "mmap_nonnull fs"
  shows "\<exists>es. events (snd (snd (RorkHookFindSharedCacheSymbol pf fs path name c s))) = events s @ es \<and>
    released es"
proof (cases "path = None \<or> name = None \<or> fst (RorkHookLocateSharedCache fs (world s) c) = []")
  case True
  then have "snd (snd (RorkHookFindSharedCacheSymbol pf fs path name c s)) = s"
    by (auto simp: RorkHookFindSharedCacheSymbol_def split: prod.split)
  then show ?thesis by (simp add: released_def)
next
  case False
  then have "snd (snd (RorkHookFindSharedCacheSymbol pf fs path name c s)) =
      snd (RorkHookFindSharedCacheSymbolAtPath pf fs (Some (fst (RorkHookLocateSharedCache fs (world s) c)))
        (RorkHookSharedCacheSlide pf s) path name s)"
    by (auto simp: RorkHookFindSharedCacheSymbol_def split_beta)
  then show ?thesis using AtPath_released [OF assms] by simp
qed

text \<open>
  C39: The cache path is computed once and then fixed: the first call returns the first usable
  candidate in this order: the path dyld reports, then the base path with each architecture suffix; or the empty string when there is none, and every later call returns the same path,
  whatever has happened to the file system and the environment since.
\<close>

theorem LocateSharedCache_once:
  "case RorkHookLocateSharedCache fs w c of (path, c') \<Rightarrow>
     path = (if onceToken c then cachePath c else first_usable fs w (cache_candidates fs w)) \<and>
     onceToken c' \<and>
     (\<forall>fs' w'. RorkHookLocateSharedCache fs' w' c' = (path, c'))"
  by (simp add: RorkHookLocateSharedCache_def locate_once_first)

text \<open>
  C20: Looking a symbol up in a cache at a given path computes a function of the contents of two files:
  the main cache, and its \<open>.symbols\<close> sidecar when the name of that fits the buffer and the file could
  be mapped, the main cache itself otherwise. The result does not depend on where the files are
  mapped; it is the value found plus the slide, signed when executable, and null when the main cache
  cannot be mapped, the metadata is malformed, the image or symbol is absent or the sum is not an
  address. (Hypothesis: the documented behaviour of the file system.)
\<close>

theorem FindSharedCacheSymbolAtPath_exact:
  assumes "file_law fs g" and side: "side = path @ map of_char ''.symbols''"
    and main: "RorkHookMapFile fs (Some path) (Some no_mapping) s = (ok, out, s1)"
    and sidecar: "sidecar_attempt fs path s1 = (has_side, out', s2)"
  shows "fst (RorkHookFindSharedCacheSymbolAtPath pf fs (Some path) slide (Some img) (Some name) s) =
    (if \<not> ok then 0
     else case file_lookup (content g (world s) path) (content g (world s) (if has_side then side else path)) img name of
       None \<Rightarrow> 0
     | Some v \<Rightarrow> if unat slide + unat v < 2 ^ 64
                 then RorkHookSignPointerIfExecutable pf (world s2) (slide + v) else 0)"
proof (cases ok)
  case False
  then show ?thesis
    using MapFile_files [OF assms(1) main] main by (simp add: RorkHookFindSharedCacheSymbolAtPath_def)
next
  case True
  obtain b n where mv: "out = Some \<lparr>fm_bytes = b, fm_size = n\<rparr>" "(b, n) \<in> set (live_maps g (world s1))"
    "holds_file (mem s1) \<lparr>dv_bytes = b, dv_size = n\<rparr> (content g (world s) path)"
    "keeps_files g (world s) (world s1)"
    using MapFile_files [OF assms(1) main] True by auto
  have side_maps: "keeps_maps g (world s1) (mem s1) (mem s2)"
    "if has_side then \<exists>b n. out' = Some \<lparr>fm_bytes = b, fm_size = n\<rparr> \<and>
        holds_file (mem s2) \<lparr>dv_bytes = b, dv_size = n\<rparr> (content g (world s1) side) else out' = Some no_mapping"
    using sidecar MapFile_files [OF assms(1), of side no_mapping s1]
    by (auto simp: sidecar_attempt_def side keeps_maps_refl split: if_splits)
  have mv2: "holds_file (mem s2) \<lparr>dv_bytes = b, dv_size = n\<rparr> (content g (world s) path)"
    using holds_file_kept [OF mv(3,2) side_maps(1)] .
  obtain b' n' where sv: "(case (has_side, out') of (True, Some mapping) \<Rightarrow> mapping | _ \<Rightarrow> \<lparr>fm_bytes = b, fm_size = n\<rparr>) =
      \<lparr>fm_bytes = b', fm_size = n'\<rparr>"
    "holds_file (mem s2) \<lparr>dv_bytes = b', dv_size = n'\<rparr> (content g (world s) (if has_side then side else path))"
  proof (cases has_side)
    case True
    then show thesis using side_maps(2) mv(4) that by (auto simp: keeps_files_def)
  next
    case False
    then show thesis using mv2 that by simp
  qed
  have "fst (RorkHookFindSharedCacheSymbolAtPath pf fs (Some path) slide (Some img) (Some name) s) =
      RorkHookFindSharedCacheSymbolInData pf s2 b n b' n' slide (Some img) (Some name)"
    using AtPath_run [of fs path s _ s1 has_side out' s2, OF _ sidecar] main True mv(1) sv(1) by simp
  then show ?thesis
    using FindSharedCacheSymbolInData_value [of b n b' n' pf s2 slide img name]
      holds_file_lookup [OF mv2 sv(2)] mv2 sv(2) True
    by (simp add: holds_file_def)
qed

text \<open>A file system with two readable files of four pages each, mapped one behind the other.\<close>

definition ref_files :: "vm_state filesystem" where
  "ref_files =
     \<lparr>fs_open = (\<lambda>w p. (3, w)), fs_fstat = (\<lambda>w fd. Some (True, 0x10000)),
      fs_mmap = (\<lambda>w m fd n. (Some 0x40000, m, w)), fs_close = (\<lambda>w fd. w), fs_munmap = (\<lambda>w a n. w),
      fs_readable = (\<lambda>w p. True), fs_searchable = (\<lambda>w p. True), fs_getenv = (\<lambda>w p. None),
      fs_dyld_path = (\<lambda>w. Some [47])\<rparr>"

theorem FindSharedCacheSymbol_releases_witness:
  "\<exists>es. events (snd (snd (RorkHookFindSharedCacheSymbol (ref_platform False) ref_files (Some [47]) (Some [95])
     \<lparr>cachePath = [], onceToken = False\<rparr> (cache_state 1)))) = events (cache_state 1) @ es \<and> released es"
  by (rule FindSharedCacheSymbol_releases) (simp add: mmap_nonnull_def ref_files_def)

text \<open>A file system with one cache file (\<open>/c\<close>, without a sidecar), whose state is the list of mappings.\<close>

definition one_file :: "(u64 \<times> u64) list filesystem" where
  "one_file =
     \<lparr>fs_open = (\<lambda>w p. (if p = [47, 99] then 3 else -1, w)),
      fs_fstat = (\<lambda>w fd. if fd = 3 then Some (True, 552) else None),
      fs_mmap = (\<lambda>w m fd n. if w = [] \<and> fd = 3 \<and> n = 552
                           then (Some 0x40000, store_bytes m 0x40000 cache_bytes, [(0x40000, 552)])
                           else (None, m, w)),
      fs_close = (\<lambda>w fd. w), fs_munmap = (\<lambda>w a n. filter (\<lambda>r. r \<noteq> (a, n)) w),
      fs_readable = (\<lambda>w p. p = [47, 99]), fs_searchable = (\<lambda>w p. True), fs_getenv = (\<lambda>w p. None),
      fs_dyld_path = (\<lambda>w. Some [47, 99])\<rparr>"

definition one_file_ghost :: "(u64 \<times> u64) list file_ghost" where
  "one_file_ghost =
     \<lparr>content = (\<lambda>w p. if p = [47, 99] then cache_bytes else []),
      open_file = (\<lambda>w fd. if fd = 3 then cache_bytes else []), live_maps = id\<rparr>"

lemma cache_bytes_length: "length cache_bytes = 552"
  by (simp add: cache_bytes_literal)

lemma one_file_law: "file_law one_file one_file_ghost"
  using load_store_same [of cache_bytes _ "0x40000"]
  by (auto simp: file_law_def one_file_def one_file_ghost_def keeps_files_def keeps_maps_def cache_bytes_length agree_def
      split: prod.splits if_splits)

lemma cache_file_lookup: "file_lookup cache_bytes cache_bytes [47, 97] [95, 102] = Some 0x180000040"
proof -
  have "holds_file cache_memory \<lparr>dv_bytes = 0x40000, dv_size = 552\<rparr> cache_bytes"
    using load_store_same [of cache_bytes _ "0x40000"]
    by (simp add: holds_file_def valid_view_def cache_bytes_length cache_memory_def)
  from holds_file_lookup [OF this this] cache_lookup_sample show ?thesis by simp
qed

definition empty_machine :: "(u64 \<times> u64) list machine" where
  "empty_machine = \<lparr>mem = (\<lambda>_. 0), world = [], events = []\<rparr>"

theorem FindSharedCacheSymbolAtPath_exact_witness:
  "fst (RorkHookFindSharedCacheSymbolAtPath signed_platform one_file (Some [47, 99]) 0x8000
     (Some [47, 97]) (Some [95, 102]) empty_machine) = 0x1000180008040"
proof -
  let ?s1 = "snd (snd (RorkHookMapFile one_file (Some [47, 99]) (Some no_mapping) empty_machine))"
  have main: "RorkHookMapFile one_file (Some [47, 99]) (Some no_mapping) empty_machine =
      (True, Some \<lparr>fm_bytes = 0x40000, fm_size = 552\<rparr>, ?s1)"
    by (simp add: RorkHookMapFile_def one_file_def empty_machine_def emit_def word_sless_alt)
  have side: "sidecar_attempt one_file [47, 99] ?s1 = (False, Some no_mapping, ?s1)"
    by (simp add: sidecar_attempt_def RorkHookMapFile_def one_file_def)
  show ?thesis
    using FindSharedCacheSymbolAtPath_exact [OF one_file_law refl main side, of signed_platform "0x8000" "[47, 97]" "[95, 102]"]
    by (simp add: one_file_ghost_def cache_file_lookup empty_machine_def)
      (simp add: RorkHookSignPointerIfExecutable_def RorkHookQueryRegion_def signed_platform_def)
qed

end
