(* ===== verification/Rebind_Model.thy ===== *)
theory Rebind_Model
  imports Load_Commands Memory
begin

text \<open>
  Rebinding the symbol pointers of one image (\<open>Sources/RorkHook/RorkHookRebind.c\<close>, from
  \<open>RorkHookStripPointer\<close> to \<open>RorkHookRebindSymbolInImage\<close>).

  \<open>getsectiondata\<close> belongs to the dynamic linker: it is a component of the record \<open>dyld\<close>, a
  function of the memory, the header and the two names, returning the section's address (or zero)
  and its size. The load-command visitor writes to memory while it iterates, so every read goes
  through the machine of the moment, as in C.

  The specification of what may be written and what a pass over a slot leaves there comes last.
\<close>

section \<open>Pointer rewriting\<close>

definition RorkHookStripPointer :: "'w platform \<Rightarrow> u64 \<Rightarrow> u64" where
  "RorkHookStripPointer pf pointer = (if ptrauth_calls pf then ptrauth_strip pf pointer else pointer)"

definition RorkHookStoreSlot :: "'w platform \<Rightarrow> u64 \<Rightarrow> u64 \<Rightarrow> 'w machine \<Rightarrow> bool \<times> 'w machine" where
  "RorkHookStoreSlot pf slot v s =
     RorkHookStoreProtectedPointer pf slot v (VM_PROT_READ OR VM_PROT_WRITE OR VM_PROT_COPY) s"

record RorkHookRebindImageContext =
  ric_header :: u64
  ric_replaceeRaw :: u64
  ric_replacement :: u64

definition RorkHookCopyName :: "memory \<Rightarrow> u64 \<Rightarrow> u8 list" where
  "RorkHookCopyName m name = load_bytes m name 16 @ [0]"

section \<open>Sections\<close>

abbreviation S_NON_LAZY_SYMBOL_POINTERS :: u32 where "S_NON_LAZY_SYMBOL_POINTERS \<equiv> 6"
abbreviation S_LAZY_SYMBOL_POINTERS :: u32 where "S_LAZY_SYMBOL_POINTERS \<equiv> 7"
abbreviation SECTION_TYPE :: u32 where "SECTION_TYPE \<equiv> 0xff"
abbreviation sizeof_section :: u64 where "sizeof_section \<equiv> 80"

text \<open>Offsets of the fields of \<open>struct section_64\<close>: \<open>sectname\<close> 0, \<open>segname\<close> 16, \<open>flags\<close> 64.\<close>

definition section_flags :: "memory \<Rightarrow> u64 \<Rightarrow> u32" where [layout_simps]: "section_flags m a = load32 m (a + 64)"

record 'w dyld =
  getsectiondata :: "memory \<Rightarrow> u64 \<Rightarrow> u8 list \<Rightarrow> u8 list \<Rightarrow> u64 \<times> u64"
  dladdr :: "'w \<Rightarrow> u64 \<Rightarrow> u32 \<times> u64"

text \<open>The value installed in a matching slot.\<close>

definition slot_value :: "'w platform \<Rightarrow> u64 \<Rightarrow> bool \<Rightarrow> u64 \<Rightarrow> u64" where
  "slot_value pf replacement authenticated slot =
     (if ptrauth_calls pf then
        if authenticated
        then ptrauth_sign_unauthenticated pf (ptrauth_strip pf replacement) slot
        else RorkHookStripPointer pf replacement
      else replacement)"

function rebind_slots_loop ::
  "'w platform \<Rightarrow> RorkHookRebindImageContext \<Rightarrow> bool \<Rightarrow> u64 \<Rightarrow> u64 \<Rightarrow> u64 \<Rightarrow> 'w machine \<Rightarrow> 'w machine" where
  "rebind_slots_loop pf context authenticated slots slotCount index s =
     (if index < slotCount then
        let slot = slots + index * 8;
            current = load64 (mem s) slot
        in
        if current = 0
        then rebind_slots_loop pf context authenticated slots slotCount (index + 1) s
        else
          let resolved = RorkHookStripPointer pf current in
          if resolved \<noteq> ric_replaceeRaw context
          then rebind_slots_loop pf context authenticated slots slotCount (index + 1) s
          else
            let finalValue = slot_value pf (ric_replacement context) authenticated slot in
            rebind_slots_loop pf context authenticated slots slotCount (index + 1)
              (snd (RorkHookStoreSlot pf slot finalValue s))
      else s)"
  by pat_completeness auto
termination
  by (relation "measure (\<lambda>(pf, c, a, slots, count, index, s). unat count - unat index)")
     (auto intro: word_index_decreases)

declare rebind_slots_loop.simps [simp del]

definition RorkHookRebindSection ::
  "'w platform \<Rightarrow> 'w dyld \<Rightarrow> RorkHookRebindImageContext \<Rightarrow> u64 \<Rightarrow> 'w machine \<Rightarrow> 'w machine" where
  "RorkHookRebindSection pf dy context sect s =
     (if sect = 0 then s
      else
        let segname = RorkHookCopyName (mem s) (sect + 16);
            sectname = RorkHookCopyName (mem s) sect
        in
        case getsectiondata dy (mem s) (ric_header context) segname sectname of
          (slots, sectionSize) \<Rightarrow>
            let slotCount = sectionSize div 8 in
            if slots = 0 \<or> slotCount = 0 \<or> sectionSize mod 8 \<noteq> 0 \<or>
               \<not> RorkHookMemoryIsReadable pf (world s) slots sectionSize
            then s
            else
              let authenticated = strncmp_equal sectname (c_literal ''__auth_got'') 17 in
              rebind_slots_loop pf context authenticated slots slotCount 0 s)"

function rebind_sections_loop ::
  "'w platform \<Rightarrow> 'w dyld \<Rightarrow> RorkHookRebindImageContext \<Rightarrow> u64 \<Rightarrow> u64 \<Rightarrow> u32 \<Rightarrow> 'w machine \<Rightarrow> 'w machine" where
  "rebind_sections_loop pf dy context segment sections sectionIndex s =
     (if sectionIndex < segment_nsects (mem s) segment then
        let sect = sections + ucast sectionIndex * sizeof_section;
            type = section_flags (mem s) sect AND SECTION_TYPE;
            s' = (if type = S_LAZY_SYMBOL_POINTERS \<or> type = S_NON_LAZY_SYMBOL_POINTERS
                  then RorkHookRebindSection pf dy context sect s else s)
        in rebind_sections_loop pf dy context segment sections (sectionIndex + 1) s'
      else s)"
  by pat_completeness auto
termination
  by (relation "measure (\<lambda>(pf, dy, c, seg, secs, index, s). 2 ^ 32 - unat index)")
     (use index_room_decreases [where ?'a = 32] in auto)

declare rebind_sections_loop.simps [simp del]

definition RorkHookRebindImageLoadCommand ::
  "'w platform \<Rightarrow> 'w dyld \<Rightarrow> ('w, RorkHookRebindImageContext) visitor" where
  "RorkHookRebindImageLoadCommand pf dy command index s context =
     (if command = 0 \<or> command_cmd (mem s) command \<noteq> RORK_HOOK_LC_SEGMENT \<or>
         command_cmdsize (mem s) command < sizeof_segment_command
      then (True, s, context)
      else
        let segment = command;
            nsects = ucast (segment_nsects (mem s) segment) :: u64;
            sectionsSize = nsects * sizeof_section;
            sectionsEnd = ucast sizeof_segment_command + sectionsSize
        in
        if 2 ^ 64 \<le> unat nsects * unat sizeof_section \<or>
           2 ^ 64 \<le> unat sizeof_segment_command + unat sectionsSize \<or>
           ucast (command_cmdsize (mem s) command) < sectionsEnd
        then (True, s, context)
        else
          let sections = segment + ucast sizeof_segment_command in
          (True, rebind_sections_loop pf dy context segment sections 0 s, context))"

definition RorkHookRebindSymbolInImage ::
  "'w platform \<Rightarrow> 'w dyld \<Rightarrow> u64 \<Rightarrow> u64 \<Rightarrow> u64 \<Rightarrow> 'w machine \<Rightarrow> 'w machine" where
  "RorkHookRebindSymbolInImage pf dy header replacee replacement s =
     (if header = 0 \<or> replacee = 0 \<or> replacement = 0 then s
      else
        let replaceeRaw = RorkHookStripPointer pf replacee;
            context = \<lparr>ric_header = header, ric_replaceeRaw = replaceeRaw, ric_replacement = replacement\<rparr>
        in
        fst (snd (RorkHookForEachLoadCommand pf header (Some (RorkHookRebindImageLoadCommand pf dy)) s context)))"

section \<open>Specification\<close>

definition matches :: "'w platform \<Rightarrow> u64 \<Rightarrow> u64 \<Rightarrow> bool" where
  "matches pf replaceeRaw v \<longleftrightarrow> v \<noteq> 0 \<and> RorkHookStripPointer pf v = replaceeRaw"

text \<open>The machine may change only by rewriting slots that resolve to the replacee at that moment,
  each with the value for that slot. A store may be refused, so a step may leave memory alone.\<close>

inductive rewritten :: "'w platform \<Rightarrow> u64 \<Rightarrow> u64 \<Rightarrow> 'w machine \<Rightarrow> 'w machine \<Rightarrow> bool"
  for pf replaceeRaw replacement s where
  unchanged: "rewritten pf replaceeRaw replacement s s"
| store: "rewritten pf replaceeRaw replacement s t \<Longrightarrow>
    matches pf replaceeRaw (load64 (mem t) slot) \<Longrightarrow>
    slot \<noteq> 0 \<Longrightarrow>
    rewritten pf replaceeRaw replacement s
      (snd (RorkHookStoreSlot pf slot (slot_value pf replacement authenticated slot) t))"

text \<open>What a pass over a slot leaves there: a slot with another value keeps it; a matching slot
  holds its new value, or still the old one if the store to it, at some moment \<open>t\<close> between the machines
  before and after the pass, was refused.\<close>

definition slot_settled ::
  "'w platform \<Rightarrow> u64 \<Rightarrow> u64 \<Rightarrow> bool \<Rightarrow> u64 \<Rightarrow> 'w machine \<Rightarrow> 'w machine \<Rightarrow> bool" where
  "slot_settled pf replaceeRaw replacement authenticated slot s s' \<longleftrightarrow>
     (let old = load64 (mem s) slot;
          new = load64 (mem s') slot;
          val = slot_value pf replacement authenticated slot
      in
      if matches pf replaceeRaw old
      then new = val \<or>
           new = old \<and> (\<exists>t. rewritten pf replaceeRaw replacement s t \<and> load64 (mem t) slot = old \<and>
             \<not> fst (RorkHookStoreSlot pf slot val t) \<and>
             rewritten pf replaceeRaw replacement (snd (RorkHookStoreSlot pf slot val t)) s')
      else new = old)"

definition is_pointer_section :: "memory \<Rightarrow> u64 \<Rightarrow> bool" where
  "is_pointer_section m a \<longleftrightarrow>
     (section_flags m a AND SECTION_TYPE) \<in> {S_LAZY_SYMBOL_POINTERS, S_NON_LAZY_SYMBOL_POINTERS}"

text \<open>The section records of a segment command, when all of them fit into it.\<close>

definition segment_sections :: "memory \<Rightarrow> u64 \<Rightarrow> u64 list" where
  "segment_sections m c =
     (if command_cmd m c = RORK_HOOK_LC_SEGMENT \<and> 72 + 80 * unat (segment_nsects m c) \<le> unat (command_cmdsize m c)
      then map (\<lambda>i. c + 72 + of_nat (80 * i)) [0..<unat (segment_nsects m c)]
      else [])"

definition pointer_sections :: "memory \<Rightarrow> u64 \<Rightarrow> u64 list" where
  "pointer_sections m c = filter (is_pointer_section m) (segment_sections m c)"

end
