(* ===== verification/Rebind_Section.thy ===== *)
theory Rebind_Section
  imports Rebind_Model
begin

text \<open>
  The pass over one symbol-pointer section: it writes only slots that hold the replacee, only the
  final value for that slot, settles every slot and touches nothing outside the section; and a pass
  back settles every slot at the raw pointer it had.
\<close>

section \<open>Slots of a section\<close>

lemmas rewritten_intros = rewritten.intros

lemma rewritten_trans [trans]:
  assumes "rewritten pf raw new s t" "rewritten pf raw new t u"
  shows "rewritten pf raw new s u"
  using assms(2,1) by (induction rule: rewritten.induct) (auto intro: rewritten_intros)

lemma StoreSlot_effect:
  "mem (snd (RorkHookStoreSlot pf slot v s)) \<in> {mem s, store_bytes (mem s) slot (le_bytes 8 v)}"
  "fst (RorkHookStoreSlot pf slot v s) \<Longrightarrow>
     mem (snd (RorkHookStoreSlot pf slot v s)) = store_bytes (mem s) slot (le_bytes 8 v)"
  using store_effect [where pf = pf and slot = slot and v = v and s = s
      and prot = "VM_PROT_READ OR VM_PROT_WRITE OR VM_PROT_COPY"]
  by (auto simp: RorkHookStoreSlot_def split: prod.splits if_splits)

lemma slot_address:
  fixes slots index slotCount :: u64
  assumes "index < slotCount" "unat slots + 8 * unat slotCount < 2 ^ 64"
  shows "unat (slots + index * 8) = unat slots + 8 * unat index"
proof -
  have "unat index < unat slotCount" using assms(1) by (simp add: word_less_nat_alt)
  moreover from this assms(2) have "unat (index * 8) = 8 * unat index"
    by (simp add: unat_word_ariths)
  ultimately show ?thesis using assms(2) by (simp add: unat_add_no_wrap)
qed

lemma slot_nonnull:
  fixes slots index slotCount :: u64
  assumes "index < slotCount" "unat slots + 8 * unat slotCount < 2 ^ 64" "slots \<noteq> 0"
  shows "slots + index * 8 \<noteq> 0"
proof
  assume "slots + index * 8 = 0"
  then have "unat slots = 0" using slot_address [OF assms(1,2)] by simp
  then show False using assms(3) by (simp add: unat_eq_zero)
qed

lemma StoreSlot_frame:
  assumes "unat slot + 8 \<le> 2 ^ 64" "unat x < unat slot \<or> unat slot + 8 \<le> unat x"
  shows "mem (snd (RorkHookStoreSlot pf slot v s)) x = mem s x"
  using StoreSlot_effect(1) [of pf slot v s] store_bytes_byte_frame [of slot "le_bytes 8 v" x "mem s"] assms
  by auto

lemma load64_frame:
  assumes "\<And>x. unat b \<le> unat x \<Longrightarrow> unat x < unat b + 8 \<Longrightarrow> m x = m' x" "unat b + 8 \<le> 2 ^ 64"
  shows "load64 m b = load64 m' b"
proof -
  have "m (b + of_nat i) = m' (b + of_nat i)" if "i < 8" for i
  proof (rule assms(1))
    have "unat (b + of_nat i) = unat b + i"
      using that assms(2) by (subst unat_add_no_wrap) (simp_all add: unat_of_nat)
    then show "unat b \<le> unat (b + of_nat i)" "unat (b + of_nat i) < unat b + 8" using that by simp_all
  qed
  then have "agree m m' b 8" by (simp add: agree_def)
  then show ?thesis by (rule agree_load64) simp
qed

text \<open>One pass of the loop: rewrite the slot if it matches, then go on.\<close>

definition slot_pass ::
  "'w platform \<Rightarrow> RorkHookRebindImageContext \<Rightarrow> bool \<Rightarrow> u64 \<Rightarrow> 'w machine \<Rightarrow> 'w machine" where
  "slot_pass pf c auth slot s =
     (if matches pf (ric_replaceeRaw c) (load64 (mem s) slot)
      then snd (RorkHookStoreSlot pf slot (slot_value pf (ric_replacement c) auth slot) s) else s)"

lemma rebind_slots_step:
  "rebind_slots_loop pf c auth slots slotCount index s =
     (if index < slotCount
      then rebind_slots_loop pf c auth slots slotCount (index + 1) (slot_pass pf c auth (slots + index * 8) s)
      else s)"
  by (subst rebind_slots_loop.simps) (simp add: Let_def slot_pass_def matches_def)

lemma slot_pass_rewritten:
  "slot \<noteq> 0 \<Longrightarrow> rewritten pf (ric_replaceeRaw c) (ric_replacement c) s (slot_pass pf c auth slot s)"
  unfolding slot_pass_def by (auto intro: rewritten_intros)

lemma slot_pass_frame:
  assumes "unat slot + 8 \<le> 2 ^ 64" "unat x < unat slot \<or> unat slot + 8 \<le> unat x"
  shows "mem (slot_pass pf c auth slot s) x = mem s x"
  by (simp add: slot_pass_def StoreSlot_frame [OF assms])

lemma slot_pass_settled:
  "slot_settled pf (ric_replaceeRaw c) (ric_replacement c) auth slot s (slot_pass pf c auth slot s)"
proof (cases "fst (RorkHookStoreSlot pf slot (slot_value pf (ric_replacement c) auth slot) s)")
  case True
  then show ?thesis
    by (simp add: slot_settled_def slot_pass_def Let_def StoreSlot_effect(2) load64_store64)
next
  case False
  with StoreSlot_effect(1) [of pf slot "slot_value pf (ric_replacement c) auth slot" s] show ?thesis
    by (auto simp: slot_settled_def slot_pass_def Let_def load64_store64 intro: rewritten.unchanged)
qed

lemma slot_settled_later:
  assumes "slot_settled pf raw new auth slot s t" "rewritten pf raw new t u"
    and "load64 (mem u) slot = load64 (mem t) slot"
  shows "slot_settled pf raw new auth slot s u"
  using assms unfolding slot_settled_def Let_def by (auto intro: rewritten_trans split: if_splits)

lemma slot_settled_earlier:
  assumes "slot_settled pf raw new auth slot t u" "rewritten pf raw new s t"
    and "load64 (mem t) slot = load64 (mem s) slot"
  shows "slot_settled pf raw new auth slot s u"
  using assms unfolding slot_settled_def Let_def by (auto intro: rewritten_trans split: if_splits)

text \<open>The loop rewrites matching slots only, touches nothing before the current slot or after the
  last, and settles each slot it passes.\<close>

lemma rebind_slots_rewritten:
  assumes "slots \<noteq> 0" "unat slots + 8 * unat slotCount < 2 ^ 64"
  shows "rewritten pf (ric_replaceeRaw c) (ric_replacement c) s (rebind_slots_loop pf c auth slots slotCount index s)"
proof (induction "unat slotCount - unat index" arbitrary: index s)
  case 0
  then show ?case by (subst rebind_slots_step) (auto simp: word_less_nat_alt intro: rewritten_intros)
next
  case (Suc n)
  then have lt: "index < slotCount" by (simp add: word_less_nat_alt)
  then have n: "n = unat slotCount - unat (index + 1)" using Suc(2) by (simp add: unat_inc)
  show ?case
    using lt slot_nonnull [OF lt assms(2,1)] by (subst rebind_slots_step) (auto intro: rewritten_trans slot_pass_rewritten Suc(1) [OF n])
qed

lemma rebind_slots_frame:
  assumes "unat slots + 8 * unat slotCount < 2 ^ 64"
    and "unat x < unat slots + 8 * unat index \<or> unat slots + 8 * unat slotCount \<le> unat x"
  shows "mem (rebind_slots_loop pf c auth slots slotCount index s) x = mem s x"
  using assms(2)
proof (induction "unat slotCount - unat index" arbitrary: index s)
  case 0
  then show ?case by (subst rebind_slots_step) (simp add: word_less_nat_alt)
next
  case (Suc n)
  then have lt: "index < slotCount" "unat index < unat slotCount" by (simp_all add: word_less_nat_alt)
  then have inc: "unat (index + 1) = Suc (unat index)" by (simp add: unat_inc)
  note slot = slot_address [OF lt(1) assms(1)]
  have "mem (slot_pass pf c auth (slots + index * 8) s) x = mem s x"
    using slot Suc(3) lt(2) assms(1) by (intro slot_pass_frame) auto
  then show ?case
    using lt(1) Suc(1) [of "index + 1"] Suc(2,3) inc by (subst rebind_slots_step) auto
qed

lemma rebind_slots_settled:
  assumes "unat slots + 8 * unat slotCount < 2 ^ 64" "unat index \<le> i" "i < unat slotCount"
    and "slots \<noteq> 0"
  shows "slot_settled pf (ric_replaceeRaw c) (ric_replacement c) auth (slots + of_nat (8 * i)) s
    (rebind_slots_loop pf c auth slots slotCount index s)"
  using assms(2)
proof (induction "unat slotCount - unat index" arbitrary: index s)
  case 0
  then show ?case using assms(3) by simp
next
  case (Suc n)
  let ?slot = "slots + index * 8" and ?a = "slots + of_nat (8 * i)"
  have lt: "index < slotCount" "unat index < unat slotCount" using Suc(2) by (simp_all add: word_less_nat_alt)
  then have inc: "unat (index + 1) = Suc (unat index)" by (simp add: unat_inc)
  let ?s = "slot_pass pf c auth ?slot s"
  let ?e = "rebind_slots_loop pf c auth slots slotCount (index + 1) ?s"
  have "unat (of_nat (8 * i) :: u64) = 8 * i"
    using assms(1,3) by (simp only: unat_of_nat) simp
  then have a: "unat ?a = unat slots + 8 * i"
    using assms(1,3) by (subst unat_add_no_wrap) simp_all
  note slot = slot_address [OF lt(1) assms(1)]
  have "slot_settled pf (ric_replaceeRaw c) (ric_replacement c) auth ?a s ?e"
  proof (cases "i = unat index")
    case True
    then have eq: "?a = ?slot" by (simp add: mult.commute)
    have "load64 (mem ?e) ?slot = load64 (mem ?s) ?slot"
      using slot lt(2) inc assms(1) by (intro load64_frame rebind_slots_frame) auto
    then show ?thesis
      unfolding eq by (rule slot_settled_later [OF slot_pass_settled rebind_slots_rewritten [OF assms(4,1)]])
  next
    case False
    then have "unat ?slot + 8 \<le> unat ?a" using a slot Suc(3) by simp
    then have "load64 (mem ?s) ?a = load64 (mem s) ?a"
      using slot lt(2) a assms(1,3) by (intro load64_frame slot_pass_frame) auto
    moreover have "slot_settled pf (ric_replaceeRaw c) (ric_replacement c) auth ?a ?s ?e"
      using Suc(1) [of "index + 1" ?s] Suc(2,3) False inc by simp
    moreover have "rewritten pf (ric_replaceeRaw c) (ric_replacement c) s ?s"
      by (rule slot_pass_rewritten [OF slot_nonnull [OF lt(1) assms(1,4)]])
    ultimately show ?thesis using slot_settled_earlier by simp
  qed
  then show ?case using lt(1) by (subst rebind_slots_step) simp
qed

lemma strip_slot_value [simp]:
  "ptrauth_law pf \<Longrightarrow> RorkHookStripPointer pf (slot_value pf p auth slot) = RorkHookStripPointer pf p"
  by (simp add: ptrauth_law_def RorkHookStripPointer_def slot_value_def)

lemma strip_null: "ptrauth_law pf \<Longrightarrow> RorkHookStripPointer pf 0 = 0"
  by (simp add: ptrauth_law_def RorkHookStripPointer_def)

text \<open>Rebinding a slot and rebinding it back.\<close>

lemma settled_back:
  assumes law: "ptrauth_law pf" and new: "RorkHookStripPointer pf new \<noteq> 0"
    and fresh: "RorkHookStripPointer pf (load64 (mem s) slot) \<noteq> RorkHookStripPointer pf new"
    and redo: "slot_settled pf (RorkHookStripPointer pf old) new auth slot s t"
    and undo: "slot_settled pf (RorkHookStripPointer pf new) old auth' slot t u"
  shows "RorkHookStripPointer pf (load64 (mem u) slot) = RorkHookStripPointer pf (load64 (mem s) slot) \<or>
    (\<exists>r. rewritten pf (RorkHookStripPointer pf new) old t r \<and>
      \<not> fst (RorkHookStoreSlot pf slot (slot_value pf old auth' slot) r))"
proof (cases "load64 (mem t) slot = load64 (mem s) slot")
  case True
  then show ?thesis using undo fresh by (simp add: slot_settled_def matches_def Let_def)
next
  case False
  then have old: "RorkHookStripPointer pf (load64 (mem s) slot) = RorkHookStripPointer pf old"
    and val: "load64 (mem t) slot = slot_value pf new auth slot"
    using redo by (auto simp: slot_settled_def matches_def Let_def split: if_splits)
  have "RorkHookStripPointer pf (load64 (mem t) slot) = RorkHookStripPointer pf new"
    using law val by simp
  then have "matches pf (RorkHookStripPointer pf new) (load64 (mem t) slot)"
    using new strip_null [OF law] by (auto simp: matches_def)
  then consider "load64 (mem u) slot = slot_value pf old auth' slot"
    | r where "rewritten pf (RorkHookStripPointer pf new) old t r"
        "\<not> fst (RorkHookStoreSlot pf slot (slot_value pf old auth' slot) r)"
    using undo by (auto simp: slot_settled_def Let_def)
  then show ?thesis
  proof cases
    case 1
    then show ?thesis using law old by simp
  qed blast
qed

section \<open>One section\<close>

text \<open>Where the linker says the slots of a section record are, and whether the section holds
  authenticated pointers.\<close>

definition section_range :: "'w dyld \<Rightarrow> memory \<Rightarrow> u64 \<Rightarrow> u64 \<Rightarrow> u64 \<times> u64" where
  "section_range dy m header sect =
     getsectiondata dy m header (RorkHookCopyName m (sect + 16)) (RorkHookCopyName m sect)"

definition is_auth_got :: "memory \<Rightarrow> u64 \<Rightarrow> bool" where
  "is_auth_got m sect = strncmp_equal (RorkHookCopyName m sect) (c_literal ''__auth_got'') 17"

lemma readable_no_wrap: "RorkHookMemoryIsReadable pf w a n \<Longrightarrow> unat a + unat n < 2 ^ 64"
  unfolding MemoryIsReadable_iff QueryRegion_Some by (elim exE conjE) linarith

lemma RebindSection_cases:
  obtains (skipped) a z where "RorkHookRebindSection pf dy c sect s = s"
      "sect = 0 \<or> section_range dy (mem s) (ric_header c) sect = (a, z) \<and>
         (a = 0 \<or> unat z mod 8 \<noteq> 0 \<or> \<not> RorkHookMemoryIsReadable pf (world s) a z)"
  | (scanned) a z where "sect \<noteq> 0" "section_range dy (mem s) (ric_header c) sect = (a, z)"
      "a \<noteq> 0" "unat z mod 8 = 0" "RorkHookMemoryIsReadable pf (world s) a z"
      "unat a + unat z < 2 ^ 64" "8 * unat (z div 8) = unat z"
      "RorkHookRebindSection pf dy c sect s =
         rebind_slots_loop pf c (is_auth_got (mem s) sect) a (z div 8) 0 s"
proof -
  obtain a z where r: "section_range dy (mem s) (ric_header c) sect = (a, z)" by fastforce
  let ?g = "sect \<noteq> 0 \<and> a \<noteq> 0 \<and> unat z mod 8 = 0 \<and> RorkHookMemoryIsReadable pf (world s) a z"
  have d: "unat (z div 8) = unat z div 8" by (simp add: unat_div)
  have m: "z mod 8 = 0 \<longleftrightarrow> unat z mod 8 = 0" by (simp add: word_unat_eq_iff unat_mod)
  have nz: "z div 8 \<noteq> 0" if ?g
  proof
    assume "z div 8 = 0"
    then have "unat z div 8 = 0" using d by simp
    then have "unat z = 0" using that mult_div_mod_eq [of 8 "unat z"] by linarith
    then show False using that by (simp add: MemoryIsReadable_iff)
  qed
  have eq: "RorkHookRebindSection pf dy c sect s =
      (if ?g then rebind_slots_loop pf c (is_auth_got (mem s) sect) a (z div 8) 0 s else s)"
    using r nz m by (auto simp: RorkHookRebindSection_def Let_def section_range_def is_auth_got_def)
  show thesis
  proof (cases ?g)
    case True
    then show thesis
      using r eq readable_no_wrap [of pf "world s" a z] d
      by (intro scanned [of a z]) auto
  next
    case False
    with r eq show thesis by (intro skipped [of a z]) auto
  qed
qed

lemma RebindSection_settles:
  assumes "section_range dy (mem s) (ric_header c) sect = (a, z)" "sect \<noteq> 0" "a \<noteq> 0" "unat z mod 8 = 0"
    and "RorkHookMemoryIsReadable pf (world s) a z" "i < unat z div 8"
  shows "slot_settled pf (ric_replaceeRaw c) (ric_replacement c) (is_auth_got (mem s) sect)
    (a + of_nat (8 * i)) s (RorkHookRebindSection pf dy c sect s)"
proof (cases rule: RebindSection_cases [of pf dy c sect s])
  case (skipped a z)
  then show ?thesis using assms by auto
next
  case (scanned b y)
  then have "unat a + 8 * unat (z div 8) < 2 ^ 64" "i < unat (z div 8)" "b = a" "y = z"
    using assms(1,6) by (auto simp: unat_div)
  then show ?thesis
    unfolding scanned(8) by (simp only: rebind_slots_settled [OF _ _ _ assms(3)] unat_0 le0)
qed

lemma RebindSection_rewritten:
  "rewritten pf (ric_replaceeRaw c) (ric_replacement c) s (RorkHookRebindSection pf dy c sect s)"
  by (cases rule: RebindSection_cases [of pf dy c sect s])
     (auto intro: rewritten_intros rebind_slots_rewritten)

lemma RebindSection_frame:
  assumes "section_range dy (mem s) (ric_header c) sect = (a, z)"
    and "unat x < unat a \<or> unat a + unat z \<le> unat x"
  shows "mem (RorkHookRebindSection pf dy c sect s) x = mem s x"
  using assms by (cases rule: RebindSection_cases [of pf dy c sect s]) (auto simp: rebind_slots_frame)

section \<open>What the passes may write\<close>

text \<open>
  Changes to the slots of one section and to the sections of one image, as chains of single stores. A
  store goes to a whole slot of the section, to one that resolves to the replacee at that moment, and
  its value is the one for that slot, signed exactly if the section is \<open>__auth_got\<close>; a section is
  entered only if its record is marked as symbol pointers at that moment, the linker knows its place
  and the place is readable.
\<close>

inductive slots_rewritten ::
  "'w platform \<Rightarrow> RorkHookRebindImageContext \<Rightarrow> bool \<Rightarrow> u64 \<Rightarrow> u64 \<Rightarrow> 'w machine \<Rightarrow> 'w machine \<Rightarrow> bool"
  for pf c auth a z s where
  none: "slots_rewritten pf c auth a z s s"
| slot: "slots_rewritten pf c auth a z s t \<Longrightarrow> i < unat z div 8 \<Longrightarrow> slot = a + of_nat (8 * i) \<Longrightarrow>
    matches pf (ric_replaceeRaw c) (load64 (mem t) slot) \<Longrightarrow>
    slots_rewritten pf c auth a z s
      (snd (RorkHookStoreSlot pf slot (slot_value pf (ric_replacement c) auth slot) t))"

inductive image_rewritten ::
  "'w platform \<Rightarrow> 'w dyld \<Rightarrow> RorkHookRebindImageContext \<Rightarrow> 'w machine \<Rightarrow> 'w machine \<Rightarrow> bool"
  for pf dy c s where
  none: "image_rewritten pf dy c s s"
| sect: "image_rewritten pf dy c s t \<Longrightarrow> sect \<noteq> 0 \<Longrightarrow> is_pointer_section (mem t) sect \<Longrightarrow>
    section_range dy (mem t) (ric_header c) sect = (a, z) \<Longrightarrow> a \<noteq> 0 \<Longrightarrow> unat z mod 8 = 0 \<Longrightarrow>
    RorkHookMemoryIsReadable pf (world t) a z \<Longrightarrow>
    slots_rewritten pf c (is_auth_got (mem t) sect) a z t u \<Longrightarrow>
    image_rewritten pf dy c s u"

lemma image_rewritten_trans [trans]:
  assumes "image_rewritten pf dy c s t" "image_rewritten pf dy c t u"
  shows "image_rewritten pf dy c s u"
  using assms(2,1) by (induction rule: image_rewritten.induct) (auto intro: image_rewritten.sect)

lemma slots_rewritten_loose:
  assumes "slots_rewritten pf c auth a z s t" "a \<noteq> 0" "unat a + unat z < 2 ^ 64"
  shows "rewritten pf (ric_replaceeRaw c) (ric_replacement c) s t"
  using assms
proof (induction rule: slots_rewritten.induct)
  case (slot t i slot)
  have "slot \<noteq> 0"
  proof
    assume "slot = 0"
    moreover have "unat slot = unat a + 8 * i"
    proof -
      have "8 * i + 8 \<le> unat z" using slot.hyps(2) by simp
      then have "unat (of_nat (8 * i) :: u64) = 8 * i" using slot.prems(2) by (simp only: unat_of_nat) simp
      then show ?thesis using slot.hyps(3) slot.prems(2) \<open>8 * i + 8 \<le> unat z\<close> by (simp add: unat_add_no_wrap)
    qed
    ultimately show False using slot.prems(1) by (simp add: unat_eq_zero)
  qed
  with slot show ?case by (intro rewritten.store) simp_all
qed (rule rewritten.unchanged)

lemma image_rewritten_loose:
  assumes "image_rewritten pf dy c s t"
  shows "rewritten pf (ric_replaceeRaw c) (ric_replacement c) s t"
  using assms
proof (induction rule: image_rewritten.induct)
  case (sect t sect a z u)
  from slots_rewritten_loose [OF sect.hyps(8,5) readable_no_wrap [OF sect.hyps(7)]] sect.IH
  show ?case by (rule rewritten_trans [rotated])
qed (rule rewritten.unchanged)

lemma rebind_slots_stores:
  "slots_rewritten pf c auth a z s t \<Longrightarrow> slots_rewritten pf c auth a z s (rebind_slots_loop pf c auth a (z div 8) index t)"
proof (induction "unat (z div 8) - unat index" arbitrary: index t)
  case 0
  then show ?case by (subst rebind_slots_step) (simp add: word_less_nat_alt)
next
  case (Suc n)
  then have lt: "index < z div 8" by (simp add: word_less_nat_alt)
  then have n: "n = unat (z div 8) - unat (index + 1)" using Suc(2) by (simp add: unat_inc)
  have i: "unat index < unat z div 8" using lt by (simp add: word_less_nat_alt unat_div)
  have "a + index * 8 = a + of_nat (8 * unat index)" by (simp add: mult.commute)
  then have "slots_rewritten pf c auth a z s (slot_pass pf c auth (a + index * 8) t)"
    using Suc(3) slots_rewritten.slot [OF Suc(3) i, of "a + index * 8"] by (simp add: slot_pass_def)
  then show ?case using Suc(1) [OF n] lt by (subst rebind_slots_step) simp
qed

lemma RebindSection_image_rewritten:
  assumes "is_pointer_section (mem s) sect"
  shows "image_rewritten pf dy c s (RorkHookRebindSection pf dy c sect s)"
proof (cases rule: RebindSection_cases [of pf dy c sect s])
  case (scanned a z)
  show ?thesis
    unfolding scanned(8)
    by (rule image_rewritten.sect [OF image_rewritten.none scanned(1) assms scanned(2-5)])
       (rule rebind_slots_stores [OF slots_rewritten.none])
qed (simp add: image_rewritten.none)

end
