(* ===== verification/Rebind.thy ===== *)
theory Rebind
  imports Rebind_Section
begin

text \<open>
  Rebinding the symbol pointers of an image. For an image whose sections lie apart from its load
  commands, exactly the symbol-pointer sections of the command table are processed, in order, although
  the iteration reads the table anew from memory that it changes; then the slots of every section
  are settled. For any image, however malformed, nothing but matching slots is written.
\<close>

section \<open>Visitors with effects\<close>

text \<open>
  The interface between the iteration and a callback that changes the machine: each visit stays
  within a reflexive and transitive relation on machines and keeps its context, whatever command
  it is given. Then so does the whole iteration.
\<close>

locale steady_visitor =
  fixes visitor :: "('w, 'c) visitor"
    and R :: "'c \<Rightarrow> 'w machine \<Rightarrow> 'w machine \<Rightarrow> bool"
  assumes R_refl: "R c s s"
    and R_trans: "R c s t \<Longrightarrow> R c t u \<Longrightarrow> R c s u"
    and visit_R: "visitor command index s c = (k, s', c') \<Longrightarrow> R c s s' \<and> c' = c"
begin

lemma visit_loop_steady: "R c s (fst (visit_loop visitor header base index consumed s c))"
proof (induction "2 ^ 32 - unat index" arbitrary: index consumed s rule: less_induct)
  case less
  obtain k s' c' where v: "visitor (base + ucast consumed) index s c = (k, s', c')" by (metis prod_cases3)
  then have R: "R c s s'" "c' = c" using visit_R by auto
  show ?case
  proof (cases "index < header_ncmds (mem s) header \<and> k")
    case True
    then have "2 ^ 32 - unat (index + 1) < 2 ^ 32 - unat index"
      using index_room_decreases [where ?'a = 32, of index "header_ncmds (mem s) header"] by simp
    then show ?thesis
      using True v R R_trans less by (subst visit_loop.simps) (simp add: Let_def)
  next
    case False
    then show ?thesis using v R R_refl by (subst visit_loop.simps) (auto simp: Let_def)
  qed
qed

lemma for_each_steady:
  "R c s (fst (snd (RorkHookForEachLoadCommandWithSize header mappedSize (Some visitor) s c)))"
  using validate.run_cases [of "(mem s, header, mappedSize)" "Some 0"] visit_loop_steady R_refl
  by (auto simp: RorkHookForEachLoadCommandWithSize_def split: option.split)

lemma for_each_malformed:
  "command_table (mem s) header (unat mappedSize) = None \<Longrightarrow>
     RorkHookForEachLoadCommandWithSize header mappedSize (Some visitor) s c = (False, s, c)"
  using validate.no_result [of "(mem s, header, mappedSize)" 0]
  by (simp add: RorkHookForEachLoadCommandWithSize_def)

end

definition section_pass ::
  "'w platform \<Rightarrow> 'w dyld \<Rightarrow> RorkHookRebindImageContext \<Rightarrow> memory \<Rightarrow> u64 \<Rightarrow> 'w machine \<Rightarrow> 'w machine" where
  "section_pass pf dy c m sect s =
     (if is_pointer_section m sect then RorkHookRebindSection pf dy c sect s else s)"

lemma rebind_sections_step:
  "rebind_sections_loop pf dy c segment sections index s =
     (if index < segment_nsects (mem s) segment
      then rebind_sections_loop pf dy c segment sections (index + 1)
             (section_pass pf dy c (mem s) (sections + ucast index * 80) s)
      else s)"
  by (subst rebind_sections_loop.simps) (simp add: Let_def section_pass_def is_pointer_section_def)

lemma section_pass_rewritten: "image_rewritten pf dy c s (section_pass pf dy c (mem s) sect s)"
  by (simp add: section_pass_def RebindSection_image_rewritten image_rewritten.none)

lemma rebind_sections_rewritten:
  "image_rewritten pf dy c s (rebind_sections_loop pf dy c segment sections index s)"
proof (induction "2 ^ 32 - unat index" arbitrary: index s rule: less_induct)
  case less
  show ?case
  proof (cases "index < segment_nsects (mem s) segment")
    case True
    let ?t = "section_pass pf dy c (mem s) (sections + ucast index * 80) s"
    have "2 ^ 32 - unat (index + 1) < 2 ^ 32 - unat index"
      using index_room_decreases [OF True] by simp
    then have "image_rewritten pf dy c ?t (rebind_sections_loop pf dy c segment sections (index + 1) ?t)"
      by (rule less)
    then have "image_rewritten pf dy c s (rebind_sections_loop pf dy c segment sections (index + 1) ?t)"
      by (rule image_rewritten_trans [OF section_pass_rewritten])
    then show ?thesis by (subst rebind_sections_step) (simp add: True)
  qed (subst rebind_sections_step, simp add: image_rewritten.none)
qed

interpretation rebind_visitor: steady_visitor "RorkHookRebindImageLoadCommand pf dy" "image_rewritten pf dy" for pf dy
  by unfold_locales
     (auto simp: RorkHookRebindImageLoadCommand_def Let_def split: if_splits
       intro: image_rewritten.none image_rewritten_trans rebind_sections_rewritten)

section \<open>The sections of an image\<close>

text \<open>
  What the library relies on when it rewrites an image while iterating over its load commands:
  the linker finds a section from the header and load commands alone, and no section overlaps
  them.
\<close>

definition sections_apart :: "'w dyld \<Rightarrow> memory \<Rightarrow> u64 \<Rightarrow> nat \<Rightarrow> bool" where
  "sections_apart dy m header n \<longleftrightarrow>
     (\<forall>m' segname sectname. agree m m' header n \<longrightarrow>
        getsectiondata dy m' header segname sectname = getsectiondata dy m header segname sectname) \<and>
     (\<forall>segname sectname. case getsectiondata dy m header segname sectname of (a, z) \<Rightarrow>
        unat a + unat z \<le> unat header \<or> unat header + n \<le> unat a)"

definition image_sections :: "memory \<Rightarrow> u64 \<Rightarrow> nat list \<Rightarrow> u64 list" where
  "image_sections m header offs = concat (map (\<lambda>off. pointer_sections m (header + 32 + of_nat off)) offs)"

lemma agree_trans: "agree m m' p n \<Longrightarrow> agree m' m'' p n \<Longrightarrow> agree m m'' p n"
  by (simp add: agree_def)

lemma sections_apart_range:
  assumes "sections_apart dy m header n" "agree m m' header n"
    and "section_range dy m' header sect = (a, z)"
  shows "unat a + unat z \<le> unat header \<or> unat header + n \<le> unat a"
proof -
  have "getsectiondata dy m header (RorkHookCopyName m' (sect + 16)) (RorkHookCopyName m' sect) = (a, z)"
    using conjunct1 [OF assms(1) [unfolded sections_apart_def], rule_format, OF assms(2)] assms(3)
    unfolding section_range_def by (rule trans [OF sym])
  with conjunct2 [OF assms(1) [unfolded sections_apart_def], rule_format,
      of "RorkHookCopyName m' (sect + 16)" "RorkHookCopyName m' sect"]
  show ?thesis by simp
qed

lemma RebindSection_keeps_header:
  assumes "sections_apart dy m (ric_header c) n" "unat (ric_header c) + n \<le> 2 ^ 64"
    and keep: "agree m (mem s) (ric_header c) n"
  shows "agree m (mem (RorkHookRebindSection pf dy c sect s)) (ric_header c) n"
proof -
  let ?h = "ric_header c"
  obtain a z where r: "section_range dy (mem s) ?h sect = (a, z)" by fastforce
  then have "unat a + unat z \<le> unat ?h \<or> unat ?h + n \<le> unat a"
    by (intro sections_apart_range [OF assms(1) keep])
  then have "mem (RorkHookRebindSection pf dy c sect s) (?h + of_nat i) = mem s (?h + of_nat i)" if "i < n" for i
  proof (intro RebindSection_frame [OF r])
    have "unat (?h + of_nat i) = unat ?h + i"
      using that assms(2) by (subst unat_add_no_wrap) (simp_all add: unat_of_nat)
    then show "unat (?h + of_nat i) < unat a \<or> unat a + unat z \<le> unat (?h + of_nat i)"
      using \<open>unat a + unat z \<le> unat ?h \<or> unat ?h + n \<le> unat a\<close> that by auto
  qed
  then show ?thesis using keep by (simp add: agree_def)
qed

lemma agree_pointer_section: "agree m m' a 80 \<Longrightarrow> is_pointer_section m a = is_pointer_section m' a"
  by (simp add: is_pointer_section_def section_flags_def agree_field32)

lemma agree_section_flags:
  assumes "agree m m' segment n" "72 + 80 * Suc i \<le> n"
  shows "is_pointer_section m (segment + 72 + of_nat (80 * i)) = is_pointer_section m' (segment + 72 + of_nat (80 * i))"
proof -
  have "agree m m' (segment + of_nat (72 + 80 * i)) 80" using assms by (intro agree_sub_nat) auto
  then have "agree m m' (segment + 72 + of_nat (80 * i)) 80" by (simp add: add.assoc)
  then show ?thesis by (rule agree_pointer_section)
qed

lemma rebind_sections_fold:
  assumes keep: "\<And>t sect. K t \<Longrightarrow> K (RorkHookRebindSection pf dy c sect t)"
    and view: "\<And>t. K t \<Longrightarrow> agree m (mem t) segment n" "72 + 80 * unat (segment_nsects m segment) \<le> n"
    and "K t" "index \<le> segment_nsects m segment"
  shows "rebind_sections_loop pf dy c segment (segment + 72) index t =
    fold (RorkHookRebindSection pf dy c)
      (filter (is_pointer_section m)
        (map (\<lambda>i. segment + 72 + of_nat (80 * i)) [unat index..<unat (segment_nsects m segment)])) t"
  using assms(4,5)
proof (induction "unat (segment_nsects m segment) - unat index" arbitrary: index t)
  case 0
  then have "index = segment_nsects m segment" by (simp add: word_le_nat_alt word_unat_eq_iff)
  moreover have "segment_nsects (mem t) segment = segment_nsects m segment"
    using agree_segment(5) [OF view(1) [OF 0(2)]] view(2) by simp
  ultimately show ?case by (subst rebind_sections_step) simp
next
  case (Suc k)
  let ?n = "segment_nsects m segment"
  let ?sect = "segment + 72 + of_nat (80 * unat index)"
  have lt: "index < ?n" "unat index < unat ?n" using Suc(2) by (simp_all add: word_less_nat_alt)
  then have inc: "unat (index + 1) = Suc (unat index)" by (simp add: unat_inc)
  have n: "segment_nsects (mem t) segment = ?n"
    using agree_segment(5) [OF view(1) [OF Suc(3)]] view(2) by simp
  have flags: "is_pointer_section (mem t) ?sect = is_pointer_section m ?sect"
    using lt(2) view(2) by (intro agree_section_flags [symmetric, OF view(1) [OF Suc(3)]]) simp
  have addr: "segment + 72 + ucast index * 80 = ?sect" by (simp add: mult.commute)
  have K: "K (section_pass pf dy c m ?sect t)" using keep Suc(3) by (simp add: section_pass_def)
  have "rebind_sections_loop pf dy c segment (segment + 72) index t =
      rebind_sections_loop pf dy c segment (segment + 72) (index + 1) (section_pass pf dy c m ?sect t)"
    using lt(1) n flags by (subst rebind_sections_step) (simp only: addr section_pass_def if_True)
  also have "\<dots> = fold (RorkHookRebindSection pf dy c) (filter (is_pointer_section m)
      (map (\<lambda>i. segment + 72 + of_nat (80 * i)) [Suc (unat index)..<unat ?n])) (section_pass pf dy c m ?sect t)"
    unfolding inc [symmetric] using Suc(2) inc lt K
    by (intro Suc(1)) (simp_all add: word_le_nat_alt)
  also have "\<dots> = fold (RorkHookRebindSection pf dy c) (filter (is_pointer_section m)
      (map (\<lambda>i. segment + 72 + of_nat (80 * i)) [unat index..<unat ?n])) t"
    unfolding upt_conv_Cons [OF lt(2)] by (simp add: section_pass_def)
  finally show ?case .
qed

lemma rebind_visit_fold:
  assumes keep: "\<And>t sect. K t \<Longrightarrow> K (RorkHookRebindSection pf dy c sect t)"
    and view: "\<And>t. K t \<Longrightarrow> agree m (mem t) command (unat (command_cmdsize m command))"
    and "8 \<le> unat (command_cmdsize m command)" "command \<noteq> 0" "K t"
  shows "RorkHookRebindImageLoadCommand pf dy command index t c =
    (True, fold (RorkHookRebindSection pf dy c) (pointer_sections m command) t, c)"
proof -
  let ?z = "command_cmdsize m command" and ?n = "segment_nsects m command"
  have cmd: "command_cmd (mem t) command = command_cmd m command" "command_cmdsize (mem t) command = ?z"
    using agree_command [OF view [OF assms(5)] assms(3)] by simp_all
  have n: "segment_nsects (mem t) command = ?n" if "72 \<le> unat ?z"
    using agree_segment(5) [OF view [OF assms(5)] that] by simp
  have b: "unat ?n < 2 ^ 32" using unsigned_less [of ?n, where ?'a = nat] by simp
  then have u: "unat (ucast ?n * 80 :: u64) = 80 * unat ?n" by (simp add: unat_word_ariths)
  with b have "unat (72 + ucast ?n * 80 :: u64) = 72 + 80 * unat ?n" by (simp add: unat_word_ariths)
  then have guard: "ucast ?z < (72 + ucast ?n * 80 :: u64) \<longleftrightarrow> unat ?z < 72 + 80 * unat ?n"
    by (simp add: word_less_nat_alt)
  have small: "?z < 72 \<longleftrightarrow> unat ?z < 72" by (simp add: word_less_nat_alt)
  show ?thesis
  proof (cases "command_cmd m command = RORK_HOOK_LC_SEGMENT \<and> 72 + 80 * unat ?n \<le> unat ?z")
    case True
    have "rebind_sections_loop pf dy c command (command + 72) 0 t =
        fold (RorkHookRebindSection pf dy c) (pointer_sections m command) t"
      using rebind_sections_fold [where K = K and m = m and segment = command and n = "unat ?z" and index = 0,
          OF keep view] True assms(5)
      by (simp add: pointer_sections_def segment_sections_def)
    with True show ?thesis
      using cmd n guard small b u assms(4) by (auto simp: RorkHookRebindImageLoadCommand_def Let_def)
  next
    case False
    then show ?thesis
      using cmd n guard small
      by (auto simp: RorkHookRebindImageLoadCommand_def Let_def pointer_sections_def segment_sections_def)
  qed
qed

text \<open>A visitor that never stops and never touches the header visits the whole table, although it
  changes memory on the way.\<close>

lemma visit_loop_fold:
  assumes act: "\<And>t off index. K t \<Longrightarrow> off \<in> set offs \<Longrightarrow>
      visitor (base + of_nat off) index t c = (True, act (base + of_nat off) t, c) \<and> K (act (base + of_nat off) t)"
    and view: "\<And>t. K t \<Longrightarrow> header_ncmds (mem t) header = header_ncmds m header"
      "\<And>t off. K t \<Longrightarrow> off \<in> set offs \<Longrightarrow>
        command_cmdsize (mem t) (base + of_nat off) = command_cmdsize m (base + of_nat off)"
    and "K t" "index \<le> header_ncmds m header" "limit < 2 ^ 32"
    and "command_offsets m base (unat (header_ncmds m header) - unat index) (unat consumed) limit = Some offs"
  shows "visit_loop visitor header base index consumed t c =
    (fold act (map (\<lambda>off. base + of_nat off) offs) t, c)"
  using assms
proof (induction offs arbitrary: index consumed t)
  case Nil
  then have "unat (header_ncmds m header) - unat index = 0" using command_offsets_length by fastforce
  then show ?case using Nil(2,4) by (subst visit_loop.simps) (simp add: word_less_nat_alt)
next
  case (Cons off offs)
  let ?n = "header_ncmds m header" and ?z = "command_cmdsize m (base + ucast consumed)"
  have "unat ?n - unat index \<noteq> 0" using command_offsets_length [OF Cons.prems(7)] by simp
  then have lt: "index < ?n" "unat index < unat ?n" by (simp_all add: word_less_nat_alt)
  then have inc: "unat (index + 1) = Suc (unat index)" by (simp add: unat_inc)
  then have len: "unat ?n - unat index = Suc (unat ?n - unat (index + 1))" using lt(2) by simp
  have offs: "off = unat consumed" "unat consumed + unat ?z \<le> limit"
    "command_offsets m base (unat ?n - unat (index + 1)) (unat consumed + unat ?z) limit = Some offs"
    using Cons.prems(7) by (auto simp: len Let_def split: if_splits)
  have sum: "unat (consumed + ?z) = unat consumed + unat ?z"
    using offs(2) Cons.prems(6) by (simp add: unat_word_ariths)
  let ?t = "act (base + ucast consumed) t"
  have v: "visitor (base + ucast consumed) index t c = (True, ?t, c)" "K ?t"
    using Cons.prems(1) [of t off index] Cons.prems(4) offs(1) by simp_all
  have "command_cmdsize (mem ?t) (base + ucast consumed) = ?z"
    using Cons.prems(3) [OF v(2), of off] offs(1) by simp
  then have "visit_loop visitor header base index consumed t c =
      visit_loop visitor header base (index + 1) (consumed + ?z) ?t c"
    using lt(1) v(1) Cons.prems(2,4) by (subst visit_loop.simps) (simp add: Let_def)
  also have "\<dots> = (fold act (map (\<lambda>off. base + of_nat off) offs) ?t, c)"
  proof (rule Cons.IH)
    show "index + 1 \<le> ?n" using lt(2) inc by (simp add: word_le_nat_alt)
    show "command_offsets m base (unat ?n - unat (index + 1)) (unat (consumed + ?z)) limit = Some offs"
      using offs(3) sum by simp
  qed (use Cons.prems v(2) in auto)
  finally show ?case using offs(1) by simp
qed

lemma fold_concat_map: "fold f (concat (map g xs)) s = fold (\<lambda>x. fold f (g x)) xs s"
  by (induction xs arbitrary: s) auto

lemma fold_keeps: "(\<And>x t. K t \<Longrightarrow> K (f x t)) \<Longrightarrow> K s \<Longrightarrow> K (fold f xs s)"
  by (induction xs arbitrary: s) auto

lemma RebindSymbolInImage_fold:
  assumes offs: "command_table (mem s) header (unat (RorkHookReadableMemoryLength pf (world s) header)) = Some offs"
    and apart: "sections_apart dy (mem s) header (32 + unat (header_sizeofcmds (mem s) header))"
    and c: "ric_header c = header"
  shows "RorkHookForEachLoadCommand pf header (Some (RorkHookRebindImageLoadCommand pf dy)) s c =
    (True, fold (RorkHookRebindSection pf dy c) (image_sections (mem s) header offs) s, c)"
proof -
  let ?m = "mem s" and ?n = "32 + unat (header_sizeofcmds (mem s) header)"
  define K where "K t \<longleftrightarrow> agree ?m (mem t) header ?n" for t :: "'a machine"
  let ?act = "\<lambda>a. fold (RorkHookRebindSection pf dy c) (pointer_sections ?m a)"
  note wrap = table_nonempty_region [OF offs]
  note room = command_table_room(2,5) [OF offs]
  note bounds = command_offsets_bounds [OF room(2)]
  have keep: "K (RorkHookRebindSection pf dy c sect t)" if "K t" for t sect
    unfolding K_def using apart room(1) wrap that
    by (intro RebindSection_keeps_header [of dy ?m c ?n t, unfolded c]) (auto simp: K_def)
  have cmd: "agree ?m (mem t) (header + 32 + of_nat off)
      (unat (command_cmdsize ?m (header + 32 + of_nat off)))" if "K t" "off \<in> set offs" for t off
    using agree_sub_nat [of ?m "mem t" header ?n "32 + off"] bounds [OF that(2)] that(1)
    by (simp add: K_def add.assoc)
  have "visit_loop (RorkHookRebindImageLoadCommand pf dy) header (header + 32) 0 0 s c =
      (fold ?act (map (\<lambda>off. header + 32 + of_nat off) offs) s, c)"
  proof (rule visit_loop_fold [where K = K and m = ?m and limit = "unat (header_sizeofcmds ?m header)"])
    fix t off index assume t: "K t" "off \<in> set offs"
    then show "RorkHookRebindImageLoadCommand pf dy (header + 32 + of_nat off) index t c =
        (True, ?act (header + 32 + of_nat off) t, c) \<and> K (?act (header + 32 + of_nat off) t)"
      using rebind_visit_fold [where K = K and m = ?m, OF keep cmd] bounds
        table_command_address(2) [OF offs wrap] fold_keeps [of K, OF keep] by simp
    show "command_cmdsize (mem t) (header + 32 + of_nat off) = command_cmdsize ?m (header + 32 + of_nat off)"
      using agree_command(2) [OF cmd [OF t]] bounds [OF t(2)] by simp
  next
    fix t assume "K t"
    then show "header_ncmds (mem t) header = header_ncmds ?m header"
      unfolding K_def by (rule agree_header(2) [symmetric]) simp
  qed (use room unsigned_less [of "header_sizeofcmds ?m header", where ?'a = nat] in \<open>auto simp: K_def\<close>)
  then show ?thesis
    using offs validate.has_result [of "(?m, header, RorkHookReadableMemoryLength pf (world s) header)" "header + 32" 0]
    by (simp add: RorkHookForEachLoadCommand_def RorkHookForEachLoadCommandWithSize_def image_sections_def
        fold_concat_map fold_map comp_def)
qed

lemma rebind_slots_idle:
  assumes "\<And>i. unat index \<le> i \<Longrightarrow> i < unat slotCount \<Longrightarrow>
      \<not> matches pf (ric_replaceeRaw c) (load64 (mem s) (slots + of_nat (8 * i)))"
  shows "rebind_slots_loop pf c auth slots slotCount index s = s"
  using assms
proof (induction "unat slotCount - unat index" arbitrary: index)
  case 0
  then show ?case by (subst rebind_slots_step) (simp add: word_less_nat_alt)
next
  case (Suc k)
  then have lt: "index < slotCount" "unat index < unat slotCount" by (simp_all add: word_less_nat_alt)
  then have inc: "unat (index + 1) = Suc (unat index)" by (simp add: unat_inc)
  have "\<not> matches pf (ric_replaceeRaw c) (load64 (mem s) (slots + index * 8))"
    using Suc(3) [of "unat index"] lt(2) by (simp add: mult.commute)
  then show ?case
    using lt Suc(1) [of "index + 1"] Suc(2,3) inc by (subst rebind_slots_step) (simp add: slot_pass_def)
qed

section \<open>Slots of an image\<close>

text \<open>The section records of the image lie in its header and load commands.\<close>

lemma image_section_address:
  assumes offs: "command_table m header mapped = Some offs" and sect: "sect \<in> set (image_sections m header offs)"
  obtains k where "sect = header + of_nat k" "k + 80 \<le> 32 + unat (header_sizeofcmds m header)"
proof -
  obtain off i where off: "off \<in> set offs" and c: "72 + 80 * unat (segment_nsects m (header + 32 + of_nat off)) \<le>
      unat (command_cmdsize m (header + 32 + of_nat off))" "i < unat (segment_nsects m (header + 32 + of_nat off))"
    and s: "sect = header + 32 + of_nat off + 72 + of_nat (80 * i)"
    using sect by (auto simp: image_sections_def pointer_sections_def segment_sections_def split: if_splits)
  have "off + unat (command_cmdsize m (header + 32 + of_nat off)) \<le> unat (header_sizeofcmds m header)"
    using command_offsets_bounds [OF command_table_room(5) [OF offs] off] by simp
  with c show thesis by (intro that [of "32 + off + 72 + 80 * i"]) (simp_all add: s algebra_simps)
qed

lemma image_section_agree:
  assumes "command_table m header mapped = Some offs" "sect \<in> set (image_sections m header offs)"
    and "agree m m' header (32 + unat (header_sizeofcmds m header))"
  shows "agree m m' sect 80"
  using image_section_address [OF assms(1,2)] agree_sub_nat [OF assms(3)] by metis

lemma image_section_nonnull:
  assumes "command_table m header mapped = Some offs" "sect \<in> set (image_sections m header offs)"
    and "unat header + (32 + unat (header_sizeofcmds m header)) \<le> 2 ^ 64"
  shows "sect \<noteq> 0"
proof -
  obtain k where k: "sect = header + of_nat k" "k + 80 \<le> 32 + unat (header_sizeofcmds m header)"
    by (rule image_section_address [OF assms(1,2)])
  then have "unat sect = unat header + k"
    using assms(3) by (simp add: unat_add_no_wrap unat_of_nat)
  moreover have "unat header \<noteq> 0" using command_table_room(1) [OF assms(1)] by (simp add: unat_eq_zero)
  ultimately show ?thesis by auto
qed

lemma section_range_agree:
  assumes "sections_apart dy m header n" "agree m m' header n" "agree m m' sect 80"
  shows "section_range dy m' header sect = section_range dy m header sect" "is_auth_got m' sect = is_auth_got m sect"
proof -
  have "load_bytes m sect 16 = load_bytes m' sect 16" using assms(3) by (rule agree_load_bytes) simp
  moreover have "load_bytes m (sect + 16) 16 = load_bytes m' (sect + 16) 16"
    using agree_sub_nat [OF assms(3), of 16 16] by (simp add: agree_load_bytes)
  ultimately have name: "RorkHookCopyName m' sect = RorkHookCopyName m sect"
    "RorkHookCopyName m' (sect + 16) = RorkHookCopyName m (sect + 16)"
    by (simp_all add: RorkHookCopyName_def)
  then show "is_auth_got m' sect = is_auth_got m sect" by (simp add: is_auth_got_def)
  show "section_range dy m' header sect = section_range dy m header sect"
    using conjunct1 [OF assms(1) [unfolded sections_apart_def], rule_format, OF assms(2)] name
    by (simp add: section_range_def)
qed

text \<open>The machines that a rebind passes through, seen from its header and load commands.\<close>

definition rebind_reached :: "'w platform \<Rightarrow> RorkHookRebindImageContext \<Rightarrow> nat \<Rightarrow> 'w machine \<Rightarrow> 'w machine \<Rightarrow> bool" where
  "rebind_reached pf c n s t \<longleftrightarrow>
     agree (mem s) (mem t) (ric_header c) n \<and> rewritten pf (ric_replaceeRaw c) (ric_replacement c) s t"

lemma reached_refl: "rebind_reached pf c n s s"
  by (simp add: rebind_reached_def agree_def rewritten.unchanged)

lemma reached_pass:
  assumes "sections_apart dy (mem s) (ric_header c) n" "unat (ric_header c) + n \<le> 2 ^ 64"
    and "rebind_reached pf c n s t"
  shows "rebind_reached pf c n s (RorkHookRebindSection pf dy c sect t)"
proof -
  have "agree (mem s) (mem t) (ric_header c) n" "rewritten pf (ric_replaceeRaw c) (ric_replacement c) s t"
    using assms(3) by (simp_all add: rebind_reached_def)
  from RebindSection_keeps_header [OF assms(1,2) this(1)] rewritten_trans [OF this(2) RebindSection_rewritten]
  show ?thesis unfolding rebind_reached_def by (rule conjI)
qed

text \<open>Passes over sections that lie apart from a slot leave it alone.\<close>

lemma reached_fold_apart:
  assumes apart: "sections_apart dy (mem s) (ric_header c) n" "unat (ric_header c) + n \<le> 2 ^ 64"
    and slot: "unat slot + 8 \<le> 2 ^ 64"
    and away: "\<And>t sect b y. rebind_reached pf c n s t \<Longrightarrow> sect \<in> set sects \<Longrightarrow>
      section_range dy (mem t) (ric_header c) sect = (b, y) \<Longrightarrow> unat b + unat y \<le> unat slot \<or> unat slot + 8 \<le> unat b"
    and t: "rebind_reached pf c n s t"
  shows "rebind_reached pf c n s (fold (RorkHookRebindSection pf dy c) sects t) \<and>
    load64 (mem (fold (RorkHookRebindSection pf dy c) sects t)) slot = load64 (mem t) slot"
  using away t
proof (induction sects arbitrary: t)
  case (Cons sect sects)
  let ?t = "RorkHookRebindSection pf dy c sect t"
  obtain b y where r: "section_range dy (mem t) (ric_header c) sect = (b, y)" by fastforce
  then have "unat b + unat y \<le> unat slot \<or> unat slot + 8 \<le> unat b"
    by (intro Cons.prems(1) [OF Cons.prems(2)]) simp_all
  then have "load64 (mem ?t) slot = load64 (mem t) slot"
    using slot by (intro load64_frame RebindSection_frame [OF r]) auto
  moreover have "rebind_reached pf c n s (fold (RorkHookRebindSection pf dy c) sects ?t) \<and>
      load64 (mem (fold (RorkHookRebindSection pf dy c) sects ?t)) slot = load64 (mem ?t) slot"
    using Cons.prems reached_pass [OF apart] by (intro Cons.IH) auto
  ultimately show ?case by simp
qed simp

lemma fold_sections_rewritten:
  "rewritten pf (ric_replaceeRaw c) (ric_replacement c) t (fold (RorkHookRebindSection pf dy c) sects t)"
  by (induction sects arbitrary: t) (auto intro: rewritten.unchanged rewritten_trans RebindSection_rewritten)

lemma slot_of_range:
  fixes a z :: u64
  assumes "unat a + unat z < 2 ^ 64" "i < unat z div 8"
  shows "unat (a + of_nat (8 * i)) = unat a + 8 * i" "8 * i + 8 \<le> unat z"
proof -
  show "8 * i + 8 \<le> unat z" using assms(2) by simp
  then have "unat (of_nat (8 * i) :: u64) = 8 * i" using assms(1) by (simp only: unat_of_nat) simp
  then show "unat (a + of_nat (8 * i)) = unat a + 8 * i"
    using assms(1) \<open>8 * i + 8 \<le> unat z\<close> by (subst unat_add_no_wrap) simp_all
qed

lemma fold_section_settled:
  assumes apart: "sections_apart dy (mem s) (ric_header c) n" "unat (ric_header c) + n \<le> 2 ^ 64"
    and stable: "\<And>t x. rebind_reached pf c n s t \<Longrightarrow> x \<in> set (before @ sect # after) \<Longrightarrow>
      section_range dy (mem t) (ric_header c) x = section_range dy (mem s) (ric_header c) x \<and>
      is_auth_got (mem t) x = is_auth_got (mem s) x"
    and range: "section_range dy (mem s) (ric_header c) sect = (a, z)" "sect \<noteq> 0" "a \<noteq> 0" "unat z mod 8 = 0"
    and others: "\<And>other b y. other \<in> set (before @ after) \<Longrightarrow> section_range dy (mem s) (ric_header c) other = (b, y) \<Longrightarrow>
      unat b + unat y \<le> unat a \<or> unat a + unat z \<le> unat b"
    and readable: "\<And>t. rewritten pf (ric_replaceeRaw c) (ric_replacement c) s t \<Longrightarrow>
      RorkHookMemoryIsReadable pf (world t) a z"
    and i: "i < unat z div 8"
  shows "slot_settled pf (ric_replaceeRaw c) (ric_replacement c) (is_auth_got (mem s) sect) (a + of_nat (8 * i)) s
    (fold (RorkHookRebindSection pf dy c) (before @ sect # after) s)"
proof -
  let ?f = "RorkHookRebindSection pf dy c" and ?slot = "a + of_nat (8 * i)"
  note slot = slot_of_range [OF readable_no_wrap [OF readable [OF rewritten.unchanged]] i]
  have room: "unat ?slot + 8 \<le> 2 ^ 64"
    using slot readable_no_wrap [OF readable [OF rewritten.unchanged]] by linarith
  have away: "unat b + unat y \<le> unat ?slot \<or> unat ?slot + 8 \<le> unat b"
    if "rebind_reached pf c n s t" "x \<in> set (before @ after)" "section_range dy (mem t) (ric_header c) x = (b, y)"
    for t x b y
  proof -
    have "section_range dy (mem s) (ric_header c) x = (b, y)" using stable [OF that(1), of x] that(2,3) by auto
    from others [OF that(2) this] show ?thesis using slot by linarith
  qed
  have apart_fold: "rebind_reached pf c n s (fold ?f xs t) \<and> load64 (mem (fold ?f xs t)) ?slot = load64 (mem t) ?slot"
    if "set xs \<subseteq> set (before @ after)" "rebind_reached pf c n s t" for xs t
    using that(1) by (intro reached_fold_apart [OF apart room _ that(2)] away) auto
  define t1 where "t1 = fold ?f before s"
  define t2 where "t2 = ?f sect t1"
  have 1: "rebind_reached pf c n s t1" "load64 (mem t1) ?slot = load64 (mem s) ?slot"
    using apart_fold [OF _ reached_refl, of before] by (simp_all add: t1_def)
  have "section_range dy (mem t1) (ric_header c) sect = (a, z)" "is_auth_got (mem t1) sect = is_auth_got (mem s) sect"
    using stable [OF 1(1), of sect] range(1) by simp_all
  then have pass: "slot_settled pf (ric_replaceeRaw c) (ric_replacement c) (is_auth_got (mem s) sect) ?slot t1 t2"
    using RebindSection_settles [of dy t1 c sect a z pf i] range(2-) i readable [of t1] 1(1)
    by (simp add: t2_def rebind_reached_def)
  have "load64 (mem (fold ?f after t2)) ?slot = load64 (mem t2) ?slot"
    using apart_fold [OF _ reached_pass [OF apart 1(1)], of after] by (simp add: t2_def)
  from slot_settled_later [OF pass fold_sections_rewritten this] 1
  show ?thesis by (auto simp: rebind_reached_def t1_def t2_def intro: slot_settled_earlier)
qed

section \<open>The library's own protect calls\<close>

lemma rebound_strip: "RorkHookStripPointer (rebind_vm_protect hook pf) = RorkHookStripPointer pf"
  by (simp add: fun_eq_iff RorkHookStripPointer_def)

lemma rebound_slot_pass: "slot_pass (rebind_vm_protect hook pf) = slot_pass pf"
  by (simp add: fun_eq_iff slot_pass_def matches_def slot_value_def rebound_strip RorkHookStoreSlot_def rebind_store)
     (simp add: rebind_vm_protect_def)

lemma rebound_slots:
  "rebind_slots_loop (rebind_vm_protect hook pf) c auth slots slotCount index s =
     rebind_slots_loop pf c auth slots slotCount index s"
proof (induction "unat slotCount - unat index" arbitrary: index s)
  case 0
  then show ?case by (subst (1 2) rebind_slots_step) (simp add: word_less_nat_alt)
next
  case (Suc k)
  then have lt: "index < slotCount" by (simp add: word_less_nat_alt)
  then have "k = unat slotCount - unat (index + 1)" using Suc(2) by (simp add: unat_inc)
  then show ?case
    using lt Suc(1) [of "index + 1"] by (subst (1 2) rebind_slots_step) (simp add: rebound_slot_pass)
qed

lemma rebound_section: "RorkHookRebindSection (rebind_vm_protect hook pf) = RorkHookRebindSection pf"
  unfolding fun_eq_iff RorkHookRebindSection_def rebind_queries rebound_slots by simp

lemma rebound_sections:
  "rebind_sections_loop (rebind_vm_protect hook pf) dy c segment sections index s =
     rebind_sections_loop pf dy c segment sections index s"
proof (induction "2 ^ 32 - unat index" arbitrary: index s rule: less_induct)
  case less
  show ?case
  proof (cases "index < segment_nsects (mem s) segment")
    case True
    then show ?thesis
      using less [of "index + 1"] index_room_decreases [OF True]
      by (subst (1 2) rebind_sections_step) (simp add: section_pass_def rebound_section)
  qed (subst (1 2) rebind_sections_step, simp)
qed

lemma rebound_image:
  "RorkHookRebindSymbolInImage (rebind_vm_protect hook pf) = RorkHookRebindSymbolInImage pf"
proof -
  have visitor: "RorkHookRebindImageLoadCommand (rebind_vm_protect hook pf) = RorkHookRebindImageLoadCommand pf"
    unfolding fun_eq_iff RorkHookRebindImageLoadCommand_def rebound_sections by simp
  show ?thesis
    by (intro ext) (simp only: RorkHookRebindSymbolInImage_def RorkHookForEachLoadCommand_def
      rebind_queries rebound_strip visitor)
qed

section \<open>One image\<close>

lemma RebindSymbolInImage_effect:
  "if header = 0 \<or> replacee = 0 \<or> replacement = 0 \<or>
      command_table (mem s) header (unat (RorkHookReadableMemoryLength pf (world s) header)) = None
   then RorkHookRebindSymbolInImage pf dy header replacee replacement s = s
   else image_rewritten pf dy
          \<lparr>ric_header = header, ric_replaceeRaw = RorkHookStripPointer pf replacee, ric_replacement = replacement\<rparr>
          s (RorkHookRebindSymbolInImage pf dy header replacee replacement s)"
  using rebind_visitor.for_each_steady [where pf = pf and dy = dy and s = s and header = header
      and c = "\<lparr>ric_header = header, ric_replaceeRaw = RorkHookStripPointer pf replacee, ric_replacement = replacement\<rparr>"
      and mappedSize = "RorkHookReadableMemoryLength pf (world s) header"]
  by (auto simp: RorkHookRebindSymbolInImage_def RorkHookForEachLoadCommand_def Let_def
      rebind_visitor.for_each_malformed)

lemma RebindSymbolInImage_precise:
  "image_rewritten pf dy
     \<lparr>ric_header = header, ric_replaceeRaw = RorkHookStripPointer pf replacee, ric_replacement = replacement\<rparr>
     s (RorkHookRebindSymbolInImage pf dy header replacee replacement s)"
  using RebindSymbolInImage_effect [where pf = pf and dy = dy and s = s and header = header
      and replacee = replacee and replacement = replacement]
  by (auto intro: image_rewritten.none split: if_splits)

lemma RebindSymbolInImage_rewritten:
  "rewritten pf (RorkHookStripPointer pf replacee) replacement s
     (RorkHookRebindSymbolInImage pf dy header replacee replacement s)"
  using image_rewritten_loose [OF RebindSymbolInImage_precise, where ?replacee1 = replacee] by simp

lemma RebindSymbolInImage_settles:
  assumes offs: "command_table (mem s) header (unat (RorkHookReadableMemoryLength pf (world s) header)) = Some offs"
    and apart: "sections_apart dy (mem s) header (32 + unat (header_sizeofcmds (mem s) header))"
    and nonnull: "replacee \<noteq> 0" "replacement \<noteq> 0"
    and split: "image_sections (mem s) header offs = before @ sect # after"
    and range: "section_range dy (mem s) header sect = (a, z)" "a \<noteq> 0" "unat z mod 8 = 0"
    and others: "\<And>other b y. other \<in> set (before @ after) \<Longrightarrow> section_range dy (mem s) header other = (b, y) \<Longrightarrow>
      unat b + unat y \<le> unat a \<or> unat a + unat z \<le> unat b"
    and readable: "\<And>t. rewritten pf (RorkHookStripPointer pf replacee) replacement s t \<Longrightarrow>
      RorkHookMemoryIsReadable pf (world t) a z"
    and i: "i < unat z div 8"
  shows "slot_settled pf (RorkHookStripPointer pf replacee) replacement (is_auth_got (mem s) sect)
    (a + of_nat (8 * i)) s (RorkHookRebindSymbolInImage pf dy header replacee replacement s)"
proof -
  let ?n = "32 + unat (header_sizeofcmds (mem s) header)"
  let ?c = "\<lparr>ric_header = header, ric_replaceeRaw = RorkHookStripPointer pf replacee, ric_replacement = replacement\<rparr>"
  have nw: "unat header + ?n \<le> 2 ^ 64"
    using command_table_room(2) [OF offs] table_nonempty_region [OF offs] by simp
  have "slot_settled pf (ric_replaceeRaw ?c) (ric_replacement ?c) (is_auth_got (mem s) sect) (a + of_nat (8 * i)) s
      (fold (RorkHookRebindSection pf dy ?c) (before @ sect # after) s)"
  proof (rule fold_section_settled [where n = ?n])
    fix t x assume t: "rebind_reached pf ?c ?n s t" and x: "x \<in> set (before @ sect # after)"
    from t have ag: "agree (mem s) (mem t) header ?n" by (simp add: rebind_reached_def)
    show "section_range dy (mem t) (ric_header ?c) x = section_range dy (mem s) (ric_header ?c) x \<and>
        is_auth_got (mem t) x = is_auth_got (mem s) x"
      using section_range_agree [OF apart ag image_section_agree [OF offs x [folded split] ag]] by simp
  next
    show "sect \<noteq> 0" by (rule image_section_nonnull [OF offs _ nw]) (simp add: split)
  qed (use apart nw range others readable i in \<open>simp_all\<close>)
  then show ?thesis
    using RebindSymbolInImage_fold [OF offs apart, of ?c] command_table_room(1) [OF offs] nonnull
    by (simp add: RorkHookRebindSymbolInImage_def Let_def split)
qed

section \<open>Properties\<close>

text \<open>
  C5: What a pass over one symbol-pointer section does. A section that the linker does not know,
  whose size is not a whole number of slots or that is not readable as a whole is left alone.
  Otherwise every slot that resolves to the replacee holds the replacement afterwards (raw, or
  signed for that slot in \<open>__auth_got\<close>), unless a store to exactly this slot was refused, every
  other slot keeps its value, no byte outside the section changes, and if no slot matches the
  call has no effect at all.
\<close>

theorem RebindSection_exact:
  "case section_range dy (mem s) (ric_header c) sect of (a, z) \<Rightarrow>
     let s' = RorkHookRebindSection pf dy c sect s in
     if sect \<noteq> 0 \<and> a \<noteq> 0 \<and> unat z mod 8 = 0 \<and> RorkHookMemoryIsReadable pf (world s) a z then
       (\<forall>i. unat z div 8 \<le> i \<or>
          slot_settled pf (ric_replaceeRaw c) (ric_replacement c) (is_auth_got (mem s) sect)
            (a + of_nat (8 * i)) s s') \<and>
       (\<forall>x. (unat a \<le> unat x \<and> unat x < unat a + unat z) \<or> mem s' x = mem s x) \<and>
       (s' = s \<or> (\<exists>i. i < unat z div 8 \<and>
          matches pf (ric_replaceeRaw c) (load64 (mem s) (a + of_nat (8 * i)))))
     else s' = s"
proof (cases rule: RebindSection_cases [of pf dy c sect s])
  case (skipped a z)
  then show ?thesis by (auto simp: Let_def)
next
  case (scanned a z)
  let ?s' = "RorkHookRebindSection pf dy c sect s"
  have n: "unat (z div 8) = unat z div 8" by (simp add: unat_div)
  have "slot_settled pf (ric_replaceeRaw c) (ric_replacement c) (is_auth_got (mem s) sect) (a + of_nat (8 * i)) s ?s'"
    if "i < unat z div 8" for i
    using that by (rule RebindSection_settles [OF scanned(2,1,3,4,5)])
  moreover have "mem ?s' x = mem s x" if "unat x < unat a \<or> unat a + unat z \<le> unat x" for x
    by (rule RebindSection_frame [OF scanned(2) that])
  moreover have "?s' = s" if "\<And>i. i < unat z div 8 \<Longrightarrow>
      \<not> matches pf (ric_replaceeRaw c) (load64 (mem s) (a + of_nat (8 * i)))"
    unfolding scanned(8) using that n by (intro rebind_slots_idle) simp
  ultimately show ?thesis
    using scanned(1-5) unfolding Let_def by (simp add: not_less [symmetric]) (meson not_le)
qed

text \<open>
  C13: Rebinding an image writes nothing but matching slots of symbol-pointer sections: the machine
  after the call is reached from the one before by protected stores only, each to a whole slot of a
  section whose record is marked as symbol pointers at that moment and that the linker finds readable,
  each to a slot that resolves to the replacee at that moment, and each of the value for that slot:
  the replacement as given without pointer authentication, and with it stripped, and signed for the
  slot's address exactly in a section named \<open>__auth_got\<close>. With a null argument or a malformed command
  table the call has no effect. (No hypothesis on the image, however malformed.)
\<close>

theorem RebindSymbolInImage_only_matching:
  "if header = 0 \<or> replacee = 0 \<or> replacement = 0 \<or>
      command_table (mem s) header (unat (RorkHookReadableMemoryLength pf (world s) header)) = None
   then RorkHookRebindSymbolInImage pf dy header replacee replacement s = s
   else image_rewritten pf dy
          \<lparr>ric_header = header, ric_replaceeRaw = RorkHookStripPointer pf replacee, ric_replacement = replacement\<rparr>
          s (RorkHookRebindSymbolInImage pf dy header replacee replacement s)"
  by (rule RebindSymbolInImage_effect)

text \<open>
  C14: Rebinding an image processes exactly its symbol-pointer sections, in file order: the result
  is the fold of the section pass over the lazy and non-lazy pointer sections of the segments
  whose section records fit their command, as they are listed before the call, although every
  iteration reads the table anew from memory that the call itself changes. (Hypothesis: sections
  lie apart from the header and load commands, and the linker finds them from these alone.)
\<close>

theorem RebindSymbolInImage_sections:
  assumes "command_table (mem s) header (unat (RorkHookReadableMemoryLength pf (world s) header)) = Some offs"
    and "sections_apart dy (mem s) header (32 + unat (header_sizeofcmds (mem s) header))"
    and "replacee \<noteq> 0" "replacement \<noteq> 0"
  shows "RorkHookRebindSymbolInImage pf dy header replacee replacement s =
    fold (RorkHookRebindSection pf dy
      \<lparr>ric_header = header, ric_replaceeRaw = RorkHookStripPointer pf replacee, ric_replacement = replacement\<rparr>)
      (image_sections (mem s) header offs) s"
  using RebindSymbolInImage_fold [OF assms(1,2), of
      "\<lparr>ric_header = header, ric_replaceeRaw = RorkHookStripPointer pf replacee, ric_replacement = replacement\<rparr>"]
    command_table_room(1) [OF assms(1)] assms(3,4)
  by (simp add: RorkHookRebindSymbolInImage_def Let_def)

text \<open>
  C15: Rebinding an image is complete: every slot of every symbol-pointer section of the image that
  resolves to the replacee before the call holds the replacement after it (raw, or signed for the slot
  in \<open>__auth_got\<close>), unless the store to this slot was refused during the call, and every other slot of
  the section keeps its value. (Hypotheses: as for the sequence of sections; the section is readable at
  every moment of the call, is a whole number of slots and does not overlap another one.)
\<close>

theorem RebindSymbolInImage_complete:
  assumes offs: "command_table (mem s) header (unat (RorkHookReadableMemoryLength pf (world s) header)) = Some offs"
    and apart: "sections_apart dy (mem s) header (32 + unat (header_sizeofcmds (mem s) header))"
    and nonnull: "replacee \<noteq> 0" "replacement \<noteq> 0"
    and split: "image_sections (mem s) header offs = before @ sect # after"
    and range: "section_range dy (mem s) header sect = (a, z)" "a \<noteq> 0" "unat z mod 8 = 0"
    and others: "\<And>other b y. other \<in> set (before @ after) \<Longrightarrow> section_range dy (mem s) header other = (b, y) \<Longrightarrow>
      unat b + unat y \<le> unat a \<or> unat a + unat z \<le> unat b"
    and readable: "\<And>t. rewritten pf (RorkHookStripPointer pf replacee) replacement s t \<Longrightarrow>
      RorkHookMemoryIsReadable pf (world t) a z"
    and i: "i < unat z div 8"
  shows "slot_settled pf (RorkHookStripPointer pf replacee) replacement (is_auth_got (mem s) sect)
    (a + of_nat (8 * i)) s (RorkHookRebindSymbolInImage pf dy header replacee replacement s)"
  using assms by (rule RebindSymbolInImage_settles)

text \<open>
  C19: A rebind can be undone: rebinding a section from \<open>old\<close> to \<open>new\<close> and then from \<open>new\<close> to \<open>old\<close>
  gives every slot the raw pointer it had before (bit for bit without pointer authentication),
  unless the second pass was refused the store to this slot. (Hypotheses: the slot did not hold \<open>new\<close>
  to begin with, which a second pass could not tell from a rebound one, \<open>new\<close> is not the null pointer
  with a signature, and the linker finds the section readable at the same place both times.)
\<close>

theorem RebindSection_undo:
  assumes "ptrauth_law pf" "RorkHookStripPointer pf new \<noteq> 0"
    and "section_range dy (mem s) header sect = (a, z)" "sect \<noteq> 0" "a \<noteq> 0" "unat z mod 8 = 0"
    and "RorkHookMemoryIsReadable pf (world s) a z"
    and "s' = RorkHookRebindSection pf dy \<lparr>ric_header = header, ric_replaceeRaw = RorkHookStripPointer pf old,
           ric_replacement = new\<rparr> sect s"
    and "section_range dy (mem s') header sect = (a, z)" "RorkHookMemoryIsReadable pf (world s') a z"
    and "i < unat z div 8" "slot = a + of_nat (8 * i)"
    and "RorkHookStripPointer pf (load64 (mem s) slot) \<noteq> RorkHookStripPointer pf new"
    and "s'' = RorkHookRebindSection pf dy \<lparr>ric_header = header, ric_replaceeRaw = RorkHookStripPointer pf new,
           ric_replacement = old\<rparr> sect s'"
  shows "RorkHookStripPointer pf (load64 (mem s'') slot) = RorkHookStripPointer pf (load64 (mem s) slot) \<or>
    (\<exists>r. rewritten pf (RorkHookStripPointer pf new) old s' r \<and>
      \<not> fst (RorkHookStoreSlot pf slot (slot_value pf old (is_auth_got (mem s') sect) slot) r))"
proof (rule settled_back [OF assms(1,2,13)])
  let ?c = "\<lambda>x y. \<lparr>ric_header = header, ric_replaceeRaw = RorkHookStripPointer pf x, ric_replacement = y\<rparr>"
  show "slot_settled pf (RorkHookStripPointer pf old) new (is_auth_got (mem s) sect) slot s s'"
    using RebindSection_settles [of dy s "?c old new" sect a z pf i] assms by simp
  show "slot_settled pf (RorkHookStripPointer pf new) old (is_auth_got (mem s') sect) slot s' s''"
    using RebindSection_settles [of dy s' "?c new old" sect a z pf i] assms by simp
qed

section \<open>A sample image\<close>

text \<open>A Mach-O header with one segment command and one non-lazy pointer section, mapped at
  \<open>0x10000\<close>, and two slots at \<open>0x14000\<close>, the first of which holds \<open>0x5000\<close>.\<close>

definition sample_image :: "u8 list" where
  "sample_image =
     le_bytes 4 RORK_HOOK_MH_MAGIC @ replicate 12 0 @ le_bytes 4 (1 :: u32) @ le_bytes 4 (152 :: u32) @ replicate 8 0 @
     le_bytes 4 RORK_HOOK_LC_SEGMENT @ le_bytes 4 (152 :: u32) @ replicate 56 0 @ le_bytes 4 (1 :: u32) @ replicate 4 0 @
     map of_char ''__got'' @ replicate 11 0 @ map of_char ''__DATA'' @ replicate 10 0 @ replicate 32 0 @
     le_bytes 4 S_NON_LAZY_SYMBOL_POINTERS @ replicate 12 0"

definition sample_state :: "vm_state machine" where
  "sample_state =
     \<lparr>mem = store_bytes (store_bytes (\<lambda>_. 0) 0x14000 (le_bytes 8 (0x5000 :: u64) @ le_bytes 8 (0x7000 :: u64)))
        0x10000 sample_image,
      world = \<lparr>page_prot = (\<lambda>_. 3), pinned = [], tpro_register = 0\<rparr>, events = []\<rparr>"

definition sample_dyld :: "vm_state dyld" where
  "sample_dyld = \<lparr>getsectiondata = (\<lambda>_ _ _ _. (0x14000, 16)), dladdr = (\<lambda>_ _. (1, 0x18000))\<rparr>"

lemma sample_readable:
  "RorkHookReadableMemoryLength (ref_platform device) (world sample_state) 0x10000 = 0x4000"
  by (simp add: RorkHookReadableMemoryLength_def RorkHookQueryRegion_def ref_platform_def ref_region_def
      sample_state_def)

lemma sample_table:
  "command_table (mem sample_state) 0x10000 0x4000 = Some [0]"
  "image_sections (mem sample_state) 0x10000 [0] = [0x10068]"
  "header_sizeofcmds (mem sample_state) 0x10000 = 152"
  by code_simp+

lemma sample_apart: "sections_apart sample_dyld m 0x10000 184"
  by (simp add: sections_apart_def sample_dyld_def)

theorem RebindSymbolInImage_sections_witness:
  "RorkHookRebindSymbolInImage (ref_platform True) sample_dyld 0x10000 0x5000 0x6000 sample_state =
     RorkHookRebindSection (ref_platform True) sample_dyld
       \<lparr>ric_header = 0x10000, ric_replaceeRaw = RorkHookStripPointer (ref_platform True) 0x5000,
        ric_replacement = 0x6000\<rparr> 0x10068 sample_state"
  using RebindSymbolInImage_sections [of sample_state "0x10000" "ref_platform True" "[0]" sample_dyld "0x5000" "0x6000"]
  by (simp add: sample_readable sample_table sample_apart)

text \<open>The same image on the platform with pointer authentication.\<close>

lemma signed_store: "fst (RorkHookStoreSlot signed_platform 0x14000 v t)"
  by (simp add: RorkHookStoreSlot_def RorkHookStoreProtectedPointer_def store_transaction_def RorkHookProtectMemory_def
        RorkHookMemoryIsReadable_def RorkHookReadableMemoryLength_def RorkHookQueryRegion_def
        RorkHookMemoryProtection_def RorkHookSupportsTPRO_def RorkHookProtectedPointerWriteIsAvailable_def
        RorkHookRestorePointerPageProtections_def signed_platform_def
        Let_def)

lemma signed_readable: "RorkHookMemoryIsReadable signed_platform w 0x14000 16"
  by (simp add: RorkHookMemoryIsReadable_def RorkHookReadableMemoryLength_def RorkHookQueryRegion_def signed_platform_def)

definition auth_state :: "unit machine" where
  "auth_state = \<lparr>mem = mem sample_state, world = (), events = []\<rparr>"
definition auth_dyld :: "unit dyld" where
  "auth_dyld = \<lparr>getsectiondata = (\<lambda>_ _ _ _. (0x14000, 16)), dladdr = (\<lambda>_ _. (1, 0x18000))\<rparr>"

lemma auth_range: "section_range auth_dyld m header sect = (0x14000, 16)"
  by (simp add: section_range_def auth_dyld_def)

lemma auth_slot: "load64 (mem auth_state) 0x14000 = 0x5000"
  unfolding auth_state_def by code_simp

theorem RebindSection_undo_witness:
  "RorkHookStripPointer (signed_platform :: unit platform)
     (load64 (mem
       (RorkHookRebindSection signed_platform auth_dyld
         \<lparr>ric_header = 0x10000,
           ric_replaceeRaw = RorkHookStripPointer (signed_platform :: unit platform) 0x6000, ric_replacement = 0x5000\<rparr> 0x10068
         (RorkHookRebindSection signed_platform auth_dyld
           \<lparr>ric_header = 0x10000,
           ric_replaceeRaw = RorkHookStripPointer (signed_platform :: unit platform) 0x5000, ric_replacement = 0x6000\<rparr> 0x10068
           auth_state))) 0x14000) = 0x5000"
proof -
  have strip: "RorkHookStripPointer (signed_platform :: unit platform) p = take_bit 48 p" for p
    by (simp add: RorkHookStripPointer_def signed_platform_def)
  show ?thesis
    using RebindSection_undo [OF signed_ptrauth_law, where dy = auth_dyld and s = auth_state and new = "0x6000" and header = "0x10000"
        and sect = "0x10068" and a = "0x14000" and z = 16 and old = "0x5000" and i = 0 and slot = "0x14000", OF _ _ _ _ _ _ refl _ _ _ _ _ refl]
    by (simp add: signed_readable signed_store auth_slot strip auth_range)
qed

lemma auth_table:
  "command_table (mem auth_state) 0x10000 0x4000 = Some [0]"
  "image_sections (mem auth_state) 0x10000 [0] = [0x10068]"
  "header_sizeofcmds (mem auth_state) 0x10000 = 152"
  by (simp_all add: auth_state_def sample_table)

lemma auth_plain: "\<not> is_auth_got (mem auth_state) 0x10068"
  unfolding auth_state_def by code_simp

lemma auth_apart: "sections_apart auth_dyld m 0x10000 184"
  by (simp add: sections_apart_def auth_dyld_def)

lemma signed_header: "RorkHookReadableMemoryLength signed_platform w 0x10000 = 0x4000"
  by (simp add: RorkHookReadableMemoryLength_def RorkHookQueryRegion_def signed_platform_def)

theorem RebindSymbolInImage_complete_witness:
  "load64 (mem (RorkHookRebindSymbolInImage signed_platform auth_dyld 0x10000 0x5000 0x6000 auth_state)) 0x14000 = 0x6000"
proof -
  have strip: "RorkHookStripPointer (signed_platform :: unit platform) p = take_bit 48 p" for p
    by (simp add: RorkHookStripPointer_def signed_platform_def)
  have val: "slot_value (signed_platform :: unit platform) 0x6000 False slot = 0x6000" for slot
    by (simp add: slot_value_def strip)
  have "slot_settled signed_platform (RorkHookStripPointer (signed_platform :: unit platform) 0x5000) 0x6000
      (is_auth_got (mem auth_state) 0x10068) (0x14000 + of_nat (8 * 0)) auth_state
      (RorkHookRebindSymbolInImage signed_platform auth_dyld 0x10000 0x5000 0x6000 auth_state)"
    by (rule RebindSymbolInImage_complete [where offs = "[0]" and before = "[]" and after = "[]" and z = 16])
       (simp_all add: signed_header auth_table auth_apart signed_readable auth_range)
  then show ?thesis
    by (simp add: slot_settled_def Let_def auth_plain val signed_store auth_slot matches_def strip)
qed

end
