(* ===== verification/Vm_Kernel.thy ===== *)
theory Vm_Kernel
  imports Detour
begin

text \<open>
  The documented behaviour of the VM system that decides when a protect call succeeds, as a law on the
  platform, and a small kernel that satisfies it. The law is a hypothesis of the properties in \<open>Progress\<close>
  and \<open>Global_Rebind\<close>; the kernel serves their witnesses, and the model of the library never refers to it.
\<close>

section \<open>The law\<close>

text \<open>
  Each mapped page has a maximum protection. A request is permitted by a maximum if it asks for no more
  than the maximum, or, with \<open>VM_PROT_COPY\<close>, for no more than the maximum and writing.
\<close>

definition permits :: "vm_prot \<Rightarrow> vm_prot \<Rightarrow> bool" where
  "permits m p \<longleftrightarrow> p AND 7 AND NOT (if p AND VM_PROT_COPY = 0 then m else m OR VM_PROT_WRITE) = 0"

text \<open>Every page that meets the range is mapped and permits the request. \<open>maximum w x\<close> is the maximum
  protection of the page of \<open>x\<close>, if that page is mapped.\<close>

definition allows ::
  "'w platform \<Rightarrow> ('w \<Rightarrow> u64 \<Rightarrow> vm_prot option) \<Rightarrow> 'w \<Rightarrow> u64 \<Rightarrow> u64 \<Rightarrow> vm_prot \<Rightarrow> bool" where
  "allows pf maximum w a n p \<longleftrightarrow>
     (\<forall>x. on_pages (vm_page_size pf) a n x \<longrightarrow> (\<exists>m. maximum w x = Some m \<and> permits m p))"

text \<open>A later state of the process: still one of the states \<open>ok\<close>, and no maximum protection was lowered.\<close>

definition advances ::
  "('w \<Rightarrow> bool) \<Rightarrow> ('w \<Rightarrow> u64 \<Rightarrow> vm_prot option) \<Rightarrow> 'w \<Rightarrow> 'w \<Rightarrow> bool" where
  "advances ok maximum w w' \<longleftrightarrow>
     ok w' \<and> (\<forall>x m. maximum w x = Some m \<longrightarrow> (\<exists>m'. maximum w' x = Some m' \<and> m AND NOT m' = 0))"

definition protect_request ::
  "'w platform \<Rightarrow> 'w \<Rightarrow> u64 \<Rightarrow> u64 \<Rightarrow> vm_prot \<Rightarrow> kern_return \<times> 'w" where
  "protect_request pf w a n p =
     (if device_arm64 pf then RorkHookMachVMProtectTrap pf w (mach_task_self pf) a n False p
      else vm_protect pf w a n p)"

text \<open>
  \<open>vm_law pf ok maximum\<close>, for the platform states described by \<open>ok\<close>: one protection per page; a page
  that the region query reports is mapped, and its protection is within its maximum; a request (for a
  protection with reading, whatever its range) lowers no maximum and leaves the states \<open>ok\<close> not, and it
  succeeds if its range is not empty, does not wrap, and is mapped throughout with maxima that permit
  it; writes to the TPRO register leave all this alone. A request on an unmapped page or beyond a
  maximum may fail with any code.
\<close>

definition vm_law :: "'w platform \<Rightarrow> ('w \<Rightarrow> bool) \<Rightarrow> ('w \<Rightarrow> u64 \<Rightarrow> vm_prot option) \<Rightarrow> bool" where
  "vm_law pf ok maximum \<longleftrightarrow>
     (\<forall>w a b. ok w \<and> a \<noteq> 0 \<and> b \<noteq> 0 \<and> same_page (vm_page_size pf) a b \<longrightarrow>
        protection_of pf w a = protection_of pf w b) \<and>
     (\<forall>w x q. ok w \<and> protection_of pf w x = Some q \<longrightarrow> (\<exists>m. maximum w x = Some m \<and> q AND NOT m = 0)) \<and>
     (\<forall>w a n p. ok w \<and> p AND VM_PROT_READ \<noteq> 0 \<longrightarrow>
        (case protect_request pf w a n p of (r, w') \<Rightarrow>
           advances ok maximum w w' \<and>
           (n \<noteq> 0 \<and> unat a + unat n < 2 ^ 64 \<and> allows pf maximum w a n p \<longrightarrow> r = KERN_SUCCESS))) \<and>
     (\<forall>v w. ok (msr_tpro pf v w) = ok w \<and> maximum (msr_tpro pf v w) = maximum w)"

lemma subset_bits_trans: "(a :: 'a :: len word) AND NOT b = 0 \<Longrightarrow> b AND NOT c = 0 \<Longrightarrow> a AND NOT c = 0"
  by (auto simp: bit_eq_iff bit_simps)

lemma permits_mono: "permits m p \<Longrightarrow> m AND NOT m' = 0 \<Longrightarrow> permits m' p"
  by (auto simp: permits_def bit_eq_iff bit_simps split: if_splits)

lemma permits_within: "q AND NOT m = 0 \<Longrightarrow> permits m q"
  by (auto simp: permits_def bit_eq_iff bit_simps)

lemma advances_refl: "ok w \<Longrightarrow> advances ok maximum w w"
  by (simp add: advances_def)

lemma advances_trans [trans]:
  assumes "advances ok maximum w w'" "advances ok maximum w' w''"
  shows "advances ok maximum w w''"
  using assms unfolding advances_def by (meson subset_bits_trans)

lemma advances_ok: "advances ok maximum w w' \<Longrightarrow> ok w'"
  by (simp add: advances_def)

lemma allows_advances: "allows pf maximum w a n p \<Longrightarrow> advances ok maximum w w' \<Longrightarrow> allows pf maximum w' a n p"
  unfolding allows_def advances_def by (meson permits_mono)

lemma vm_law_page:
  "vm_law pf ok maximum \<Longrightarrow> ok w \<Longrightarrow> a \<noteq> 0 \<Longrightarrow> b \<noteq> 0 \<Longrightarrow> same_page (vm_page_size pf) a b \<Longrightarrow>
     protection_of pf w a = protection_of pf w b"
  unfolding vm_law_def by blast

lemma vm_law_current:
  "vm_law pf ok maximum \<Longrightarrow> ok w \<Longrightarrow> protection_of pf w x = Some q \<Longrightarrow> \<exists>m. maximum w x = Some m \<and> permits m q"
  unfolding vm_law_def using permits_within by blast

lemma vm_law_register:
  "vm_law pf ok maximum \<Longrightarrow> ok (msr_tpro pf v w) = ok w"
  "vm_law pf ok maximum \<Longrightarrow> maximum (msr_tpro pf v w) = maximum w"
  by (simp_all add: vm_law_def)

text \<open>The protection that the query reports for a page may be requested again for that page.\<close>

lemma allows_current:
  assumes "vm_law pf ok maximum" "ok w" "protection_of pf w a = Some q"
    and "\<And>x. on_pages (vm_page_size pf) b n x \<Longrightarrow> x \<noteq> 0 \<and> same_page (vm_page_size pf) x a"
  shows "allows pf maximum w b n q"
  unfolding allows_def
proof (intro allI impI)
  fix x assume "on_pages (vm_page_size pf) b n x"
  with assms(4) have "x \<noteq> 0" "same_page (vm_page_size pf) x a" by blast+
  then have "protection_of pf w x = Some q"
    using vm_law_page [OF assms(1,2)] protection_of_null [OF assms(3)] assms(3) by metis
  then show "\<exists>m. maximum w x = Some m \<and> permits m q" by (rule vm_law_current [OF assms(1,2)])
qed

lemma ProtectMemory_advances:
  assumes "vm_law pf ok maximum" "ok (world s)" "p AND VM_PROT_READ \<noteq> 0"
  shows "advances ok maximum (world s) (world (snd (RorkHookProtectMemory pf a n p s)))"
    and "a \<noteq> 0 \<Longrightarrow> n \<noteq> 0 \<Longrightarrow> unat a + unat n < 2 ^ 64 \<Longrightarrow> allows pf maximum (world s) a n p \<Longrightarrow>
      fst (RorkHookProtectMemory pf a n p s) = KERN_SUCCESS"
proof -
  let ?r = "protect_request pf (world s) a n p"
  have law: "case ?r of (r, w') \<Rightarrow> advances ok maximum (world s) w' \<and>
      (n \<noteq> 0 \<and> unat a + unat n < 2 ^ 64 \<and> allows pf maximum (world s) a n p \<longrightarrow> r = KERN_SUCCESS)"
    using assms by (simp add: vm_law_def)
  have run: "RorkHookProtectMemory pf a n p s =
      (if a = 0 \<or> n = 0 then (KERN_INVALID_ARGUMENT, s)
       else (fst ?r, emit (Protect a n p (fst ?r)) (s\<lparr>world := snd ?r\<rparr>)))"
    by (simp add: RorkHookProtectMemory_def protect_request_def split_beta)
  show "advances ok maximum (world s) (world (snd (RorkHookProtectMemory pf a n p s)))"
    using law advances_refl [of ok "world s" maximum, OF assms(2)] by (simp add: run split_beta)
  show "a \<noteq> 0 \<Longrightarrow> n \<noteq> 0 \<Longrightarrow> unat a + unat n < 2 ^ 64 \<Longrightarrow> allows pf maximum (world s) a n p \<Longrightarrow>
      fst (RorkHookProtectMemory pf a n p s) = KERN_SUCCESS"
    using law by (simp add: run split_beta)
qed

section \<open>A kernel with maximum protections\<close>

text \<open>
  Pages of 16 KiB; each mapped page has a number, a current and a maximum protection, and the pages are
  listed by number. A protect call fails on a range that wraps, that meets an unmapped page or that
  exceeds a maximum; \<open>VM_PROT_COPY\<close> adds writing to the maximum. A region query reports the first mapped
  page at or above the address.
\<close>

record mach_state =
  mapped :: "(nat \<times> vm_prot \<times> vm_prot) list"
  thread_register :: u64

definition mach_protect :: "mach_state \<Rightarrow> u64 \<Rightarrow> u64 \<Rightarrow> vm_prot \<Rightarrow> kern_return \<times> mach_state" where
  "mach_protect w a n p =
     (let first = unat a div 0x4000; final = (unat a + unat n - 1) div 0x4000 in
      if n = 0 then (KERN_SUCCESS, w)
      else if 2 ^ 64 \<le> unat a + unat n then (KERN_INVALID_ARGUMENT, w)
      else if \<not> list_all (\<lambda>q. map_of (mapped w) q \<noteq> None) [first..<Suc final] then (KERN_INVALID_ADDRESS, w)
      else if \<not> list_all (\<lambda>(q, c, m). first \<le> q \<and> q \<le> final \<longrightarrow> permits m p) (mapped w)
      then (KERN_PROTECTION_FAILURE, w)
      else (KERN_SUCCESS, w\<lparr>mapped :=
              map (\<lambda>(q, e). (q, if first \<le> q \<and> q \<le> final
                    then (p AND 7, if p AND VM_PROT_COPY = 0 then snd e else snd e OR VM_PROT_WRITE)
                    else e)) (mapped w)\<rparr>))"

definition mach_svc :: "mach_state \<Rightarrow> u64 \<Rightarrow> u64 list \<Rightarrow> u64 \<times> mach_state" where
  "mach_svc w number args =
     (if number = - 0xe \<and> length args = 5
      then case mach_protect w (args ! 1) (args ! 2) (ucast (args ! 4)) of (r, w') \<Rightarrow> (ucast r, w')
      else (ucast KERN_INVALID_ARGUMENT, w))"

definition mach_region :: "mach_state \<Rightarrow> u64 \<Rightarrow> kern_return \<times> u64 \<times> u64 \<times> vm_prot" where
  "mach_region w a =
     (case find (\<lambda>(q, e). unat a div 0x4000 \<le> q) (mapped w) of
        None \<Rightarrow> (KERN_INVALID_ADDRESS, 0, 0, 0)
      | Some (q, e) \<Rightarrow> (KERN_SUCCESS, of_nat (q * 0x4000), 0x4000, fst e))"

definition mach_maximum :: "mach_state \<Rightarrow> u64 \<Rightarrow> vm_prot option" where
  "mach_maximum w x = map_option snd (map_of (mapped w) (unat x div 0x4000))"

definition mach_platform :: "bool \<Rightarrow> mach_state platform" where
  "mach_platform device =
     \<lparr>arm64 = True, device_arm64 = device, ptrauth_calls = False, has_security_config = False,
      available_ios26 = False, os_security_config = 0, os_security_config_TPRO = 1,
      getpagesize = 0x4000, vm_page_size = 0x4000, vm_protect = mach_protect,
      mach_task_self = 0x203, svc = mach_svc, vm_region_64 = mach_region,
      task_dyld_info = (\<lambda>_. (KERN_INVALID_ARGUMENT, 0)), sizeof_dyld_all_image_infos = 0x178,
      offsetof_sharedCacheSlide = 0x98, mrs_tpro = thread_register,
      msr_tpro = (\<lambda>v w. w\<lparr>thread_register := v\<rparr>), ptrauth_strip = id,
      ptrauth_sign_unauthenticated = (\<lambda>p d. p)\<rparr>"

lemma mach_fields [simp]:
  "vm_page_size (mach_platform device) = 0x4000" "getpagesize (mach_platform device) = 0x4000"
  "device_arm64 (mach_platform device) = device" "ptrauth_calls (mach_platform device) = False"
  "arm64 (mach_platform device)" "vm_protect (mach_platform device) = mach_protect"
  "vm_region_64 (mach_platform device) = mach_region" "mrs_tpro (mach_platform device) = thread_register"
  "msr_tpro (mach_platform device) v w = w\<lparr>thread_register := v\<rparr>"
  by (simp_all add: mach_platform_def)

lemma mach_trap [simp]:
  "RorkHookMachVMProtectTrap (mach_platform device) w target a n setMaximum p = mach_protect w a n p"
proof (cases "mach_protect w a n p")
  case (Pair r w')
  have narrow: "(ucast (ucast q :: u64) :: u32) = q" for q :: u32
    by (rule bit_word_eqI) (auto simp: bit_simps)
  show ?thesis by (simp add: RorkHookMachVMProtectTrap_def mach_platform_def mach_svc_def narrow Pair)
qed

text \<open>States in which the pages are in order, below the end of the address space and above the null
  page, with each protection within its maximum, and in which the pages \<open>qs\<close> are readable.\<close>

definition mach_ok :: "nat list \<Rightarrow> mach_state \<Rightarrow> bool" where
  "mach_ok qs w \<longleftrightarrow>
     sorted_wrt (<) (map fst (mapped w)) \<and>
     list_all (\<lambda>(q, c, m). 0 < q \<and> q < 0x3ffffffffffff \<and> c AND NOT m = 0) (mapped w) \<and>
     list_all (\<lambda>q. case map_of (mapped w) q of None \<Rightarrow> False | Some (c, m) \<Rightarrow> c AND VM_PROT_READ \<noteq> 0) qs"

lemma find_page:
  fixes k :: nat
  assumes "sorted_wrt (<) (map fst xs)"
  shows "find (\<lambda>(q, e). k \<le> q) xs = Some (k, e) \<longleftrightarrow> map_of xs k = Some e"
  using assms
proof (induction xs)
  case (Cons x xs)
  obtain q d where x: "x = (q, d)" by fastforce
  have above: "\<forall>y\<in>set xs. q < fst y" using Cons.prems by (simp add: x)
  have "map_of xs k = None" if "k < q"
  proof (rule ccontr)
    assume "map_of xs k \<noteq> None"
    then obtain e where "(k, e) \<in> set xs" by (metis map_of_SomeD not_None_eq)
    with above have "q < k" by (metis fst_conv)
    with that show False by simp
  qed
  then show ?case using Cons by (auto simp: x)
qed simp

lemma map_of_entries: "map_of (map (\<lambda>(q, e). (q, f q e)) xs) q = map_option (f q) (map_of xs q)"
  by (induction xs) auto

lemma page_start:
  fixes a :: u64
  assumes "k = unat a div 0x4000"
  shows "unat (of_nat (k * 0x4000) :: u64) = k * 0x4000" "k * 0x4000 \<le> unat a" "unat a < k * 0x4000 + 0x4000"
proof -
  show "k * 0x4000 \<le> unat a" "unat a < k * 0x4000 + 0x4000"
    using dividend_less_div_times [of "0x4000" "unat a"] by (simp_all add: assms)
  then show "unat (of_nat (k * 0x4000) :: u64) = k * 0x4000"
    using unsigned_less [of a, where ?'a = nat] by (simp only: unat_of_nat) simp
qed

lemma mach_entry:
  assumes "mach_ok qs w" "(q, c, m) \<in> set (mapped w)"
  shows "0 < q" "q < 0x3ffffffffffff" "c AND NOT m = 0"
  using assms by (auto simp: mach_ok_def list_all_iff)

lemma mach_query:
  assumes "mach_ok qs w" "a \<noteq> 0" "k = unat a div 0x4000"
  shows "RorkHookQueryRegion (mach_platform device) w a =
    map_option (\<lambda>e. (of_nat (k * 0x4000), 0x4000, fst e)) (map_of (mapped w) k)"
proof (cases "map_of (mapped w) k")
  case None
  have "RorkHookQueryRegion (mach_platform device) w a \<noteq> Some (start, n, c)" for start n c
  proof
    assume "RorkHookQueryRegion (mach_platform device) w a = Some (start, n, c)"
    then have r: "mach_region w a = (KERN_SUCCESS, start, n, c)" "unat start \<le> unat a"
      by (simp_all add: QueryRegion_Some)
    then obtain q m where f: "find (\<lambda>(q, e). k \<le> q) (mapped w) = Some (q, c, m)" "start = of_nat (q * 0x4000)"
      by (force simp: mach_region_def assms(3) split: option.splits)
    then have q: "(q, c, m) \<in> set (mapped w)" "k \<le> q"
      unfolding find_Some_iff by (metis nth_mem, auto)
    then have "q \<noteq> k" using f(1) find_page [of "mapped w" k] assms(1) None by (auto simp: mach_ok_def)
    with q(2) have "(k + 1) * 0x4000 \<le> q * 0x4000" by simp
    moreover have "unat start = q * 0x4000"
      using mach_entry(2) [OF assms(1) q(1)] by (simp only: f(2) unat_of_nat) simp
    ultimately show False using r(2) page_start(3) [OF assms(3)] by simp
  qed
  then show ?thesis using None by (metis not_Some_eq option.map_disc_iff prod_cases3)
next
  case (Some e)
  then obtain c m where e: "e = (c, m)" "(k, c, m) \<in> set (mapped w)" by (metis map_of_SomeD surj_pair)
  have "find (\<lambda>(q, e). k \<le> q) (mapped w) = Some (k, c, m)"
    using find_page [of "mapped w" k] assms(1) Some by (simp add: mach_ok_def e(1))
  then have "mach_region w a = (KERN_SUCCESS, of_nat (k * 0x4000), 0x4000, c)"
    by (simp add: mach_region_def assms(3))
  then show ?thesis
    using page_start [OF assms(3)] mach_entry(2) [OF assms(1) e(2)] assms(2)
    by (simp add: QueryRegion_Some Some e(1))
qed

lemma mach_protection:
  "mach_ok qs w \<Longrightarrow> a \<noteq> 0 \<Longrightarrow>
     protection_of (mach_platform device) w a = map_option fst (map_of (mapped w) (unat a div 0x4000))"
  by (simp add: protection_of_def mach_query [OF _ _ refl] option.map_comp comp_def)

text \<open>The result of a protect call that is carried out.\<close>

definition reprotect :: "nat \<Rightarrow> nat \<Rightarrow> vm_prot \<Rightarrow> nat \<Rightarrow> vm_prot \<times> vm_prot \<Rightarrow> vm_prot \<times> vm_prot" where
  "reprotect first final p q e =
     (if first \<le> q \<and> q \<le> final
      then (p AND 7, if p AND VM_PROT_COPY = 0 then snd e else snd e OR VM_PROT_WRITE) else e)"

lemma mach_protect_cases:
  obtains (unchanged) "snd (mach_protect w a n p) = w"
  | (changed) first final where
      "snd (mach_protect w a n p) = w\<lparr>mapped := map (\<lambda>(q, e). (q, reprotect first final p q e)) (mapped w)\<rparr>"
      "list_all (\<lambda>(q, c, m). first \<le> q \<and> q \<le> final \<longrightarrow> permits m p) (mapped w)"
proof (cases "n = 0 \<or> 2 ^ 64 \<le> unat a + unat n \<or>
    \<not> list_all (\<lambda>q. map_of (mapped w) q \<noteq> None) [unat a div 0x4000..<Suc ((unat a + unat n - 1) div 0x4000)] \<or>
    \<not> list_all (\<lambda>(q, c, m). unat a div 0x4000 \<le> q \<and> q \<le> (unat a + unat n - 1) div 0x4000 \<longrightarrow> permits m p) (mapped w)")
  case True
  then show thesis by (intro unchanged) (auto simp: mach_protect_def Let_def simp del: upt_Suc)
next
  case False
  then show thesis
    by (intro changed [of "unat a div 0x4000" "(unat a + unat n - 1) div 0x4000"])
       (simp_all add: mach_protect_def Let_def reprotect_def del: upt_Suc)
qed

lemma reprotect_maximum: "snd e AND NOT (snd (reprotect first final p q e)) = 0"
  by (auto simp: reprotect_def bit_eq_iff bit_simps)

lemma mach_protect_keeps:
  assumes "mach_ok qs w" "p AND VM_PROT_READ \<noteq> 0"
  shows "mach_ok qs (snd (mach_protect w a n p))"
proof (cases rule: mach_protect_cases [of w a n p])
  case (changed first final)
  let ?f = "reprotect first final p" and ?xs = "map (\<lambda>(q, e). (q, reprotect first final p q e)) (mapped w)"
  have keys: "map fst ?xs = map fst (mapped w)" by (simp add: case_prod_beta comp_def)
  have within: "fst (?f q (c, m)) AND NOT (snd (?f q (c, m))) = 0" if e: "(q, c, m) \<in> set (mapped w)" for q c m
  proof (cases "first \<le> q \<and> q \<le> final")
    case True
    with changed(2) e have "permits m p" by (fastforce simp: list_all_iff)
    with True show ?thesis by (auto simp: reprotect_def permits_def and.assoc split: if_splits)
  next
    case False
    then have "?f q (c, m) = (c, m)" unfolding reprotect_def by (rule if_not_P)
    then show ?thesis using mach_entry(3) [OF assms(1) e] by simp
  qed
  have readable: "case map_of ?xs q of None \<Rightarrow> False | Some (c, m) \<Rightarrow> c AND VM_PROT_READ \<noteq> 0" if "q \<in> set qs" for q
  proof -
    from assms(1) that obtain e where "map_of (mapped w) q = Some e" "fst e AND VM_PROT_READ \<noteq> 0"
      by (fastforce simp: mach_ok_def list_all_iff split: option.splits)
    then show ?thesis using assms(2) by (auto simp: map_of_entries reprotect_def and.assoc)
  qed
  have "list_all (\<lambda>(q, c, m). 0 < q \<and> q < 0x3ffffffffffff \<and> c AND NOT m = 0) ?xs"
    unfolding list_all_iff
  proof
    fix x assume "x \<in> set ?xs"
    then obtain q c m where x: "(q, c, m) \<in> set (mapped w)" "x = (q, ?f q (c, m))" by auto
    then show "case x of (q, c, m) \<Rightarrow> 0 < q \<and> q < 0x3ffffffffffff \<and> c AND NOT m = 0"
      using mach_entry(1,2) [OF assms(1) x(1)] within [OF x(1)] by (simp add: case_prod_beta)
  qed
  moreover have "sorted_wrt (<) (map fst ?xs)" unfolding keys using assms(1) by (simp add: mach_ok_def)
  ultimately show ?thesis
    unfolding mach_ok_def changed(1) using readable by (simp add: list_all_iff del: map_map)
qed (simp add: assms(1))

lemma mach_protect_maximum:
  "mach_maximum w x = Some m \<Longrightarrow>
     \<exists>m'. mach_maximum (snd (mach_protect w a n p)) x = Some m' \<and> m AND NOT m' = 0"
proof (cases rule: mach_protect_cases [of w a n p])
  case (changed first final)
  assume "mach_maximum w x = Some m"
  then obtain c where "map_of (mapped w) (unat x div 0x4000) = Some (c, m)"
    by (auto simp: mach_maximum_def)
  then have "mach_maximum (snd (mach_protect w a n p)) x = Some (snd (reprotect first final p (unat x div 0x4000) (c, m)))"
    by (simp add: changed(1) mach_maximum_def map_of_entries)
  with reprotect_maximum [of "(c, m)"] show ?thesis by simp
qed simp

lemma mach_protect_success:
  assumes "mach_ok qs w" "n \<noteq> 0" "unat a + unat n < 2 ^ 64" "allows (mach_platform device) mach_maximum w a n p"
  shows "fst (mach_protect w a n p) = KERN_SUCCESS"
proof -
  let ?first = "unat a div 0x4000" and ?final = "(unat a + unat n - 1) div 0x4000"
  have page: "\<exists>c m. map_of (mapped w) q = Some (c, m) \<and> permits m p" if q: "?first \<le> q" "q \<le> ?final" for q
  proof -
    have "q * 0x4000 \<le> unat a + unat n - 1" using q(2) by (metis div_le_dividend div_mult_mod_eq le_trans le_add1 mult_le_mono1)
    then have u: "unat (of_nat (q * 0x4000) :: u64) = q * 0x4000"
      using assms(3) by (simp only: unat_of_nat) simp
    then have "on_pages 0x4000 a n (of_nat (q * 0x4000))" using q by (simp add: on_pages_def)
    with assms(4) u show ?thesis by (auto simp: allows_def mach_maximum_def)
  qed
  have "list_all (\<lambda>q. map_of (mapped w) q \<noteq> None) [?first..<Suc ?final]"
    unfolding list_all_iff
  proof
    fix q assume "q \<in> set [?first..<Suc ?final]"
    then have "?first \<le> q" "q \<le> ?final" by auto
    from page [OF this] show "map_of (mapped w) q \<noteq> None" by auto
  qed
  moreover have "list_all (\<lambda>(q, c, m). ?first \<le> q \<and> q \<le> ?final \<longrightarrow> permits m p) (mapped w)"
  proof -
    have "distinct (map fst (mapped w))" using assms(1) by (auto simp: mach_ok_def strict_sorted_iff)
    then have "map_of (mapped w) q = Some e" if "(q, e) \<in> set (mapped w)" for q e
      using that by (rule map_of_is_SomeI)
    with page have "permits m p" if "(q, c, m) \<in> set (mapped w)" "?first \<le> q" "q \<le> ?final" for q c m
      using that by fastforce
    then show ?thesis by (auto simp: list_all_iff)
  qed
  ultimately show ?thesis using assms(2,3) unfolding mach_protect_def Let_def by (simp del: upt_Suc)
qed

theorem mach_vm_law: "vm_law (mach_platform device) (mach_ok qs) mach_maximum"
  unfolding vm_law_def
proof (intro conjI allI impI, goal_cases)
  case (1 w a b)
  then show ?case by (auto simp: mach_protection same_page_def)
next
  case (2 w x q)
  then have "protection_of (mach_platform device) w x = Some q" by simp
  then have "x \<noteq> 0" by (rule protection_of_null)
  with 2 obtain m where "map_of (mapped w) (unat x div 0x4000) = Some (q, m)"
    by (auto simp: mach_protection)
  moreover from this have "q AND NOT m = 0" using 2 map_of_SomeD mach_entry(3) by metis
  ultimately show ?case by (simp add: mach_maximum_def)
next
  case (3 w a n p)
  have r: "protect_request (mach_platform device) w a n p = mach_protect w a n p"
    by (simp add: protect_request_def)
  from 3 have ok: "mach_ok qs w" "p AND VM_PROT_READ \<noteq> 0" by simp_all
  have "advances (mach_ok qs) mach_maximum w (snd (mach_protect w a n p))"
    using mach_protect_keeps [OF ok] mach_protect_maximum by (simp add: advances_def)
  then show ?case
    using mach_protect_success [OF ok(1), of n a device p] by (auto simp: r split_beta)
next
  case (4 v w)
  show ?case by (simp add: mach_ok_def)
next
  case (5 v w)
  show ?case by (simp add: mach_maximum_def fun_eq_iff)
qed

end
