(* ===== verification/Progress.thy ===== *)
theory Progress
  imports Vm_Kernel Rebind
begin

text \<open>
  What the writing operations achieve on a kernel that behaves as documented. The properties of the
  other theories say what holds if an operation returns success; here the success itself is shown,
  for every operation that writes: the protected store, the detour and the rebinding of an image. The
  hypotheses are the law of the VM system (\<open>vm_law\<close>) and that the pages concerned are mapped, readable
  and have maximum protections that permit the request.
\<close>

section \<open>Readable pages\<close>

text \<open>The kernel reports, for every address of the page of \<open>x\<close>, a readable region that reaches at least
  to the end of that page.\<close>

definition page_readable :: "'w platform \<Rightarrow> 'w \<Rightarrow> u64 \<Rightarrow> bool" where
  "page_readable pf w x \<longleftrightarrow>
     (\<forall>a. same_page (vm_page_size pf) a x \<longrightarrow>
        (\<exists>start n p. vm_region_64 pf w a = (KERN_SUCCESS, start, n, p) \<and> p AND VM_PROT_READ \<noteq> 0 \<and>
           unat start \<le> unat a \<and> unat start + unat n < 2 ^ 64 \<and>
           (unat x div unat (vm_page_size pf) + 1) * unat (vm_page_size pf) \<le> unat start + unat n))"

lemma page_readable_range:
  assumes "page_readable pf w x" "same_page (vm_page_size pf) a x" "a \<noteq> 0" "0 < unat n"
    and "unat a + unat n \<le> (unat x div unat (vm_page_size pf) + 1) * unat (vm_page_size pf)"
  shows "RorkHookMemoryIsReadable pf w a n" and "protection_of pf w a \<noteq> None"
proof -
  obtain start m p where r: "vm_region_64 pf w a = (KERN_SUCCESS, start, m, p)" "p AND VM_PROT_READ \<noteq> 0"
    "unat start \<le> unat a" "unat start + unat m < 2 ^ 64" "unat a + unat n \<le> unat start + unat m"
    using assms(1,2,5) unfolding page_readable_def by fastforce
  with assms(3,4) have q: "RorkHookQueryRegion pf w a = Some (start, m, p)"
    by (simp add: QueryRegion_Some)
  from q show "protection_of pf w a \<noteq> None" by (simp add: protection_of_def)
  show "RorkHookMemoryIsReadable pf w a n" using q r assms(4) by (auto simp: MemoryIsReadable_iff)
qed

section \<open>The protected store\<close>

lemma RestorePageProtections_advances:
  assumes law: "vm_law pf ok maximum" and s: "ok (world s)"
    and prots: "p AND VM_PROT_READ \<noteq> 0" "q AND VM_PROT_READ \<noteq> 0"
  shows "advances ok maximum (world s) (world (snd (RorkHookRestorePointerPageProtections pf fp lp ps spans p q s)))"
    and "fp \<noteq> 0 \<Longrightarrow> lp \<noteq> 0 \<Longrightarrow> ps \<noteq> 0 \<Longrightarrow> unat fp + unat ps < 2 ^ 64 \<Longrightarrow> unat lp + unat ps < 2 ^ 64 \<Longrightarrow>
      allows pf maximum (world s) fp ps p \<Longrightarrow> allows pf maximum (world s) lp ps q \<Longrightarrow>
      fst (RorkHookRestorePointerPageProtections pf fp lp ps spans p q s)"
proof -
  let ?t = "snd (RorkHookProtectMemory pf fp ps p s)"
  note first = ProtectMemory_advances [OF law s prots(1)]
  note second = ProtectMemory_advances [OF law advances_ok [OF first(1)] prots(2)]
  show "advances ok maximum (world s) (world (snd (RorkHookRestorePointerPageProtections pf fp lp ps spans p q s)))"
    using first(1) advances_trans [OF first(1) second(1)]
    by (simp add: RorkHookRestorePointerPageProtections_def split_beta)
  assume "fp \<noteq> 0" "lp \<noteq> 0" "ps \<noteq> 0" "unat fp + unat ps < 2 ^ 64" "unat lp + unat ps < 2 ^ 64"
    "allows pf maximum (world s) fp ps p" "allows pf maximum (world s) lp ps q"
  then show "fst (RorkHookRestorePointerPageProtections pf fp lp ps spans p q s)"
    using first(2) second(2) allows_advances [OF _ first(1), of pf lp ps q]
    by (simp add: RorkHookRestorePointerPageProtections_def split_beta)
qed

lemma store_transaction_advances:
  fixes pf :: "'w platform"
  assumes law: "vm_law pf ok maximum" and s: "ok (world s)"
    and readable: "prot AND VM_PROT_READ \<noteq> 0" "fo AND VM_PROT_READ \<noteq> 0" "lo AND VM_PROT_READ \<noteq> 0"
  shows "advances ok maximum (world s) (world (snd (store_transaction pf slot v prot fp lp ps psz fo lo s)))"
    and "fp \<noteq> 0 \<Longrightarrow> lp \<noteq> 0 \<Longrightarrow> ps \<noteq> 0 \<Longrightarrow> psz \<noteq> 0 \<Longrightarrow>
      unat fp + unat psz < 2 ^ 64 \<Longrightarrow> unat fp + unat ps < 2 ^ 64 \<Longrightarrow> unat lp + unat ps < 2 ^ 64 \<Longrightarrow>
      allows pf maximum (world s) fp psz prot \<Longrightarrow> allows pf maximum (world s) fp ps fo \<Longrightarrow>
      allows pf maximum (world s) lp ps lo \<Longrightarrow> device_arm64 pf \<longrightarrow> tpro_law pf (mem s) \<Longrightarrow>
      fst (store_transaction pf slot v prot fp lp ps psz fo lo s)"
proof -
  obtain p t a s1 written s2 s3 where p: "p = RorkHookProtectMemory pf fp psz prot s"
    and t: "t = RorkHookSupportsTPRO pf (snd p)"
    and a: "a = (if fst t then RorkHookAllowTPROWrites pf (Some None) (snd t)
      else (False, Some None, snd t))"
    and s1: "s1 = snd (snd a)"
    and written: "written = RorkHookProtectedPointerWriteIsAvailable (fst p) (fst t) (fst a)"
    and s2: "s2 = (if written then sys_dcache_flush slot 8 (write_bytes slot (le_bytes 8 v) s1) else s1)"
    and s3: "s3 = (case fst (snd a) of Some (Some close) \<Rightarrow> close s2 | _ \<Rightarrow> s2)"
    and st: "store_transaction pf slot v prot fp lp ps psz fo lo s =
      (if fst p \<noteq> KERN_SUCCESS then (written, s3)
       else case RorkHookRestorePointerPageProtections pf fp lp ps (fp \<noteq> lp) fo lo s3 of
         (r, s') \<Rightarrow> (written \<and> r, s'))"
    by (rule store_transaction_steps)
  note obs = tpro_services_observe [where view = ok, OF vm_law_register(1) [OF law]]
    tpro_services_observe [where view = maximum, OF vm_law_register(2) [OF law]]
  note opened = ProtectMemory_advances [OF law s readable(1)]
  have "fst (snd a) = Some None \<or> fst (snd a) = Some (Some (RorkHookEndThreadTPROWrite pf))"
    using AllowTPROWrites_callback by (auto simp: a)
  moreover have "world s2 = world s1" by (simp add: s2)
  ultimately have "ok (world s3) = ok (world s1)" "maximum (world s3) = maximum (world s1)"
    by (auto simp: s3 obs)
  moreover have "ok (world s1) = ok (world (snd p))" "maximum (world s1) = maximum (world (snd p))"
    by (simp_all add: s1 a t obs)
  ultimately have "ok (world s3) = ok (world (snd p))" "maximum (world s3) = maximum (world (snd p))"
    by simp_all
  with opened(1) have adv: "advances ok maximum (world s) (world s3)" by (simp add: advances_def p)
  note closed = RestorePageProtections_advances [OF law advances_ok [OF adv] readable(2,3)]
  show "advances ok maximum (world s) (world (snd (store_transaction pf slot v prot fp lp ps psz fo lo s)))"
    using adv advances_trans [OF adv closed(1)] by (simp add: st split_beta)
  assume pages: "fp \<noteq> 0" "lp \<noteq> 0" "ps \<noteq> 0" "psz \<noteq> 0"
      "unat fp + unat psz < 2 ^ 64" "unat fp + unat ps < 2 ^ 64" "unat lp + unat ps < 2 ^ 64"
    and permitted: "allows pf maximum (world s) fp psz prot" "allows pf maximum (world s) fp ps fo"
      "allows pf maximum (world s) lp ps lo"
    and tpro: "device_arm64 pf \<longrightarrow> tpro_law pf (mem s)"
  have success: "fst p = KERN_SUCCESS" using opened(2) pages permitted(1) by (simp add: p)
  have "fst a" if "fst t"
  proof -
    from that have "device_arm64 pf" by (auto simp: t RorkHookSupportsTPRO_def split: if_splits)
    with tpro have l: "tpro_law pf (mem (snd t))" "tpro_law pf (mem (snd p))" by (simp_all add: t p)
    with that have "uses_tpro pf (mem (snd t))" using supports_window(1) [OF l(2)] by (simp add: t)
    with l(1) that show ?thesis using allow_window(1) by (simp add: a)
  qed
  with success have written by (simp add: written RorkHookProtectedPointerWriteIsAvailable_def)
  with success closed(2) pages permitted(2,3) [THEN allows_advances, OF adv]
  show "fst (store_transaction pf slot v prot fp lp ps psz fo lo s)" by (simp add: st split_beta)
qed

text \<open>The two parts of a slot, each on one page.\<close>

lemma slot_parts:
  fixes slot ps :: u64
  assumes "ps \<noteq> 0" "ps AND (ps - 1) = 0" "\<not> slot + 7 < slot" "8 \<le> unat ps"
    and "fp = slot AND NOT (ps - 1)" "lp = (slot + 7) AND NOT (ps - 1)"
    and "n = (if fp \<noteq> lp then lp - slot else 8)"
  shows "same_page ps fp slot" "same_page ps lp (slot + 7)"
    and "0 < unat n" "unat slot + unat n \<le> (unat slot div unat ps + 1) * unat ps"
    and "fp \<noteq> lp \<Longrightarrow> 0 < unat (8 - n) \<and> unat lp + unat (8 - n) \<le> (unat (slot + 7) div unat ps + 1) * unat ps"
    and "unat ps \<le> unat slot \<Longrightarrow> unat ps \<le> unat fp \<and> unat ps \<le> unat lp"
proof -
  let ?P = "unat ps" and ?q = "unat slot div unat ps" and ?r = "(unat slot + 7) div unat ps"
  note sp = slot_pages [OF assms(1-3), folded assms(5,6)]
  have P: "0 < ?P" using assms(4) by simp
  show "same_page ps fp slot" "same_page ps lp (slot + 7)"
    using P by (simp_all add: same_page_def sp)
  have slot: "?q * ?P \<le> unat slot" "unat slot < (?q + 1) * ?P" "unat slot + 7 < (?r + 1) * ?P"
    using dividend_less_div_times [OF P, of "unat slot"] dividend_less_div_times [OF P, of "unat slot + 7"]
    by simp_all
  have "unat slot + 7 < unat slot + ?P" using assms(4) by simp
  then have "?r \<le> (unat slot + ?P) div ?P" by (intro div_le_mono) simp
  moreover have "(unat slot + ?P) div ?P = Suc ?q" using P div_add_self2 [of ?P "unat slot"] by linarith
  ultimately have qr: "?q \<le> ?r" "?r \<le> ?q + 1" by (simp_all add: div_le_mono)
  have same: "fp = lp \<longleftrightarrow> ?q = ?r" using P by (auto simp: word_unat_eq_iff sp)
  have lower: "?q * ?P + ?P = (?q + 1) * ?P" by simp
  have n: "unat n = (if ?q = ?r then 8 else (?q + 1) * ?P - unat slot)"
  proof (cases "?q = ?r")
    case True
    with same show ?thesis by (simp add: assms(7))
  next
    case False
    with qr have r: "?r = ?q + 1" by simp
    then have "slot \<le> lp" using slot(2) by (simp add: word_le_nat_alt sp)
    with False same r show ?thesis by (simp add: assms(7) unat_sub sp)
  qed
  show "0 < unat n" using slot(2) by (simp add: n)
  show "unat slot + unat n \<le> (?q + 1) * ?P" using slot by (auto simp: n)
  show "0 < unat (8 - n) \<and> unat lp + unat (8 - n) \<le> (unat (slot + 7) div ?P + 1) * ?P" if "fp \<noteq> lp"
  proof -
    from that same qr have r: "?q \<noteq> ?r" "?r = ?q + 1" by simp_all
    have lp: "unat lp = (?q + 1) * ?P" by (simp add: sp r(2))
    have "unat lp \<le> unat slot + 7" by (simp add: sp)
    with lp r n have "unat n \<le> 7" by simp
    then have e: "unat (8 - n) = 8 - unat n" by (simp add: unat_sub word_le_nat_alt)
    have "unat lp + unat (8 - n) = unat slot + 8"
      using \<open>unat n \<le> 7\<close> slot(2) e lp n r(1) by simp
    with slot(3) \<open>unat n \<le> 7\<close> e show ?thesis by (simp add: sp(1))
  qed
  assume "?P \<le> unat slot"
  then have "?P div ?P \<le> ?q" by (intro div_le_mono)
  then have "1 \<le> ?q" using P by simp
  then have "1 * ?P \<le> ?q * ?P" "1 * ?P \<le> ?r * ?P" using qr by (intro mult_le_mono1; simp)+
  then show "?P \<le> unat fp \<and> ?P \<le> unat lp" by (simp add: sp)
qed

lemma readable_protection:
  "RorkHookMemoryIsReadable pf w a n \<Longrightarrow> protection_of pf w a = Some p \<Longrightarrow> p AND VM_PROT_READ \<noteq> 0"
  by (auto simp: MemoryIsReadable_iff protection_of_def)

lemma readable_nonnull: "RorkHookMemoryIsReadable pf w a n \<Longrightarrow> a \<noteq> 0"
  by (simp add: MemoryIsReadable_exact)

text \<open>Whatever the outcome of a store, the process only advances.\<close>

lemma StoreProtectedPointer_advances:
  assumes law: "vm_law pf ok maximum" and s: "ok (world s)" and size: "8 \<le> unat (vm_page_size pf)"
    and prot: "prot AND VM_PROT_READ \<noteq> 0"
  shows "advances ok maximum (world s) (world (snd (RorkHookStoreProtectedPointer pf slot v prot s)))"
proof (cases rule: StoreProtectedPointer_cases [of pf slot v prot s])
  case (runs fp lp ps fo lo)
  note ps = runs(1) and body = StoreProtectedPointer_body [OF runs(1,5,6), of v prot s]
  define n where "n = (if fp \<noteq> lp then lp - slot else 8)"
  note parts = slot_parts [OF runs(2-4) size [folded ps] runs(5,6) n_def]
  show ?thesis
  proof (cases "RorkHookMemoryIsReadable pf (world s) slot n \<and> (fp \<noteq> lp \<longrightarrow> RorkHookMemoryIsReadable pf (world s) lp (8 - n))")
    case False
    then show ?thesis using advances_refl [of ok "world s" maximum, OF s] unfolding body by (auto simp: n_def)
  next
    case True
    have "protection_of pf (world s) slot = Some fo"
      using vm_law_page [OF law s protection_of_null [OF runs(9)] runs(7)] parts(1) runs(9) by (simp add: ps)
    with True have fo: "fo AND VM_PROT_READ \<noteq> 0" by (auto dest: readable_protection)
    have lo: "lo AND VM_PROT_READ \<noteq> 0"
      using True runs(9,10) fo by (cases "fp = lp") (auto dest: readable_protection)
    show ?thesis unfolding runs(11) by (rule store_transaction_advances(1) [OF law s prot fo lo])
  qed
qed (simp add: advances_refl s)

lemma page_readable_end:
  assumes "page_readable pf w x"
  shows "(unat x div unat (vm_page_size pf) + 1) * unat (vm_page_size pf) < 2 ^ 64"
  using assms unfolding page_readable_def same_page_def by fastforce

lemma StoreProtectedPointer_permitted:
  assumes law: "vm_law pf ok maximum" and s: "ok (world s)"
    and size: "vm_page_size pf AND (vm_page_size pf - 1) = 0" "8 \<le> unat (vm_page_size pf)"
    and prot: "prot AND VM_PROT_READ \<noteq> 0" "prot AND VM_PROT_WRITE \<noteq> 0"
    and slot: "unat (vm_page_size pf) \<le> unat slot" "unat slot + 8 \<le> 2 ^ 64"
    and pages: "page_readable pf (world s) slot" "page_readable pf (world s) (slot + 7)"
    and permitted: "allows pf maximum (world s) slot 8 prot"
    and tpro: "device_arm64 pf \<longrightarrow> tpro_law pf (mem s)"
  shows "fst (RorkHookStoreProtectedPointer pf slot v prot s)"
proof -
  define ps where "ps = vm_page_size pf"
  define fp where "fp = slot AND NOT (ps - 1)"
  define lp where "lp = (slot + 7) AND NOT (ps - 1)"
  define n where "n = (if fp \<noteq> lp then lp - slot else 8)"
  have geo: "ps \<noteq> 0" "ps AND (ps - 1) = 0" "slot \<noteq> 0" using size slot(1) by (auto simp: ps_def)
  have wrap: "\<not> slot + 7 < slot" using slot(2) by (simp add: word_less_nat_alt unat_add_no_wrap)
  have eight: "8 \<le> unat ps" using size(2) by (simp add: ps_def)
  note parts = slot_parts [OF geo(1,2) wrap eight fp_def lp_def n_def]
  have above: "unat ps \<le> unat fp" "unat ps \<le> unat lp" using parts(6) slot(1) by (simp_all add: ps_def)
  then have nonnull: "fp \<noteq> 0" "lp \<noteq> 0" using size(2) by (auto simp: ps_def)
  note range = page_readable_range [where pf = pf, folded ps_def]
  have first: "RorkHookMemoryIsReadable pf (world s) slot n"
    by (rule range(1) [OF pages(1) _ geo(3) parts(3,4)]) (simp add: same_page_def)
  have last: "RorkHookMemoryIsReadable pf (world s) lp (8 - n)" if "fp \<noteq> lp"
    using range(1) [OF pages(2) parts(2) nonnull(2)] parts(5) [OF that] by blast
  have "protection_of pf (world s) slot \<noteq> None"
    by (rule range(2) [OF pages(1) _ geo(3) parts(3,4)]) (simp add: same_page_def)
  then obtain fo where fo: "protection_of pf (world s) slot = Some fo" "protection_of pf (world s) fp = Some fo"
    using vm_law_page [OF law s nonnull(1) geo(3)] parts(1) by (auto simp: ps_def)
  obtain lo where lo: "(if fp \<noteq> lp then protection_of pf (world s) lp else Some fo) = Some lo" "lo AND VM_PROT_READ \<noteq> 0"
  proof (cases "fp = lp")
    case True
    with that fo readable_protection [OF first] show thesis by simp
  next
    case False
    from last [OF False] have "protection_of pf (world s) lp \<noteq> None"
      by (auto simp: MemoryIsReadable_iff protection_of_def)
    with that False readable_protection [OF last [OF False]] show thesis by auto
  qed
  have lo_page: "protection_of pf (world s) lp = Some lo" using lo(1) fo(2) by (simp split: if_splits)
  note sp = slot_pages [OF geo(1,2) wrap, folded fp_def lp_def]
    and cover = protected_range_covers(4) [OF geo(1,2) wrap fp_def lp_def nonnull(1)]
    and reach = slot_on_pages [OF geo(1,2) wrap eight fp_def lp_def nonnull(1)]
  have "unat lp + unat ps = (unat (slot + 7) div unat ps + 1) * unat ps" by (simp add: sp)
  then have top: "unat lp + unat ps < 2 ^ 64"
    using page_readable_end [OF pages(2)] by (simp add: ps_def)
  then have low: "unat fp + unat ps < 2 ^ 64" using sp(5) by (simp add: word_le_nat_alt)
  have final: "unat slot + unat (8 :: u64) - 1 = unat slot + 7" by simp
  have "on_pages ps slot 8 x" if "same_page ps x fp \<or> same_page ps x lp" for x
    using that parts(1,2) sp(1) div_le_mono [of "unat slot" "unat slot + 7" "unat ps"]
    unfolding on_pages_def final by (auto simp: same_page_def)
  then have "allows pf maximum (world s) fp (lp - fp + ps) prot"
    using permitted by (simp add: allows_def reach(3) flip: ps_def)
  moreover have page: "x \<noteq> 0" if "same_page ps x y" "unat ps \<le> unat y" for x y
  proof
    assume "x = 0"
    with that(1) have "unat y div unat ps = 0" by (simp add: same_page_def)
    with that(2) eight show False by (simp add: div_eq_0_iff)
  qed
  have "allows pf maximum (world s) fp ps fo"
    by (rule allows_current [OF law s fo(2)]) (use page above reach(1) in \<open>auto simp flip: ps_def\<close>)
  moreover have "allows pf maximum (world s) lp ps lo"
    by (rule allows_current [OF law s lo_page]) (use page above reach(2) in \<open>auto simp flip: ps_def\<close>)
  moreover have "lp - fp + ps \<noteq> 0" "unat fp + unat (lp - fp + ps) < 2 ^ 64"
    using cover top eight sp(5) by (auto simp: word_le_nat_alt)
  ultimately have "fst (store_transaction pf slot v prot fp lp ps (lp - fp + ps) fo lo s)"
    using store_transaction_advances(2) [OF law s prot(1) readable_protection [OF first fo(1)] lo(2)]
      nonnull geo(1) top low tpro by blast
  then show ?thesis
    unfolding StoreProtectedPointer_body [OF ps_def fp_def lp_def, folded n_def]
    using geo wrap prot(2) first last fo(2) lo(1) by (simp split: if_splits)
qed

section \<open>Detours\<close>

lemma on_one_page:
  assumes "unat t mod unat (page :: u32) + 20 \<le> unat page" "ucast page = ps"
    and "unat ps \<le> unat t" "on_pages ps t 20 x"
  shows "x \<noteq> 0 \<and> same_page ps x t"
proof -
  have size: "unat ps = unat page" by (simp flip: assms(2))
  have last: "unat t + unat (20 :: u64) - 1 = unat t + 19" by simp
  have same: "same_page ps x t"
    using assms(4) page_interior [OF assms(1)] unfolding on_pages_def same_page_def last size by simp
  have "0 < unat ps" using assms(1) size by simp
  with assms(3) have "unat t div unat ps \<noteq> 0" by (simp add: div_eq_0_iff)
  with same show ?thesis by (auto simp: same_page_def)
qed

text \<open>A detour inside one page: the widening and the restoring request are both granted.\<close>

lemma patch_transaction_permitted:
  assumes law: "vm_law pf ok maximum" and s: "ok (world s)"
    and one: "\<And>x. on_pages (vm_page_size pf) t 20 x \<Longrightarrow> x \<noteq> 0 \<and> same_page (vm_page_size pf) x t"
    and target: "RorkHookMemoryIsReadable pf (world s) t 20" "protection_of pf (world s) t = Some orig"
    and permitted: "allows pf maximum (world s) t 20 (VM_PROT_READ OR VM_PROT_WRITE OR VM_PROT_COPY)"
  shows "fst (patch_transaction pf t is orig s) = KERN_SUCCESS"
proof -
  have t: "t \<noteq> 0" "orig AND VM_PROT_READ \<noteq> 0" "unat t + unat (20 :: u64) < 2 ^ 64"
    using readable_nonnull [OF target(1)] readable_protection [OF target] readable_no_wrap [OF target(1)] by simp_all
  have read: "(VM_PROT_READ OR VM_PROT_WRITE OR VM_PROT_COPY) AND VM_PROT_READ \<noteq> 0" by simp
  note opened = ProtectMemory_advances [OF law s read, of t 20]
  have again: "allows pf maximum (world (snd (RorkHookProtectMemory pf t 20 (VM_PROT_READ OR VM_PROT_WRITE OR VM_PROT_COPY) s))) t 20 orig"
    by (rule allows_advances [OF allows_current [OF law s target(2) one] opened(1)])
  have closed: "fst (RorkHookProtectMemory pf t 20 orig u) = KERN_SUCCESS"
    if "world u = world (snd (RorkHookProtectMemory pf t 20 (VM_PROT_READ OR VM_PROT_WRITE OR VM_PROT_COPY) s))" for u
    using ProtectMemory_advances(2) [OF law _ t(2), of u t 20] advances_ok [OF opened(1)] again t that by simp
  have "fst (RorkHookProtectMemory pf t 20 (VM_PROT_READ OR VM_PROT_WRITE OR VM_PROT_COPY) s) = KERN_SUCCESS"
    using opened(2) t permitted by simp
  with closed show ?thesis
    by (simp add: patch_transaction_def RorkHookMakeMemoryWritable_def Let_def split_beta)
qed

section \<open>Rebinding\<close>

lemma StoreSlot_advances:
  assumes "vm_law pf ok maximum" "ok (world s)" "8 \<le> unat (vm_page_size pf)"
  shows "ok (world (snd (RorkHookStoreSlot pf slot v s)))"
  unfolding RorkHookStoreSlot_def by (rule advances_ok [OF StoreProtectedPointer_advances [OF assms]]) simp

lemma rewritten_advances:
  assumes "rewritten pf raw new s t" "vm_law pf ok maximum" "ok (world s)" "8 \<le> unat (vm_page_size pf)"
  shows "ok (world t)"
  using assms by (induction rule: rewritten.induct) (simp_all add: StoreSlot_advances)

lemma allows_part:
  assumes "allows pf maximum w a z p" "unat a \<le> unat b" "unat b + unat n \<le> unat a + unat z"
  shows "allows pf maximum w b n p"
  using assms unfolding allows_def on_pages_def by (meson diff_le_mono div_le_mono le_trans)

lemma RebindSymbolInImage_permitted:
  assumes kernel: "vm_law pf ok maximum" "ok (world s)"
    and size: "vm_page_size pf AND (vm_page_size pf - 1) = 0" "8 \<le> unat (vm_page_size pf)"
    and offs: "command_table (mem s) header (unat (RorkHookReadableMemoryLength pf (world s) header)) = Some offs"
    and apart: "sections_apart dy (mem s) header (32 + unat (header_sizeofcmds (mem s) header))"
    and nonnull: "replacee \<noteq> 0" "replacement \<noteq> 0"
    and split: "image_sections (mem s) header offs = before @ sect # after"
    and range: "section_range dy (mem s) header sect = (a, z)" "unat (vm_page_size pf) \<le> unat a" "unat z mod 8 = 0"
    and others: "\<And>other b y. other \<in> set (before @ after) \<Longrightarrow> section_range dy (mem s) header other = (b, y) \<Longrightarrow>
      unat b + unat y \<le> unat a \<or> unat a + unat z \<le> unat b"
    and readable: "\<And>w. ok w \<Longrightarrow> RorkHookMemoryIsReadable pf w a z"
      "\<And>w x. ok w \<Longrightarrow> unat a \<le> unat x \<Longrightarrow> unat x < unat a + unat z \<Longrightarrow> page_readable pf w x"
    and permitted: "\<And>w. ok w \<Longrightarrow> allows pf maximum w a z (VM_PROT_READ OR VM_PROT_WRITE OR VM_PROT_COPY)"
    and law: "\<And>t. rewritten pf (RorkHookStripPointer pf replacee) replacement s t \<Longrightarrow>
      device_arm64 pf \<longrightarrow> tpro_law pf (mem t)"
    and i: "i < unat z div 8" "slot = a + of_nat (8 * i)"
  shows "load64 (mem (RorkHookRebindSymbolInImage pf dy header replacee replacement s)) slot =
    (if matches pf (RorkHookStripPointer pf replacee) (load64 (mem s) slot)
     then slot_value pf replacement (is_auth_got (mem s) sect) slot else load64 (mem s) slot)"
proof -
  let ?val = "slot_value pf replacement (is_auth_got (mem s) sect) slot"
  have later: "ok (world t)" if "rewritten pf (RorkHookStripPointer pf replacee) replacement s t" for t
    by (rule rewritten_advances [OF that kernel size(2)])
  have "a \<noteq> 0" using range(2) size(2) by auto
  then have settled: "slot_settled pf (RorkHookStripPointer pf replacee) replacement (is_auth_got (mem s) sect) slot s
      (RorkHookRebindSymbolInImage pf dy header replacee replacement s)"
    unfolding i(2)
    using RebindSymbolInImage_settles [OF offs apart nonnull split range(1) _ range(3) others readable(1) [OF later] i(1)]
    by simp
  have room: "unat a + unat z < 2 ^ 64" using readable_no_wrap [OF readable(1) [OF kernel(2)]] .
  have slot: "unat slot = unat a + 8 * i" "unat slot + 8 \<le> unat a + unat z"
    using slot_of_range [OF room i(1)] by (simp_all add: i(2))
  with room have last: "unat (slot + 7) = unat slot + 7" by (simp add: unat_add_no_wrap)
  have "fst (RorkHookStoreSlot pf slot ?val t)"
    if t: "rewritten pf (RorkHookStripPointer pf replacee) replacement s t" for t
    unfolding RorkHookStoreSlot_def
  proof (rule StoreProtectedPointer_permitted [OF kernel(1) later [OF t] size])
    show "allows pf maximum (world t) slot 8 (VM_PROT_READ OR VM_PROT_WRITE OR VM_PROT_COPY)"
      using slot by (intro allows_part [OF permitted [OF later [OF t]]]) simp_all
    show "page_readable pf (world t) slot" "page_readable pf (world t) (slot + 7)"
      using slot last by (simp_all add: readable(2) [OF later [OF t]])
  qed (use slot range(2) room law [OF t] in simp_all)
  with settled show ?thesis by (auto simp: slot_settled_def Let_def split: if_splits)
qed

section \<open>Properties\<close>

text \<open>
  C12: A protected store succeeds whenever the pages admit it: on a kernel that behaves as documented,
  for a slot above the null page, on readable pages whose maximum protections permit the request (with
  \<open>VM_PROT_COPY\<close> a read-only page does), with a writable protection requested (and, on a device, a comm
  page and register as documented) the store returns true and the slot holds the value, whether the
  process uses TPRO or not and whether the slot spans two pages or not.
\<close>

theorem StoreProtectedPointer_succeeds:
  assumes "vm_law pf ok maximum" "ok (world s)"
    and "vm_page_size pf AND (vm_page_size pf - 1) = 0" "8 \<le> unat (vm_page_size pf)"
    and "prot AND VM_PROT_READ \<noteq> 0" "prot AND VM_PROT_WRITE \<noteq> 0"
    and "unat (vm_page_size pf) \<le> unat slot" "unat slot + 8 \<le> 2 ^ 64"
    and "page_readable pf (world s) slot" "page_readable pf (world s) (slot + 7)"
    and "allows pf maximum (world s) slot 8 prot"
    and "device_arm64 pf \<longrightarrow> tpro_law pf (mem s)"
  shows "\<exists>s'. RorkHookStoreProtectedPointer pf slot v prot s = (True, s') \<and>
    mem s' = store_bytes (mem s) slot (le_bytes 8 v) \<and> load64 (mem s') slot = v \<and> ok (world s')"
  using StoreProtectedPointer_permitted [OF assms, of v]
    advances_ok [OF StoreProtectedPointer_advances [OF assms(1,2,4,5), of slot v]]
    store_effect [where pf = pf and slot = slot and v = v and prot = prot and s = s]
  by (cases "RorkHookStoreProtectedPointer pf slot v prot s") (simp add: load64_store64)

text \<open>
  C22: A detour succeeds whenever its checks pass: on a kernel that behaves as documented, for a target
  above the null page whose page may be made writable by copying, a call that passes the checks returns
  success, memory is changed by exactly the twenty bytes of the jump at the target, and whoever enters
  the target arrives at the replacement, with only x16 changed; a call that fails a check returns the
  code of that check and has no effect. (\<open>getpagesize\<close> and \<open>vm_page_size\<close> agree.)
\<close>

theorem ReplaceFunction_succeeds:
  assumes "vm_law pf ok maximum" "ok (world s)"
    and "ucast (getpagesize pf) = vm_page_size pf" "unat (vm_page_size pf) \<le> unat (raw_address pf f)"
    and "allows pf maximum (world s) (raw_address pf f) 20 (VM_PROT_READ OR VM_PROT_WRITE OR VM_PROT_COPY)"
  shows "case detour_check pf (world s) f n r of
      Inl code \<Rightarrow> RorkHookReplaceFunctionWithSize pf f n r s = (code, s)
    | Inr orig \<Rightarrow>
        (case RorkHookReplaceFunctionWithSize pf f n r s of (code, s') \<Rightarrow>
           code = KERN_SUCCESS \<and>
           mem s' = store_bytes (mem s) (raw_address pf f) (word_bytes (jump_words (raw_address pf r))) \<and>
           cpu_run 5 (mem s') \<lparr>pc = raw_address pf f, reg = regs\<rparr> =
             Some \<lparr>pc = raw_address pf r, reg = regs(16 := raw_address pf r)\<rparr>)"
proof (cases "detour_check pf (world s) f n r")
  case (Inl code)
  then show ?thesis by (simp add: ReplaceFunction_check)
next
  case (Inr orig)
  define t where "t = raw_address pf f"
  let ?w = "jump_words (raw_address pf r)"
  note checked = detour_check_Inr [OF Inr t_def]
  have page: "x \<noteq> 0 \<and> same_page (vm_page_size pf) x t" if "on_pages (vm_page_size pf) t 20 x" for x
    using on_one_page [OF checked(7) assms(3)] assms(4) that by (simp flip: t_def)
  have success: "fst (patch_transaction pf t ?w orig s) = KERN_SUCCESS"
    by (rule patch_transaction_permitted [OF assms(1,2) page checked(8,9) assms(5) [folded t_def]])
  have "load_bytes (store_bytes (mem s) t (word_bytes ?w)) t 20 = word_bytes ?w"
    using store_bytes_same [of "word_bytes ?w" "mem s" t] by (simp add: length_jump_bytes)
  with success Inr show ?thesis
    using jump_reaches [of "store_bytes (mem s) t (word_bytes ?w)" "\<lparr>pc = t, reg = regs\<rparr>"]
    by (simp add: ReplaceFunction_check split_beta patch_transaction_mem [OF length_jump_bytes] flip: t_def)
qed

text \<open>
  C16: Rebinding an image rebinds every slot: on a kernel that behaves as documented, for a section on
  readable pages that may be made writable by copying, each slot of a symbol-pointer section that
  resolves to the replacee holds the replacement after the call (raw, or signed for the slot in
  \<open>__auth_got\<close>), and each other slot keeps its value; none is refused. (Hypotheses on the image as for
  its completeness; the section stays readable and copyable in the states \<open>ok\<close>.)
\<close>

theorem RebindSymbolInImage_succeeds:
  assumes kernel: "vm_law pf ok maximum" "ok (world s)"
    and size: "vm_page_size pf AND (vm_page_size pf - 1) = 0" "8 \<le> unat (vm_page_size pf)"
    and offs: "command_table (mem s) header (unat (RorkHookReadableMemoryLength pf (world s) header)) = Some offs"
    and apart: "sections_apart dy (mem s) header (32 + unat (header_sizeofcmds (mem s) header))"
    and nonnull: "replacee \<noteq> 0" "replacement \<noteq> 0"
    and split: "image_sections (mem s) header offs = before @ sect # after"
    and range: "section_range dy (mem s) header sect = (a, z)" "unat (vm_page_size pf) \<le> unat a" "unat z mod 8 = 0"
    and others: "\<And>other b y. other \<in> set (before @ after) \<Longrightarrow> section_range dy (mem s) header other = (b, y) \<Longrightarrow>
      unat b + unat y \<le> unat a \<or> unat a + unat z \<le> unat b"
    and readable: "\<And>w. ok w \<Longrightarrow> RorkHookMemoryIsReadable pf w a z"
      "\<And>w x. ok w \<Longrightarrow> unat a \<le> unat x \<Longrightarrow> unat x < unat a + unat z \<Longrightarrow> page_readable pf w x"
    and permitted: "\<And>w. ok w \<Longrightarrow> allows pf maximum w a z (VM_PROT_READ OR VM_PROT_WRITE OR VM_PROT_COPY)"
    and law: "\<And>t. rewritten pf (RorkHookStripPointer pf replacee) replacement s t \<Longrightarrow>
      device_arm64 pf \<longrightarrow> tpro_law pf (mem t)"
    and i: "i < unat z div 8" "slot = a + of_nat (8 * i)"
  shows "load64 (mem (RorkHookRebindSymbolInImage pf dy header replacee replacement s)) slot =
    (if matches pf (RorkHookStripPointer pf replacee) (load64 (mem s) slot)
     then slot_value pf replacement (is_auth_got (mem s) sect) slot else load64 (mem s) slot)"
  using assms by (rule RebindSymbolInImage_permitted)

section \<open>The properties on a concrete kernel\<close>

text \<open>A device with TPRO, its window closed: a page of constants next to a page of code, the page of the
  function at \<open>0x10010\<close>, and the comm page, none of them writable by itself.\<close>

definition mach_device :: "mach_state machine" where
  "mach_device =
     \<lparr>mem = mem (device_state []),
      world = \<lparr>mapped = [(2, 1, 1), (3, 5, 5), (4, 5, 5), (0x3FFFFF, 1, 1)], thread_register = 3\<rparr>, events = []\<rparr>"

lemma mach_register [simp]: "thread_register (snd (mach_protect w a n p)) = thread_register w"
  by (simp add: mach_protect_def Let_def)

lemma mach_tpro_law: "tpro_law (mach_platform True) (mem mach_device)"
  by (simp add: tpro_law_def mach_device_def device_comm_page)

lemma mach_device_ok: "mach_ok [2, 3, 4] (world mach_device)"
  by (simp add: mach_ok_def mach_device_def)

lemma mach_page_readable:
  assumes "mach_ok qs w" "x \<noteq> 0" "map_of (mapped w) (unat x div 0x4000) = Some (c, m)" "c AND VM_PROT_READ \<noteq> 0"
  shows "page_readable (mach_platform device) w x"
  unfolding page_readable_def
proof (intro allI impI)
  fix a assume "same_page (vm_page_size (mach_platform device)) a x"
  then have same: "unat a div 0x4000 = unat x div 0x4000" by (simp add: same_page_def)
  have "0 < unat x div 0x4000" using mach_entry(1) [OF assms(1) map_of_SomeD [OF assms(3)]] .
  with same have "a \<noteq> 0" by auto
  from mach_query [OF assms(1) this refl, of device] have q: "RorkHookQueryRegion (mach_platform device) w a =
      Some (of_nat (unat a div 0x4000 * 0x4000), 0x4000, c)"
    by (simp add: same assms(3))
  then show "\<exists>start n p. vm_region_64 (mach_platform device) w a = (KERN_SUCCESS, start, n, p) \<and>
      p AND VM_PROT_READ \<noteq> 0 \<and> unat start \<le> unat a \<and> unat start + unat n < 2 ^ 64 \<and>
      (unat x div unat (vm_page_size (mach_platform device)) + 1) * unat (vm_page_size (mach_platform device))
        \<le> unat start + unat n"
    using page_start(1) [OF refl, of a] assms(4) by (intro exI) (auto simp: QueryRegion_Some same)
qed

lemma mach_allows:
  assumes "\<And>q. unat a div 0x4000 \<le> q \<Longrightarrow> q \<le> (unat a + unat n - 1) div 0x4000 \<Longrightarrow>
    \<exists>c m. map_of (mapped w) q = Some (c, m) \<and> permits m p"
  shows "allows (mach_platform device) mach_maximum w a n p"
  unfolding allows_def
proof (intro allI impI)
  fix x assume "on_pages (vm_page_size (mach_platform device)) a n x"
  with assms [of "unat x div 0x4000"] show "\<exists>m. mach_maximum w x = Some m \<and> permits m p"
    by (auto simp: on_pages_def mach_maximum_def)
qed

theorem StoreProtectedPointer_succeeds_witness:
  "\<exists>s'. RorkHookStoreProtectedPointer (mach_platform True) 0xBFFC 7 0x13 mach_device = (True, s') \<and>
     load64 (mem s') 0xBFFC = 7"
proof -
  have "page_readable (mach_platform True) (world mach_device) 0xBFFC"
    by (rule mach_page_readable [OF mach_device_ok, where c = 1 and m = 1]) (simp_all add: mach_device_def)
  moreover have "page_readable (mach_platform True) (world mach_device) (0xBFFC + 7)"
    by (rule mach_page_readable [OF mach_device_ok, where c = 5 and m = 5]) (simp_all add: mach_device_def)
  moreover have "allows (mach_platform True) mach_maximum (world mach_device) 0xBFFC 8 0x13"
  proof (rule mach_allows)
    fix q :: nat assume "unat (0xBFFC :: u64) div 0x4000 \<le> q" "q \<le> (unat (0xBFFC :: u64) + unat (8 :: u64) - 1) div 0x4000"
    then have "q = 2 \<or> q = 3" by auto
    then show "\<exists>c m. map_of (mapped (world mach_device)) q = Some (c, m) \<and> permits m 0x13"
      by (auto simp: mach_device_def permits_def)
  qed
  ultimately show ?thesis
    using StoreProtectedPointer_succeeds [OF mach_vm_law mach_device_ok, of True "0x13" "0xBFFC" 7] mach_tpro_law
    by auto
qed

theorem ReplaceFunction_succeeds_witness:
  "\<exists>s'. RorkHookReplaceFunctionWithSize (mach_platform True) 0x10010 32 0x20000 mach_device = (KERN_SUCCESS, s') \<and>
     cpu_run 5 (mem s') \<lparr>pc = 0x10010, reg = \<lambda>_. 1\<rparr> = Some \<lparr>pc = 0x20000, reg = (\<lambda>_. 1)(16 := 0x20000)\<rparr>"
proof -
  have raw: "raw_address (mach_platform True) p = p" for p by (simp add: raw_address_def)
  have "RorkHookQueryRegion (mach_platform True) (world mach_device) 0x10010 = Some (0x10000, 0x4000, 5)"
    by (subst mach_query [OF mach_device_ok _ refl]) (simp_all add: mach_device_def)
  then have "detour_check (mach_platform True) (world mach_device) 0x10010 32 0x20000 = Inr 5"
    by (simp add: detour_check_def raw Let_def MemoryIsReadable_iff protection_of_def)
  moreover have "allows (mach_platform True) mach_maximum (world mach_device) 0x10010 20 0x13"
  proof (rule mach_allows)
    fix q :: nat assume "unat (0x10010 :: u64) div 0x4000 \<le> q" "q \<le> (unat (0x10010 :: u64) + unat (20 :: u64) - 1) div 0x4000"
    then have "q = 4" by auto
    then show "\<exists>c m. map_of (mapped (world mach_device)) q = Some (c, m) \<and> permits m 0x13"
      by (auto simp: mach_device_def permits_def)
  qed
  ultimately show ?thesis
    using ReplaceFunction_succeeds [OF mach_vm_law mach_device_ok, of True "0x10010" 32 "0x20000" "\<lambda>_. 1"]
    by (auto simp: raw split: prod.splits)
qed

text \<open>The sample image, mapped for reading only, and its slots, mapped read-only as after startup.\<close>

definition mach_sample :: "mach_state machine" where
  "mach_sample = \<lparr>mem = mem sample_state, world = \<lparr>mapped = [(4, 5, 5), (5, 1, 1)], thread_register = 0\<rparr>, events = []\<rparr>"

definition mach_dyld :: "mach_state dyld" where
  "mach_dyld = \<lparr>getsectiondata = (\<lambda>_ _ _ _. (0x14000, 16)), dladdr = (\<lambda>_ _. (1, 0x18000))\<rparr>"

text \<open>A readable page may be made writable by copying.\<close>

lemma permits_copy:
  assumes "c AND VM_PROT_READ \<noteq> 0" "c AND NOT m = 0"
  shows "permits m 0x13"
proof -
  have "bit c 0" using assms(1) by (simp add: and_one_eq mod2_eq_if bit_0 split: if_splits)
  then have m: "bit m 0" using assms(2) by (auto simp: bit_eq_iff bit_simps)
  have "(3 :: u32) = mask 2" by (simp add: mask_eq_exp_minus_1)
  moreover have "mask 2 AND NOT (m OR 2) = 0"
  proof (rule bit_word_eqI)
    fix n :: nat
    have "n < 2 \<Longrightarrow> n = 0 \<or> n = 1" by auto
    then show "bit (mask 2 AND NOT (m OR 2)) n = bit (0 :: u32) n" using m by (auto simp: bit_simps)
  qed
  ultimately show ?thesis by (simp add: permits_def flip: and.assoc)
qed

lemma mach_section:
  assumes "mach_ok qs w" "5 \<in> set qs"
  shows "RorkHookMemoryIsReadable (mach_platform device) w 0x14000 16"
    and "unat (0x14000 :: u64) \<le> unat x \<Longrightarrow> unat x < unat (0x14000 :: u64) + unat (16 :: u64) \<Longrightarrow>
      page_readable (mach_platform device) w x"
    and "allows (mach_platform device) mach_maximum w 0x14000 16 0x13"
proof -
  obtain c m where e: "map_of (mapped w) 5 = Some (c, m)" "c AND VM_PROT_READ \<noteq> 0"
    using assms by (fastforce simp: mach_ok_def list_all_iff split: option.splits)
  have "c AND NOT m = 0" by (rule mach_entry(3) [OF assms(1) map_of_SomeD [OF e(1)]])
  with e(2) have "permits m 0x13" by (rule permits_copy)
  then show "allows (mach_platform device) mach_maximum w 0x14000 16 0x13"
    using e(1) by (intro mach_allows) auto
  show "RorkHookMemoryIsReadable (mach_platform device) w 0x14000 16"
    using e by (simp add: MemoryIsReadable_iff mach_query [OF assms(1) _ refl])
  assume x: "unat (0x14000 :: u64) \<le> unat x" "unat x < unat (0x14000 :: u64) + unat (16 :: u64)"
  then have "unat x div 0x4000 = 5" by (intro div_nat_eqI) simp_all
  with e x show "page_readable (mach_platform device) w x"
    by (intro mach_page_readable [OF assms(1)]) auto
qed

theorem RebindSymbolInImage_succeeds_witness:
  "load64 (mem (RorkHookRebindSymbolInImage (mach_platform False) mach_dyld 0x10000 0x5000 0x6000 mach_sample)) 0x14000 =
     0x6000"
proof -
  let ?pf = "mach_platform False"
  have strip: "RorkHookStripPointer ?pf p = p" for p by (simp add: RorkHookStripPointer_def)
  have val: "slot_value ?pf v auth slot = v" for v auth slot by (simp add: slot_value_def)
  have mem: "mem mach_sample = mem sample_state" by (simp add: mach_sample_def)
  have slot: "load64 (mem mach_sample) 0x14000 = 0x5000" using auth_slot by (simp add: auth_state_def mem)
  have range: "section_range mach_dyld m header sect = (0x14000, 16)" for m header sect
    by (simp add: section_range_def mach_dyld_def)
  have ok: "mach_ok [5] (world mach_sample)" by (simp add: mach_ok_def mach_sample_def)
  have apart: "sections_apart mach_dyld m 0x10000 184" for m by (simp add: sections_apart_def mach_dyld_def)
  have table: "RorkHookReadableMemoryLength ?pf (world mach_sample) 0x10000 = 0x4000"
    unfolding RorkHookReadableMemoryLength_def mach_query [OF ok _ refl, of "0x10000", simplified]
    by (simp add: mach_sample_def)
  have "load64 (mem (RorkHookRebindSymbolInImage ?pf mach_dyld 0x10000 0x5000 0x6000 mach_sample)) 0x14000 =
    (if matches ?pf (RorkHookStripPointer ?pf 0x5000) (load64 (mem mach_sample) 0x14000)
     then slot_value ?pf 0x6000 (is_auth_got (mem mach_sample) 0x10068) 0x14000 else load64 (mem mach_sample) 0x14000)"
  proof (rule RebindSymbolInImage_succeeds [OF mach_vm_law ok, where offs = "[0]" and before = "[]" and after = "[]"
        and i = 0 and a = "0x14000" and z = 16])
    show "page_readable ?pf w x" if "mach_ok [5] w" "unat (0x14000 :: u64) \<le> unat x"
      "unat x < unat (0x14000 :: u64) + unat (16 :: u64)" for w x
      using that by (intro mach_section(2) [of "[5]"]) simp_all
  qed (simp_all add: table mem sample_table apart range mach_section)
  then show ?thesis by (simp add: matches_def strip val slot)
qed

end
