(* ===== verification/Registry_Model.thy ===== *)
theory Registry_Model
  imports Rebind
begin

text \<open>
  The global rebind registry (\<open>Sources/RorkHook/RorkHookRebind.c\<close>, from \<open>RorkHookGlobalRebind\<close> to
  \<open>RorkHookRebindSymbolGlobally\<close>): a lock-free list of immutable registrations, a dyld callback
  registered once, and an enumeration of the images that are already loaded.

  The operations are given twice. As functions on the process state \<open>'w system\<close> they are the
  code run by one thread alone. As the step relation \<open>registry_step\<close> they are any number of
  threads that interleave at the accesses to shared state: each load, compare-exchange, entry of
  the \<open>dispatch_once\<close> block, query of dyld and application to one image is one step, image loads
  and arbitrary changes of the machine by the rest of the process happen in between, and a weak
  compare-exchange may fail spuriously. Accesses are sequentially consistent, and applying one
  rebind to one image is one step.

  dyld and libdispatch are not part of the repository. Of dyld the steps assume what its
  interface documents: a registered function is called for every image loaded at that moment and
  for every image loaded later, and images keep their index (no image is unloaded). Of
  \<open>dispatch_once\<close>: the block runs once and other callers wait for it to end. \<open>malloc\<close> returns
  null or an address that is not in use. The invariant of the steps is in \<open>Registry_Invariant\<close>, the
  properties are in \<open>Registry\<close>.
\<close>

section \<open>State\<close>

type_synonym 'w RorkHookImageFilter = "'w machine \<Rightarrow> u64 \<Rightarrow> bool"

record 'w RorkHookGlobalRebind =
  gr_sourceHeader :: u64
  gr_replacee :: u64
  gr_replacement :: u64
  gr_filter :: "'w RorkHookImageFilter option"
  gr_next :: u64

type_synonym 'w rebind_heap = "u64 \<Rightarrow> 'w RorkHookGlobalRebind option"

datatype once = Once_Idle | Once_Running | Once_Done

text \<open>The order in which a \<open>dispatch_once\<close> predicate takes its values.\<close>

instantiation once :: linorder
begin

fun less_once :: "once \<Rightarrow> once \<Rightarrow> bool" where
  "less_once Once_Idle y = (y \<noteq> Once_Idle)"
| "less_once Once_Running y = (y = Once_Done)"
| "less_once Once_Done y = False"

definition less_eq_once :: "once \<Rightarrow> once \<Rightarrow> bool" where
  "less_eq_once x y \<longleftrightarrow> x < y \<or> x = y"

instance
proof
  fix x y z :: once
  show "(x < y) = (x \<le> y \<and> \<not> y \<le> x)" by (cases x; cases y) (simp_all add: less_eq_once_def)
  show "x \<le> x" by (simp add: less_eq_once_def)
  show "x \<le> y \<Longrightarrow> y \<le> z \<Longrightarrow> x \<le> z" by (cases x; cases y; cases z) (simp_all add: less_eq_once_def)
  show "x \<le> y \<Longrightarrow> y \<le> x \<Longrightarrow> x = y" by (cases x; cases y) (simp_all add: less_eq_once_def)
  show "x \<le> y \<or> y \<le> x" by (cases x; cases y) (simp_all add: less_eq_once_def)
qed

end

lemma once_bounds: "Once_Idle \<le> x" "x \<le> Once_Done"
  by (cases x; simp add: less_eq_once_def)+

text \<open>Where a thread stands: outside the library, in \<open>RorkHookRebindSymbolGlobally\<close> (with its
  entry), or in the image-load callback for an image that dyld has just loaded.\<close>

datatype thread =
    Idle
  | Publish u64 u64
  | Exchange u64 u64
  | Register u64
  | Visit u64 "u64 list" "u64 option"
  | Count u64
  | Enumerate u64 u32 u32
  | Returned bool
  | Notify u64 "u64 option"

text \<open>\<open>registrations\<close> counts the calls of \<open>_dyld_register_func_for_add_image\<close> and \<open>applied\<close> records
  the applications of an entry to an image, oldest first.\<close>

record 'w system =
  machine :: "'w machine"
  heap :: "'w rebind_heap"
  gRebinds :: u64
  gAddImageCallbackOnce :: once
  registrations :: nat
  images :: "u64 list"
  applied :: "(u64 \<times> u64) list"
  threads :: "nat \<Rightarrow> thread"

section \<open>Operations of one thread\<close>

definition RorkHookApplyRebind ::
  "'w platform \<Rightarrow> 'w dyld \<Rightarrow> 'w RorkHookGlobalRebind option \<Rightarrow> u64 \<Rightarrow> 'w machine \<Rightarrow> 'w machine" where
  "RorkHookApplyRebind pf dy rebind header s =
     (case rebind of
        None \<Rightarrow> s
      | Some r \<Rightarrow>
          if header = 0 then s
          else if header = gr_sourceHeader r then s
          else if (case gr_filter r of None \<Rightarrow> False | Some f \<Rightarrow> \<not> f s header) then s
          else RorkHookRebindSymbolInImage pf dy header (gr_replacee r) (gr_replacement r) s)"

definition apply_entry ::
  "'w platform \<Rightarrow> 'w dyld \<Rightarrow> u64 \<Rightarrow> u64 \<Rightarrow> 'w system \<Rightarrow> 'w system" where
  "apply_entry pf dy rebind header s =
     s\<lparr>machine := RorkHookApplyRebind pf dy (heap s rebind) header (machine s),
       applied := applied s @ [(rebind, header)]\<rparr>"

text \<open>The traversal ends only if the list does: not ending is the value \<open>None\<close>.\<close>

partial_function (option) handle_loop ::
  "'w platform \<Rightarrow> 'w dyld \<Rightarrow> u64 \<Rightarrow> u64 \<Rightarrow> 'w system \<Rightarrow> 'w system option" where
  "handle_loop pf dy header rebind s =
     (if rebind \<noteq> 0 then
        (case heap s rebind of
           None \<Rightarrow> None
         | Some r \<Rightarrow> handle_loop pf dy header (gr_next r) (apply_entry pf dy rebind header s))
      else Some s)"

definition RorkHookHandleImageAdded ::
  "'w platform \<Rightarrow> 'w dyld \<Rightarrow> u64 \<Rightarrow> 'w system \<Rightarrow> 'w system option" where
  "RorkHookHandleImageAdded pf dy header s = handle_loop pf dy header (gRebinds s) s"

text \<open>The checks before the allocation: the image that defines the replacement, if all is well.\<close>

definition rebind_source :: "'w platform \<Rightarrow> 'w dyld \<Rightarrow> u64 \<Rightarrow> u64 \<Rightarrow> 'w machine \<Rightarrow> u64 option" where
  "rebind_source pf dy replacee replacement s =
     (if replacee = 0 \<or> replacement = 0 then None
      else
        let replacementRaw = RorkHookStripPointer pf replacement in
        case dladdr dy (world s) replacementRaw of (result, dli_fbase) \<Rightarrow>
          if result = 0 \<or> dli_fbase = 0 then None else Some dli_fbase)"

fun visit_images :: "'w platform \<Rightarrow> 'w dyld \<Rightarrow> u64 list \<Rightarrow> 'w system \<Rightarrow> 'w system option" where
  "visit_images pf dy [] s = Some s"
| "visit_images pf dy (h # hs) s =
     (case RorkHookHandleImageAdded pf dy h s of None \<Rightarrow> None | Some s' \<Rightarrow> visit_images pf dy hs s')"

definition register_callback_once :: "'w platform \<Rightarrow> 'w dyld \<Rightarrow> 'w system \<Rightarrow> 'w system option" where
  "register_callback_once pf dy s =
     (case gAddImageCallbackOnce s of
        Once_Done \<Rightarrow> Some s
      | Once_Running \<Rightarrow> None
      | Once_Idle \<Rightarrow>
          map_option (\<lambda>s. s\<lparr>gAddImageCallbackOnce := Once_Done\<rparr>)
            (visit_images pf dy (images s)
              (s\<lparr>gAddImageCallbackOnce := Once_Running, registrations := Suc (registrations s)\<rparr>)))"

definition dyld_get_image_header :: "'w system \<Rightarrow> u32 \<Rightarrow> u64" where
  "dyld_get_image_header s index =
     (if unat index < length (images s) then images s ! unat index else 0)"

text \<open>One round of the enumeration.\<close>

definition enumerate_image :: "'w platform \<Rightarrow> 'w dyld \<Rightarrow> u64 \<Rightarrow> u32 \<Rightarrow> 'w system \<Rightarrow> 'w system" where
  "enumerate_image pf dy entry index s =
     (let header = dyld_get_image_header s index in
      if header \<noteq> 0 then apply_entry pf dy entry header s else s)"

function enumerate_loop :: "'w platform \<Rightarrow> 'w dyld \<Rightarrow> u64 \<Rightarrow> u32 \<Rightarrow> u32 \<Rightarrow> 'w system \<Rightarrow> 'w system" where
  "enumerate_loop pf dy entry imageCount index s =
     (if index < imageCount
      then enumerate_loop pf dy entry imageCount (index + 1) (enumerate_image pf dy entry index s)
      else s)"
  by pat_completeness auto
termination
  by (relation "measure (\<lambda>(pf, dy, e, count, index, s). unat count - unat index)")
     (auto intro: word_index_decreases)

declare enumerate_loop.simps [simp del]

definition new_entry :: "u64 \<Rightarrow> u64 \<Rightarrow> u64 \<Rightarrow> 'w RorkHookImageFilter option \<Rightarrow> 'w RorkHookGlobalRebind" where
  "new_entry sourceHeader replacee replacement imageFilter =
     \<lparr>gr_sourceHeader = sourceHeader, gr_replacee = replacee, gr_replacement = replacement,
      gr_filter = imageFilter, gr_next = 0\<rparr>"

definition set_next :: "u64 \<Rightarrow> u64 \<Rightarrow> 'w system \<Rightarrow> 'w system" where
  "set_next entry head s =
     s\<lparr>heap := (heap s)(entry := map_option (\<lambda>r. r\<lparr>gr_next := head\<rparr>) (heap s entry))\<rparr>"

text \<open>Without contention the first compare-exchange succeeds.\<close>

definition RorkHookRebindSymbolGlobally ::
  "'w platform \<Rightarrow> 'w dyld \<Rightarrow> ('w system \<Rightarrow> u64) \<Rightarrow> u64 \<Rightarrow> u64 \<Rightarrow> 'w RorkHookImageFilter option \<Rightarrow>
     'w system \<Rightarrow> (bool \<times> 'w system) option" where
  "RorkHookRebindSymbolGlobally pf dy malloc replacee replacement imageFilter s =
     (case rebind_source pf dy replacee replacement (machine s) of
        None \<Rightarrow> Some (False, s)
      | Some sourceHeader \<Rightarrow>
          let entry = malloc s in
          if entry = 0 then Some (False, s)
          else
            let s1 = s\<lparr>heap := (heap s)(entry \<mapsto> new_entry sourceHeader replacee replacement imageFilter)\<rparr>;
                head = gRebinds s1;
                s2 = (set_next entry head s1)\<lparr>gRebinds := entry\<rparr>
            in
            case register_callback_once pf dy s2 of
              None \<Rightarrow> None
            | Some s3 \<Rightarrow>
                let imageCount = of_nat (length (images s3)) :: u32
                in Some (True, enumerate_loop pf dy entry imageCount 0 s3))"

section \<open>Interleaved operations\<close>

definition goto :: "nat \<Rightarrow> thread \<Rightarrow> 'w system \<Rightarrow> 'w system" where
  "goto t pc s = s\<lparr>threads := (threads s)(t := pc)\<rparr>"

inductive registry_step :: "'w platform \<Rightarrow> 'w dyld \<Rightarrow> 'w system \<Rightarrow> 'w system \<Rightarrow> bool"
  for pf dy where
  call_invalid: "threads s t = Idle \<Longrightarrow> rebind_source pf dy replacee replacement (machine s) = None \<Longrightarrow>
    registry_step pf dy s (goto t (Returned False) s)"
| call_no_memory: "threads s t = Idle \<Longrightarrow> rebind_source pf dy replacee replacement (machine s) = Some base \<Longrightarrow>
    registry_step pf dy s (goto t (Returned False) s)"
| call_allocate: "threads s t = Idle \<Longrightarrow> rebind_source pf dy replacee replacement (machine s) = Some base \<Longrightarrow>
    entry \<noteq> 0 \<Longrightarrow> heap s entry = None \<Longrightarrow>
    registry_step pf dy s (goto t (Publish entry (gRebinds s))
      (s\<lparr>heap := (heap s)(entry \<mapsto> new_entry base replacee replacement imageFilter)\<rparr>))"
| store_next: "threads s t = Publish entry head \<Longrightarrow>
    registry_step pf dy s (goto t (Exchange entry head) (set_next entry head s))"
| exchange: "threads s t = Exchange entry head \<Longrightarrow> gRebinds s = head \<Longrightarrow>
    registry_step pf dy s (goto t (Register entry) (s\<lparr>gRebinds := entry\<rparr>))"
| exchange_failed: "threads s t = Exchange entry head \<Longrightarrow>
    registry_step pf dy s (goto t (Publish entry (gRebinds s)) s)"
| once_first: "threads s t = Register entry \<Longrightarrow> gAddImageCallbackOnce s = Once_Idle \<Longrightarrow>
    registry_step pf dy s (goto t (Visit entry (images s) None)
      (s\<lparr>gAddImageCallbackOnce := Once_Running, registrations := Suc (registrations s)\<rparr>))"
| once_done: "threads s t = Register entry \<Longrightarrow> gAddImageCallbackOnce s = Once_Done \<Longrightarrow>
    registry_step pf dy s (goto t (Count entry) s)"
| visit_load: "threads s t = Visit entry (h # hs) None \<Longrightarrow>
    registry_step pf dy s (goto t (Visit entry (h # hs) (Some (gRebinds s))) s)"
| visit_apply: "threads s t = Visit entry (h # hs) (Some p) \<Longrightarrow> p \<noteq> 0 \<Longrightarrow> heap s p = Some r \<Longrightarrow>
    registry_step pf dy s (goto t (Visit entry (h # hs) (Some (gr_next r))) (apply_entry pf dy p h s))"
| visit_next: "threads s t = Visit entry (h # hs) (Some 0) \<Longrightarrow>
    registry_step pf dy s (goto t (Visit entry hs None) s)"
| visit_end: "threads s t = Visit entry [] None \<Longrightarrow>
    registry_step pf dy s (goto t (Count entry) (s\<lparr>gAddImageCallbackOnce := Once_Done\<rparr>))"
| count_images: "threads s t = Count entry \<Longrightarrow>
    registry_step pf dy s (goto t (Enumerate entry (of_nat (length (images s))) 0) s)"
| enumerate_next: "threads s t = Enumerate entry n i \<Longrightarrow> i < n \<Longrightarrow>
    registry_step pf dy s (goto t (Enumerate entry n (i + 1)) (enumerate_image pf dy entry i s))"
| enumerate_end: "threads s t = Enumerate entry n i \<Longrightarrow> \<not> i < n \<Longrightarrow>
    registry_step pf dy s (goto t (Returned True) s)"
| resume: "threads s t = Returned b \<Longrightarrow> registry_step pf dy s (goto t Idle s)"
| load_image: "threads s t = Idle \<Longrightarrow> h \<noteq> 0 \<Longrightarrow> h \<notin> set (images s) \<Longrightarrow> Suc (length (images s)) < 2 ^ 32 \<Longrightarrow>
    registry_step pf dy s (goto t (if registrations s = 0 then Idle else Notify h None)
      (s\<lparr>images := images s @ [h], machine := m\<rparr>))"
| notify_load: "threads s t = Notify h None \<Longrightarrow>
    registry_step pf dy s (goto t (Notify h (Some (gRebinds s))) s)"
| notify_apply: "threads s t = Notify h (Some p) \<Longrightarrow> p \<noteq> 0 \<Longrightarrow> heap s p = Some r \<Longrightarrow>
    registry_step pf dy s (goto t (Notify h (Some (gr_next r))) (apply_entry pf dy p h s))"
| notify_end: "threads s t = Notify h (Some 0) \<Longrightarrow> registry_step pf dy s (goto t Idle s)"
| other: "registry_step pf dy s (s\<lparr>machine := m\<rparr>)"

text \<open>A process that has not used the registry yet.\<close>

definition initial :: "'w machine \<Rightarrow> u64 list \<Rightarrow> 'w system" where
  "initial m hs =
     \<lparr>machine = m, heap = (\<lambda>_. None), gRebinds = 0, gAddImageCallbackOnce = Once_Idle,
      registrations = 0, images = hs, applied = [], threads = (\<lambda>_. Idle)\<rparr>"

definition image_list :: "u64 list \<Rightarrow> bool" where
  "image_list hs \<longleftrightarrow> distinct hs \<and> 0 \<notin> set hs \<and> length hs < 2 ^ 32"

inductive reachable :: "'w platform \<Rightarrow> 'w dyld \<Rightarrow> 'w system \<Rightarrow> bool" for pf dy where
  start: "image_list hs \<Longrightarrow> reachable pf dy (initial m hs)"
| step: "reachable pf dy s \<Longrightarrow> registry_step pf dy s s' \<Longrightarrow> reachable pf dy s'"

section \<open>The list of registrations\<close>

fun chain :: "'w rebind_heap \<Rightarrow> u64 \<Rightarrow> u64 list \<Rightarrow> bool" where
  "chain hp p [] \<longleftrightarrow> p = 0"
| "chain hp p (e # es) \<longleftrightarrow> p = e \<and> e \<noteq> 0 \<and> (\<exists>r. hp e = Some r \<and> chain hp (gr_next r) es)"

lemma chain_members: "chain hp p es \<Longrightarrow> e \<in> set es \<Longrightarrow> e \<noteq> 0 \<and> hp e \<noteq> None"
  by (induction es arbitrary: p) auto

lemma chain_unique: "chain hp p es \<Longrightarrow> chain hp p es' \<Longrightarrow> es = es'"
proof (induction es arbitrary: p es')
  case Nil
  then show ?case by (cases es') auto
next
  case (Cons e es)
  then show ?case by (cases es') auto
qed

lemma chain_keeps: "chain hp p es \<Longrightarrow> \<forall>e\<in>set es. hp' e = hp e \<Longrightarrow> chain hp' p es"
  by (induction es arbitrary: p) auto

lemma chain_null [simp]: "chain hp 0 es \<longleftrightarrow> es = []"
  by (cases es) auto

lemma chain_non_null: "p \<noteq> 0 \<Longrightarrow> hp p = Some r \<Longrightarrow> chain hp p es \<longleftrightarrow> (\<exists>es'. es = p # es' \<and> chain hp (gr_next r) es')"
  by (cases es) auto

end
