(* ===== verification/Registry_Invariant.thy ===== *)
theory Registry_Invariant
  imports Registry_Model
begin

text \<open>
  The invariant of the interleaved registry: the published list is finite and its entries stay as
  they are (\<open>inv_list\<close>), every thread owns what it is about to publish and knows where it stands
  (\<open>inv_threads\<close>), and every entry has been applied to every image or a thread is on its way to do so
  (\<open>inv_cover\<close>). Every kind of step keeps it; the locale \<open>invariant_system\<close> carries it to the reachable
  states.
\<close>

section \<open>Invariant\<close>

text \<open>A traversal stands at a suffix of the list.\<close>

definition tail_at :: "'w rebind_heap \<Rightarrow> u64 list \<Rightarrow> u64 option \<Rightarrow> bool" where
  "tail_at hp es q \<longleftrightarrow> (case q of None \<Rightarrow> True | Some p \<Rightarrow> \<exists>xs ys. es = xs @ ys \<and> chain hp p ys)"

fun owns :: "thread \<Rightarrow> u64 option" where
  "owns (Publish e h) = Some e"
| "owns (Exchange e h) = Some e"
| "owns _ = None"

fun visiting :: "thread \<Rightarrow> bool" where
  "visiting (Visit e hs q) = True"
| "visiting _ = False"

fun thread_ok :: "'w rebind_heap \<Rightarrow> once \<Rightarrow> u64 list \<Rightarrow> thread \<Rightarrow> bool" where
  "thread_ok hp on es (Publish e h) \<longleftrightarrow> e \<noteq> 0 \<and> hp e \<noteq> None \<and> e \<notin> set es"
| "thread_ok hp on es (Exchange e h) \<longleftrightarrow> e \<noteq> 0 \<and> (\<exists>r. hp e = Some r \<and> gr_next r = h) \<and> e \<notin> set es"
| "thread_ok hp on es (Register e) \<longleftrightarrow> e \<in> set es"
| "thread_ok hp on es (Visit e hs q) \<longleftrightarrow> e \<in> set es \<and> on = Once_Running \<and> tail_at hp es q"
| "thread_ok hp on es (Count e) \<longleftrightarrow> e \<in> set es \<and> on = Once_Done"
| "thread_ok hp on es (Enumerate e n i) \<longleftrightarrow> e \<in> set es \<and> on = Once_Done"
| "thread_ok hp on es (Notify h q) \<longleftrightarrow> tail_at hp es q"
| "thread_ok hp on es _ \<longleftrightarrow> True"

text \<open>The thread will still apply entry \<open>e\<close> to image \<open>h\<close>.\<close>

fun pending :: "'w rebind_heap \<Rightarrow> u64 list \<Rightarrow> u64 \<Rightarrow> u64 \<Rightarrow> thread \<Rightarrow> bool" where
  "pending hp hs e h (Register e') \<longleftrightarrow> e' = e"
| "pending hp hs e h (Visit e' _ _) \<longleftrightarrow> e' = e"
| "pending hp hs e h (Count e') \<longleftrightarrow> e' = e"
| "pending hp hs e h (Enumerate e' n i) \<longleftrightarrow> e' = e \<and> h \<in> set (drop (unat i) (take (unat n) hs))"
| "pending hp hs e h (Notify h' None) \<longleftrightarrow> h' = h"
| "pending hp hs e h (Notify h' (Some p)) \<longleftrightarrow> h' = h \<and> (\<exists>ys. chain hp p ys \<and> e \<in> set ys)"
| "pending hp hs e h _ \<longleftrightarrow> False"

definition covered :: "'w system \<Rightarrow> u64 \<Rightarrow> u64 \<Rightarrow> bool" where
  "covered s e h \<longleftrightarrow> (e, h) \<in> set (applied s) \<or> (\<exists>t. pending (heap s) (images s) e h (threads s t))"

definition inv_list :: "'w system \<Rightarrow> u64 list \<Rightarrow> bool" where
  "inv_list s es \<longleftrightarrow>
     chain (heap s) (gRebinds s) es \<and> image_list (images s) \<and>
     registrations s = (if gAddImageCallbackOnce s = Once_Idle then 0 else 1)"

definition inv_threads :: "'w system \<Rightarrow> u64 list \<Rightarrow> bool" where
  "inv_threads s es \<longleftrightarrow>
     (\<forall>t. thread_ok (heap s) (gAddImageCallbackOnce s) es (threads s t)) \<and>
     (\<forall>t u e. owns (threads s t) = Some e \<and> owns (threads s u) = Some e \<longrightarrow> t = u) \<and>
     (\<forall>t u. visiting (threads s t) \<and> visiting (threads s u) \<longrightarrow> t = u)"

definition inv_cover :: "'w system \<Rightarrow> u64 list \<Rightarrow> bool" where
  "inv_cover s es \<longleftrightarrow>
     (\<forall>e\<in>set es. (gAddImageCallbackOnce s \<noteq> Once_Idle \<or> (\<exists>t. threads s t = Register e)) \<and>
        (\<forall>h\<in>set (images s). covered s e h))"

definition registry_inv :: "'w system \<Rightarrow> u64 list \<Rightarrow> bool" where
  "registry_inv s es \<longleftrightarrow> inv_list s es \<and> inv_threads s es \<and> inv_cover s es"

lemmas registry_inv_defs = registry_inv_def inv_list_def inv_threads_def inv_cover_def

lemma system_updates [simp]:
  "heap (goto t pc s) = heap s" "gRebinds (goto t pc s) = gRebinds s" "machine (goto t pc s) = machine s"
  "gAddImageCallbackOnce (goto t pc s) = gAddImageCallbackOnce s" "registrations (goto t pc s) = registrations s"
  "images (goto t pc s) = images s" "applied (goto t pc s) = applied s"
  "threads (goto t pc s) = (threads s)(t := pc)"
  "heap (apply_entry pf dy e h s) = heap s" "gRebinds (apply_entry pf dy e h s) = gRebinds s"
  "gAddImageCallbackOnce (apply_entry pf dy e h s) = gAddImageCallbackOnce s"
  "registrations (apply_entry pf dy e h s) = registrations s" "images (apply_entry pf dy e h s) = images s"
  "applied (apply_entry pf dy e h s) = applied s @ [(e, h)]" "threads (apply_entry pf dy e h s) = threads s"
  "gRebinds (set_next e nx s) = gRebinds s" "images (set_next e nx s) = images s"
  "gAddImageCallbackOnce (set_next e nx s) = gAddImageCallbackOnce s"
  "registrations (set_next e nx s) = registrations s" "applied (set_next e nx s) = applied s"
  "threads (set_next e nx s) = threads s" "machine (set_next e nx s) = machine s"
  by (simp_all add: goto_def apply_entry_def set_next_def)

lemma heap_set_next: "heap (set_next e nx s) e' =
    (if e' = e then map_option (\<lambda>r. r\<lparr>gr_next := nx\<rparr>) (heap s e) else heap s e')"
  by (simp add: set_next_def)

text \<open>What one thread's move does to the others: the list only grows at its front, published
  entries are never written, images are only appended.\<close>

lemma tail_at_mono:
  assumes "tail_at hp es q" "\<forall>e\<in>set es. hp' e = hp e"
  shows "tail_at hp' (zs @ es) q"
proof (cases q)
  case (Some p)
  then obtain xs ys where "es = xs @ ys" "chain hp p ys" using assms(1) by (auto simp: tail_at_def)
  then show ?thesis
    using assms(2) Some chain_keeps [of hp p ys hp'] by (auto simp: tail_at_def intro: exI [of _ "zs @ xs"])
qed (simp add: tail_at_def)

lemma thread_ok_mono:
  assumes "thread_ok hp on es pc" "\<forall>e\<in>set es. hp' e = hp e" "\<And>e. owns pc = Some e \<Longrightarrow> hp' e = hp e \<and> e \<notin> set zs"
    and "visiting pc \<Longrightarrow> on' = on" "on = Once_Done \<Longrightarrow> on' = on"
  shows "thread_ok hp' on' (zs @ es) pc"
  using assms by (cases pc) (auto simp: tail_at_mono)

lemma pending_mono:
  assumes "pending hp hs e h pc" "thread_ok hp on es pc" "\<forall>e\<in>set es. hp' e = hp e"
  shows "pending hp' (hs @ gs) e h pc"
proof (cases pc)
  case (Enumerate e' n i)
  then have "set (drop (unat i) (take (unat n) hs)) \<subseteq> set (drop (unat i) (take (unat n) (hs @ gs)))"
    by (simp add: drop_append)
  then show ?thesis using assms(1) Enumerate by auto
next
  case (Notify h' q)
  show ?thesis
  proof (cases q)
    case (Some p)
    then obtain ys where ys: "chain hp p ys" "e \<in> set ys" "h' = h" using assms(1) Notify by auto
    moreover have "set ys \<subseteq> set es"
      using assms(2) Notify Some ys(1) chain_unique by (fastforce simp: tail_at_def)
    ultimately show ?thesis using Notify Some assms(3) chain_keeps [of hp p ys hp'] by auto
  qed (use assms(1) Notify in simp)
qed (use assms(1) in auto)

lemma inv_threads_goto:
  assumes inv: "inv_threads s es"
    and s': "threads s' = threads s" "\<forall>e\<in>set es. heap s' e = heap s e"
      "\<And>u e. u \<noteq> t \<Longrightarrow> owns (threads s u) = Some e \<Longrightarrow> heap s' e = heap s e \<and> e \<notin> set zs"
    and once: "\<And>u. u \<noteq> t \<Longrightarrow> visiting (threads s u) \<Longrightarrow> gAddImageCallbackOnce s' = gAddImageCallbackOnce s"
      "gAddImageCallbackOnce s = Once_Done \<Longrightarrow> gAddImageCallbackOnce s' = Once_Done"
    and pc: "thread_ok (heap s') (gAddImageCallbackOnce s') (zs @ es) pc"
      "\<And>u e. u \<noteq> t \<Longrightarrow> owns pc = Some e \<Longrightarrow> owns (threads s u) \<noteq> Some e"
      "\<And>u. u \<noteq> t \<Longrightarrow> visiting pc \<Longrightarrow> \<not> visiting (threads s u)"
  shows "inv_threads (goto t pc s') (zs @ es)"
  unfolding inv_threads_def
proof (intro conjI allI impI)
  fix u show "thread_ok (heap (goto t pc s')) (gAddImageCallbackOnce (goto t pc s')) (zs @ es) (threads (goto t pc s') u)"
  proof (cases "u = t")
    case False
    have "thread_ok (heap s) (gAddImageCallbackOnce s) es (threads s u)" using inv by (simp add: inv_threads_def)
    then show ?thesis using False s' once by (simp add: thread_ok_mono)
  qed (use pc(1) s'(1) in simp)
next
  fix u v e assume "owns (threads (goto t pc s') u) = Some e \<and> owns (threads (goto t pc s') v) = Some e"
  moreover have "owns (threads s u) = Some e \<Longrightarrow> owns (threads s v) = Some e \<Longrightarrow> u = v"
    using inv by (simp add: inv_threads_def)
  ultimately show "u = v" using pc(2) s'(1) by (cases "u = t"; cases "v = t") auto
next
  fix u v assume "visiting (threads (goto t pc s') u) \<and> visiting (threads (goto t pc s') v)"
  moreover have "visiting (threads s u) \<Longrightarrow> visiting (threads s v) \<Longrightarrow> u = v"
    using inv by (simp add: inv_threads_def)
  ultimately show "u = v" using pc(3) s'(1) by (cases "u = t"; cases "v = t") auto
qed

text \<open>The general form of a step: thread \<open>t\<close> moves to \<open>pc\<close>, putting \<open>zs\<close> in front of the list and
  \<open>gs\<close> behind the images.\<close>

lemma registry_inv_goto:
  assumes inv: "registry_inv s es"
    and s': "threads s' = threads s" "images s' = images s @ gs" "set (applied s) \<subseteq> set (applied s')"
      "chain (heap s') (gRebinds s') (zs @ es)" "image_list (images s')"
      "registrations s' = (if gAddImageCallbackOnce s' = Once_Idle then 0 else 1)"
      "\<forall>e\<in>set es. heap s' e = heap s e"
      "\<And>u e. u \<noteq> t \<Longrightarrow> owns (threads s u) = Some e \<Longrightarrow> heap s' e = heap s e \<and> e \<notin> set zs"
    and once: "\<And>u. u \<noteq> t \<Longrightarrow> visiting (threads s u) \<Longrightarrow> gAddImageCallbackOnce s' = gAddImageCallbackOnce s"
      "gAddImageCallbackOnce s = Once_Done \<Longrightarrow> gAddImageCallbackOnce s' = Once_Done"
      "gAddImageCallbackOnce s \<noteq> Once_Idle \<Longrightarrow> gAddImageCallbackOnce s' \<noteq> Once_Idle"
    and pc: "thread_ok (heap s') (gAddImageCallbackOnce s') (zs @ es) pc"
      "\<And>u e. u \<noteq> t \<Longrightarrow> owns pc = Some e \<Longrightarrow> owns (threads s u) \<noteq> Some e"
      "\<And>u. u \<noteq> t \<Longrightarrow> visiting pc \<Longrightarrow> \<not> visiting (threads s u)"
      "\<And>e. threads s t = Register e \<Longrightarrow> gAddImageCallbackOnce s' \<noteq> Once_Idle"
    and cover: "\<And>e h. e \<in> set es \<Longrightarrow> h \<in> set (images s) \<Longrightarrow> pending (heap s) (images s) e h (threads s t) \<Longrightarrow>
        (e, h) \<in> set (applied s') \<or> pending (heap s') (images s') e h pc"
      "\<And>e. e \<in> set zs \<Longrightarrow> pc = Register e"
      "\<And>h. h \<in> set gs \<Longrightarrow> threads s t = Idle \<and> (pc = Notify h None \<or> gAddImageCallbackOnce s = Once_Idle)"
  shows "registry_inv (goto t pc s') (zs @ es)"
proof -
  have ok: "thread_ok (heap s) (gAddImageCallbackOnce s) es (threads s u)" for u
    using inv by (simp add: registry_inv_defs)
  have threads: "inv_threads (goto t pc s') (zs @ es)"
    by (rule inv_threads_goto [of s]) (use inv s'(1,7,8) once(1,2) pc(1-3) in \<open>auto simp: registry_inv_def\<close>)
  have covered: "covered (goto t pc s') e h" if "e \<in> set es" "h \<in> set (images s)" for e h
  proof (cases "\<exists>u. u \<noteq> t \<and> pending (heap s) (images s) e h (threads s u)")
    case True
    then obtain u where "u \<noteq> t" "pending (heap s') (images s') e h (threads s u)"
      using pending_mono [OF _ ok s'(7)] s'(2) by metis
    then show ?thesis using s'(1) by (auto simp: covered_def intro: exI [of _ u])
  next
    case False
    moreover have "covered s e h" using inv that by (simp add: registry_inv_defs)
    ultimately have "(e, h) \<in> set (applied s) \<or> pending (heap s) (images s) e h (threads s t)"
      by (auto simp: covered_def)
    then show ?thesis using cover(1) [OF that] s'(3) by (auto simp: covered_def)
  qed
  have fresh: "covered (goto t pc s') e h" if "e \<in> set es" "h \<in> set gs" for e h
  proof (cases "pc = Notify h None")
    case False
    then have "gAddImageCallbackOnce s = Once_Idle" "threads s t = Idle" using cover(3) that(2) by auto
    then have "\<exists>u. threads s u = Register e"
      using inv that(1) by (simp add: registry_inv_def inv_cover_def)
    then obtain u where u: "threads s u = Register e" ..
    then have "u \<noteq> t" using \<open>threads s t = Idle\<close> by auto
    then have "pending (heap (goto t pc s')) (images (goto t pc s')) e h (threads (goto t pc s') u)"
      using u s'(1) by simp
    then show ?thesis unfolding covered_def by (intro disjI2 exI)
  qed (auto simp: covered_def intro!: exI [of _ t])
  have new: "covered (goto t pc s') e h" if "e \<in> set zs" for e h
    using cover(2) [OF that] by (auto simp: covered_def intro!: exI [of _ t])
  have "gAddImageCallbackOnce s' \<noteq> Once_Idle \<or> (\<exists>u. (threads (goto t pc s')) u = Register e)"
    if e: "e \<in> set (zs @ es)" for e
  proof (cases "e \<in> set zs")
    case True
    then show ?thesis using cover(2) by auto
  next
    case False
    then have "gAddImageCallbackOnce s \<noteq> Once_Idle \<or> (\<exists>u. threads s u = Register e)"
      using inv e by (simp add: registry_inv_defs)
    then show ?thesis using once(3) pc(4) s'(1) by (metis fun_upd_other system_updates(8))
  qed
  then have "inv_cover (goto t pc s') (zs @ es)"
    using covered fresh new s'(2) by (auto simp: inv_cover_def)
  then show ?thesis
    using threads s' by (simp add: registry_inv_def inv_list_def)
qed

text \<open>Moves that change no shared structure but the log of applications.\<close>

lemma registry_inv_local:
  assumes "registry_inv s es" "threads s' = threads s" "images s' = images s" "heap s' = heap s"
    and "gRebinds s' = gRebinds s" "gAddImageCallbackOnce s' = gAddImageCallbackOnce s"
    and "registrations s' = registrations s" "set (applied s) \<subseteq> set (applied s')"
    and "thread_ok (heap s) (gAddImageCallbackOnce s) es pc"
    and "owns pc \<in> {None, owns (threads s t)}" "visiting pc \<Longrightarrow> visiting (threads s t)"
    and "\<And>e. threads s t = Register e \<Longrightarrow> gAddImageCallbackOnce s \<noteq> Once_Idle"
    and "\<And>e h. e \<in> set es \<Longrightarrow> h \<in> set (images s) \<Longrightarrow> pending (heap s) (images s) e h (threads s t) \<Longrightarrow>
        (e, h) \<in> set (applied s') \<or> pending (heap s) (images s) e h pc"
  shows "registry_inv (goto t pc s') es"
proof -
  have inv: "chain (heap s) (gRebinds s) es" "image_list (images s)"
    "registrations s = (if gAddImageCallbackOnce s = Once_Idle then 0 else 1)"
    using assms(1) by (simp_all add: registry_inv_def inv_list_def)
  have owner: "t = u" if "owns (threads s t) = Some e" "owns (threads s u) = Some e" for t u e
    using assms(1) that unfolding registry_inv_def inv_threads_def by blast
  have visitor: "t = u" if "visiting (threads s t)" "visiting (threads s u)" for t u
    using assms(1) that unfolding registry_inv_def inv_threads_def by blast
  have "registry_inv (goto t pc s') ([] @ es)"
  proof (rule registry_inv_goto [where gs = "[]", OF assms(1)])
    fix u e assume "u \<noteq> t" "owns pc = Some e"
    then show "owns (threads s u) \<noteq> Some e" using assms(10) owner [of t e u] by auto
  next
    fix u assume "u \<noteq> t" "visiting pc"
    then show "\<not> visiting (threads s u)" using assms(11) visitor [of t u] by auto
  qed (use assms(2-9,12,13) inv in auto)
  then show ?thesis by simp
qed

lemma drop_take_next:
  assumes "i < n" "h \<in> set (drop (unat i) (take (unat n) hs))"
  shows "unat i < length hs" "h = hs ! unat i \<or> h \<in> set (drop (unat (i + 1)) (take (unat n) hs))"
proof -
  have lt: "unat i < unat n" using assms(1) by (simp add: word_less_nat_alt)
  show len: "unat i < length hs" using assms(2) by (auto dest: length_pos_if_in_set)
  with lt have "drop (unat i) (take (unat n) hs) = hs ! unat i # drop (Suc (unat i)) (take (unat n) hs)"
    by (subst Cons_nth_drop_Suc [symmetric]) simp_all
  then show "h = hs ! unat i \<or> h \<in> set (drop (unat (i + 1)) (take (unat n) hs))"
    using assms(2) unat_inc [OF assms(1)] by simp
qed

lemma registry_inv_machine: "registry_inv (s\<lparr>machine := m\<rparr>) es = registry_inv s es"
  by (simp add: registry_inv_defs covered_def)

lemma registry_inv_parts:
  assumes "registry_inv s es"
  shows "chain (heap s) (gRebinds s) es" "image_list (images s)"
    "registrations s = (if gAddImageCallbackOnce s = Once_Idle then 0 else 1)"
    "thread_ok (heap s) (gAddImageCallbackOnce s) es (threads s t)"
    "owns (threads s t) = Some e \<Longrightarrow> owns (threads s u) = Some e \<Longrightarrow> t = u"
    "visiting (threads s t) \<Longrightarrow> visiting (threads s u) \<Longrightarrow> t = u"
  using assms by (simp_all add: registry_inv_def inv_list_def inv_threads_def)

lemma tail_at_head: "chain hp p es \<Longrightarrow> tail_at hp es (Some p)"
  by (auto simp: tail_at_def intro: exI [of _ "[]"])

lemma tail_at_next:
  assumes "tail_at hp es (Some p)" "p \<noteq> 0" "hp p = Some r"
  shows "tail_at hp es (Some (gr_next r))"
proof -
  obtain xs ys where "es = xs @ p # ys" "chain hp (gr_next r) ys"
    using assms chain_non_null [of p hp r] by (auto simp: tail_at_def)
  then show ?thesis by (auto simp: tail_at_def intro: exI [of _ "xs @ [p]"])
qed

lemma pending_notify_next:
  assumes "pending hp hs e h (Notify h' (Some p))" "p \<noteq> 0" "hp p = Some r"
  shows "(e, h) = (p, h') \<or> pending hp hs e h (Notify h' (Some (gr_next r)))"
  using assms chain_non_null [of p hp r] by auto

lemma allocate_inv:
  assumes inv: "registry_inv s es" and t: "threads s t = Idle" and e: "entry \<noteq> 0" "heap s entry = None"
  shows "registry_inv (goto t (Publish entry hd0) (s\<lparr>heap := (heap s)(entry \<mapsto> r)\<rparr>)) es"
proof -
  note parts = registry_inv_parts [OF inv]
  have fresh: "entry \<notin> set es" using chain_members [OF parts(1), of entry] e(2) by auto
  have other: "owns (threads s u) \<noteq> Some entry" for u
    using parts(4) [of u] e by (cases "threads s u") auto
  have "registry_inv (goto t (Publish entry hd0) (s\<lparr>heap := (heap s)(entry \<mapsto> r)\<rparr>)) ([] @ es)"
  proof (rule registry_inv_goto [where gs = "[]", OF inv])
    show "chain (heap (s\<lparr>heap := (heap s)(entry \<mapsto> r)\<rparr>)) (gRebinds (s\<lparr>heap := (heap s)(entry \<mapsto> r)\<rparr>)) ([] @ es)"
      using parts(1) fresh by (auto intro: chain_keeps)
  qed (use parts(2,3) fresh other e t in auto)
  then show ?thesis by simp
qed

lemma set_next_inv:
  assumes inv: "registry_inv s es" and t: "threads s t = Publish entry nx"
  shows "registry_inv (goto t (Exchange entry nx) (set_next entry nx s)) es"
proof -
  note parts = registry_inv_parts [OF inv]
  have e: "entry \<noteq> 0" "heap s entry \<noteq> None" "entry \<notin> set es" using parts(4) [of t] t by simp_all
  have other: "owns (threads s u) \<noteq> Some entry" if "u \<noteq> t" for u
    using parts(5) [of t entry u] t that by auto
  have "registry_inv (goto t (Exchange entry nx) (set_next entry nx s)) ([] @ es)"
  proof (rule registry_inv_goto [where gs = "[]", OF inv])
    show "chain (heap (set_next entry nx s)) (gRebinds (set_next entry nx s)) ([] @ es)"
      using parts(1) e(3) by (auto simp: heap_set_next intro: chain_keeps)
    show "heap (set_next entry nx s) e = heap s e \<and> e \<notin> set []"
      if "u \<noteq> t" "owns (threads s u) = Some e" for u e
      using other [OF that(1)] that(2) by (auto simp: heap_set_next)
  qed (use parts(2,3) e other t in \<open>auto simp: heap_set_next\<close>)
  then show ?thesis by simp
qed

lemma exchange_inv:
  assumes inv: "registry_inv s es" and t: "threads s t = Exchange entry (gRebinds s)"
  shows "registry_inv (goto t (Register entry) (s\<lparr>gRebinds := entry\<rparr>)) ([entry] @ es)"
proof -
  note parts = registry_inv_parts [OF inv]
  have e: "entry \<noteq> 0" "\<exists>r. heap s entry = Some r \<and> gr_next r = gRebinds s" "entry \<notin> set es"
    using parts(4) [of t] t by simp_all
  have other: "owns (threads s u) \<noteq> Some entry" if "u \<noteq> t" for u
    using parts(5) [of t entry u] t that by auto
  show ?thesis
    by (rule registry_inv_goto [where gs = "[]", OF inv]) (use parts(1-3) e other t in auto)
qed

lemma once_first_inv:
  assumes inv: "registry_inv s es" and t: "threads s t = Register entry" "gAddImageCallbackOnce s = Once_Idle"
  shows "registry_inv (goto t (Visit entry hs None)
    (s\<lparr>gAddImageCallbackOnce := Once_Running, registrations := Suc (registrations s)\<rparr>)) es"
proof -
  note parts = registry_inv_parts [OF inv]
  have e: "entry \<in> set es" using parts(4) [of t] t(1) by simp
  have other: "\<not> visiting (threads s u)" for u
    using parts(4) [of u] t(2) by (cases "threads s u") auto
  have "registry_inv (goto t (Visit entry hs None)
      (s\<lparr>gAddImageCallbackOnce := Once_Running, registrations := Suc (registrations s)\<rparr>)) ([] @ es)"
    by (rule registry_inv_goto [where gs = "[]", OF inv])
       (use parts(1-3) e other t in \<open>auto simp: tail_at_def\<close>)
  then show ?thesis by simp
qed

lemma visit_end_inv:
  assumes inv: "registry_inv s es" and t: "threads s t = Visit entry [] None"
  shows "registry_inv (goto t (Count entry) (s\<lparr>gAddImageCallbackOnce := Once_Done\<rparr>)) es"
proof -
  note parts = registry_inv_parts [OF inv]
  have e: "entry \<in> set es" "gAddImageCallbackOnce s = Once_Running" using parts(4) [of t] t by simp_all
  have other: "\<not> visiting (threads s u)" if "u \<noteq> t" for u
    using parts(6) [of t u] t that by auto
  have "registry_inv (goto t (Count entry) (s\<lparr>gAddImageCallbackOnce := Once_Done\<rparr>)) ([] @ es)"
    by (rule registry_inv_goto [where gs = "[]", OF inv]) (use parts(1-3) e other t in auto)
  then show ?thesis by simp
qed

lemma load_image_inv:
  assumes inv: "registry_inv s es" and t: "threads s t = Idle"
    and h: "h \<noteq> 0" "h \<notin> set (images s)" "Suc (length (images s)) < 2 ^ 32"
  shows "registry_inv (goto t (if registrations s = 0 then Idle else Notify h None)
    (s\<lparr>images := images s @ [h], machine := m\<rparr>)) es"
proof -
  note parts = registry_inv_parts [OF inv]
  have "registry_inv (goto t (if registrations s = 0 then Idle else Notify h None)
      (s\<lparr>images := images s @ [h], machine := m\<rparr>)) ([] @ es)"
    by (rule registry_inv_goto [where gs = "[h]", OF inv])
       (use parts(1-3) t h in \<open>auto simp: image_list_def tail_at_def split: if_splits\<close>)
  then show ?thesis by simp
qed

lemma enumerate_image_fields [simp]:
  "heap (enumerate_image pf dy e i s) = heap s" "gRebinds (enumerate_image pf dy e i s) = gRebinds s"
  "gAddImageCallbackOnce (enumerate_image pf dy e i s) = gAddImageCallbackOnce s"
  "registrations (enumerate_image pf dy e i s) = registrations s" "images (enumerate_image pf dy e i s) = images s"
  "threads (enumerate_image pf dy e i s) = threads s"
  by (simp_all add: enumerate_image_def Let_def)

lemma enumerate_image_applied:
  "set (applied s) \<subseteq> set (applied (enumerate_image pf dy e i s))"
  "image_list (images s) \<Longrightarrow> unat i < length (images s) \<Longrightarrow>
     (e, images s ! unat i) \<in> set (applied (enumerate_image pf dy e i s))"
  by (auto simp: enumerate_image_def dyld_get_image_header_def Let_def image_list_def in_set_conv_nth)

lemma enumerate_inv:
  assumes inv: "registry_inv s es" and t: "threads s t = Enumerate entry n i" "i < n"
  shows "registry_inv (goto t (Enumerate entry n (i + 1)) (enumerate_image pf dy entry i s)) es"
proof (rule registry_inv_local [OF inv])
  fix e h assume "pending (heap s) (images s) e h (threads s t)"
  then have p: "e = entry" "h \<in> set (drop (unat i) (take (unat n) (images s)))" using t(1) by simp_all
  then show "(e, h) \<in> set (applied (enumerate_image pf dy entry i s)) \<or>
      pending (heap s) (images s) e h (Enumerate entry n (i + 1))"
    using drop_take_next [OF t(2) p(2)] enumerate_image_applied(2) [of s i entry] registry_inv_parts(2) [OF inv]
    by auto
qed (use registry_inv_parts(4) [OF inv, of t] t in \<open>auto intro: enumerate_image_applied(1) [THEN subsetD]\<close>)

lemma count_inv:
  assumes inv: "registry_inv s es" and t: "threads s t = Count entry"
  shows "registry_inv (goto t (Enumerate entry (of_nat (length (images s))) 0) s) es"
proof (rule registry_inv_local [OF inv])
  have "unat (of_nat (length (images s)) :: u32) = length (images s)"
    using registry_inv_parts(2) [OF inv] by (simp add: image_list_def unat_of_nat)
  then show "(e, h) \<in> set (applied s) \<or> pending (heap s) (images s) e h (Enumerate entry (of_nat (length (images s))) 0)"
    if "h \<in> set (images s)" "pending (heap s) (images s) e h (threads s t)" for e h
    using that t by simp
qed (use registry_inv_parts(4) [OF inv, of t] t in auto)

lemma enumerate_end_inv:
  assumes inv: "registry_inv s es" and t: "threads s t = Enumerate entry n i" "\<not> i < n"
  shows "registry_inv (goto t (Returned True) s) es"
  by (rule registry_inv_local [OF inv]) (use t in \<open>auto simp: word_less_nat_alt\<close>)

lemma traversal_inv:
  assumes inv: "registry_inv s es" and p: "p \<noteq> 0" "heap s p = Some r"
  shows "threads s t = Visit entry hs (Some p) \<Longrightarrow>
      registry_inv (goto t (Visit entry hs (Some (gr_next r))) (apply_entry pf dy p h s)) es"
    and "threads s t = Notify h (Some p) \<Longrightarrow>
      registry_inv (goto t (Notify h (Some (gr_next r))) (apply_entry pf dy p h s)) es"
proof -
  assume t: "threads s t = Visit entry hs (Some p)"
  show "registry_inv (goto t (Visit entry hs (Some (gr_next r))) (apply_entry pf dy p h s)) es"
    by (rule registry_inv_local [OF inv])
       (use registry_inv_parts(4) [OF inv, of t] t tail_at_next [of "heap s" es p r] p in auto)
next
  assume t: "threads s t = Notify h (Some p)"
  show "registry_inv (goto t (Notify h (Some (gr_next r))) (apply_entry pf dy p h s)) es"
  proof (rule registry_inv_local [OF inv])
    fix e h' assume "pending (heap s) (images s) e h' (threads s t)"
    then show "(e, h') \<in> set (applied (apply_entry pf dy p h s)) \<or>
        pending (heap s) (images s) e h' (Notify h (Some (gr_next r)))"
      using pending_notify_next [of "heap s" "images s" e h' h p r] p t by auto
  qed (use registry_inv_parts(4) [OF inv, of t] t tail_at_next [of "heap s" es p r] p in auto)
qed

lemma load_head_inv:
  assumes inv: "registry_inv s es"
  shows "threads s t = Visit entry hs None \<Longrightarrow>
      registry_inv (goto t (Visit entry hs (Some (gRebinds s))) s) es"
    and "threads s t = Notify h None \<Longrightarrow> registry_inv (goto t (Notify h (Some (gRebinds s))) s) es"
proof -
  note tail = tail_at_head [OF registry_inv_parts(1) [OF inv]]
  assume t: "threads s t = Visit entry hs None"
  show "registry_inv (goto t (Visit entry hs (Some (gRebinds s))) s) es"
    by (rule registry_inv_local [OF inv]) (use registry_inv_parts(4) [OF inv, of t] t tail in auto)
next
  note tail = tail_at_head [OF registry_inv_parts(1) [OF inv]]
  assume t: "threads s t = Notify h None"
  show "registry_inv (goto t (Notify h (Some (gRebinds s))) s) es"
    by (rule registry_inv_local [OF inv]) (use registry_inv_parts(1) [OF inv] t tail in auto)
qed

text \<open>The remaining moves only change where the thread stands.\<close>

lemma move_inv:
  assumes inv: "registry_inv s es"
  shows "threads s t = Idle \<Longrightarrow> registry_inv (goto t (Returned False) s) es"
    "threads s t = Returned b \<Longrightarrow> registry_inv (goto t Idle s) es"
    "threads s t = Register e \<Longrightarrow> gAddImageCallbackOnce s = Once_Done \<Longrightarrow> registry_inv (goto t (Count e) s) es"
    "threads s t = Exchange e nx \<Longrightarrow> registry_inv (goto t (Publish e nx') s) es"
    "threads s t = Visit e (h # hs) (Some 0) \<Longrightarrow> registry_inv (goto t (Visit e hs None) s) es"
    "threads s t = Notify h (Some 0) \<Longrightarrow> registry_inv (goto t Idle s) es"
  by (rule registry_inv_local [OF inv]; use registry_inv_parts(4) [OF inv, of t] in \<open>auto simp: tail_at_def\<close>)+

lemmas step_invs = move_inv allocate_inv set_next_inv once_first_inv visit_end_inv load_image_inv
  enumerate_inv count_inv enumerate_end_inv traversal_inv load_head_inv

lemma registry_inv_step:
  assumes "registry_step pf dy s s'" "registry_inv s es"
  shows "\<exists>zs. registry_inv s' (zs @ es)"
proof -
  have same: "registry_inv s' es \<Longrightarrow> ?thesis" by (rule exI [of _ "[]"]) simp
  from assms(1) show ?thesis
  proof cases
    case (exchange t entry head)
    then show ?thesis using exchange_inv [OF assms(2), of t entry] by (intro exI [of _ "[entry]"]) simp
  qed (rule same, simp add: registry_inv_machine assms(2) step_invs [OF assms(2)])+
qed

lemma initial_inv: "image_list hs \<Longrightarrow> registry_inv (initial m hs) []"
  by (simp add: registry_inv_defs initial_def)

text \<open>Invariants of any transition system, and the registry as one.\<close>

locale invariant_system =
  fixes start :: "'s \<Rightarrow> bool"
    and step :: "'s \<Rightarrow> 's \<Rightarrow> bool"
    and inv :: "'s \<Rightarrow> bool"
  assumes start_inv: "start s \<Longrightarrow> inv s"
    and step_inv: "step s s' \<Longrightarrow> inv s \<Longrightarrow> inv s'"
begin

lemma run_inv: "step\<^sup>*\<^sup>* s s' \<Longrightarrow> inv s \<Longrightarrow> inv s'"
  by (induction rule: rtranclp_induct) (auto intro: step_inv)

lemma started_inv: "start s \<Longrightarrow> step\<^sup>*\<^sup>* s s' \<Longrightarrow> inv s'"
  by (blast intro: start_inv run_inv)

end

interpretation registry: invariant_system
  "\<lambda>s. \<exists>m hs. image_list hs \<and> s = initial m hs" "registry_step pf dy" "\<lambda>s. \<exists>es. registry_inv s es" for pf dy
  by unfold_locales (auto intro: initial_inv dest: registry_inv_step)

lemma reachable_started:
  "reachable pf dy s \<Longrightarrow> \<exists>m hs. image_list hs \<and> (registry_step pf dy)\<^sup>*\<^sup>* (initial m hs) s"
  by (induction rule: reachable.induct) (auto intro: rtranclp.rtrancl_into_rtrancl)

lemma reachable_inv: "reachable pf dy s \<Longrightarrow> \<exists>es. registry_inv s es"
  using reachable_started registry.started_inv by metis

end
