(* ===== verification/Registry_Run.thy ===== *)
theory Registry_Run
  imports Registry_Invariant
begin

text \<open>
  Runs of the registry in which one thread moves: the functions of \<open>Registry_Model\<close> as sequences of steps
  (a traversal, the once-only block, the enumeration, a whole registration), and from any reachable
  state a run that brings every thread to rest.
\<close>

section \<open>What an entry does to an image\<close>

text \<open>
  The specification of one application: the null image, the image that defines the replacement and an
  image the filter rejects are passed over, any other image is rebound.
\<close>

definition hook_image ::
  "'w platform \<Rightarrow> 'w dyld \<Rightarrow> u64 \<Rightarrow> u64 \<Rightarrow> u64 \<Rightarrow> 'w RorkHookImageFilter option \<Rightarrow> u64 \<Rightarrow> 'w machine \<Rightarrow> 'w machine" where
  "hook_image pf dy source replacee replacement imageFilter h m =
     (if h = 0 \<or> h = source \<or> (\<exists>f. imageFilter = Some f \<and> \<not> f m h) then m
      else RorkHookRebindSymbolInImage pf dy h replacee replacement m)"

text \<open>The same for the entry at an address of the heap.\<close>

definition hook_entry ::
  "'w platform \<Rightarrow> 'w dyld \<Rightarrow> 'w rebind_heap \<Rightarrow> u64 \<Rightarrow> u64 \<Rightarrow> 'w machine \<Rightarrow> 'w machine" where
  "hook_entry pf dy hp h e m =
     (case hp e of None \<Rightarrow> m
      | Some r \<Rightarrow> hook_image pf dy (gr_sourceHeader r) (gr_replacee r) (gr_replacement r) (gr_filter r) h m)"

lemma ApplyRebind_hook: "RorkHookApplyRebind pf dy (hp e) h m = hook_entry pf dy hp h e m"
  by (auto simp: RorkHookApplyRebind_def hook_entry_def hook_image_def split: option.split)

section \<open>One thread alone\<close>

definition apply_all :: "'w platform \<Rightarrow> 'w dyld \<Rightarrow> u64 list \<Rightarrow> u64 \<Rightarrow> 'w system \<Rightarrow> 'w system" where
  "apply_all pf dy es h s = fold (\<lambda>e. apply_entry pf dy e h) es s"

lemma apply_all_fields [simp]:
  "heap (apply_all pf dy es h s) = heap s" "gRebinds (apply_all pf dy es h s) = gRebinds s"
  "gAddImageCallbackOnce (apply_all pf dy es h s) = gAddImageCallbackOnce s"
  "registrations (apply_all pf dy es h s) = registrations s" "images (apply_all pf dy es h s) = images s"
  "threads (apply_all pf dy es h s) = threads s"
  "applied (apply_all pf dy es h s) = applied s @ map (\<lambda>e. (e, h)) es"
  by (induction es arbitrary: s) (simp_all add: apply_all_def)

lemma handle_loop_chain:
  "chain (heap s) p es \<Longrightarrow> handle_loop pf dy h p s = Some (apply_all pf dy es h s)"
proof (induction es arbitrary: p s)
  case Nil
  then show ?case by (simp add: handle_loop.simps apply_all_def)
next
  case (Cons e es)
  then obtain r where "heap s e = Some r" "chain (heap s) (gr_next r) es" "p = e" "e \<noteq> 0" by auto
  then show ?case
    using Cons.IH [of "apply_entry pf dy e h s" "gr_next r"] by (simp add: handle_loop.simps apply_all_def)
qed

lemma visit_images_chain:
  assumes "chain (heap s) (gRebinds s) es"
  shows "visit_images pf dy hs s = Some (fold (apply_all pf dy es) hs s)"
  using assms
  by (induction hs arbitrary: s) (simp_all add: RorkHookHandleImageAdded_def handle_loop_chain)

lemma fold_apply_all_fields [simp]:
  "heap (fold (apply_all pf dy es) hs s) = heap s" "gRebinds (fold (apply_all pf dy es) hs s) = gRebinds s"
  "gAddImageCallbackOnce (fold (apply_all pf dy es) hs s) = gAddImageCallbackOnce s"
  "registrations (fold (apply_all pf dy es) hs s) = registrations s"
  "images (fold (apply_all pf dy es) hs s) = images s" "threads (fold (apply_all pf dy es) hs s) = threads s"
  by (induction hs arbitrary: s) simp_all

lemma apply_all_machine:
  "machine (apply_all pf dy es h s) = fold (hook_entry pf dy (heap s) h) es (machine s)"
proof (induction es arbitrary: s)
  case (Cons e es)
  have "machine (apply_entry pf dy e h s) = hook_entry pf dy (heap s) h e (machine s)"
    by (simp add: apply_entry_def ApplyRebind_hook)
  then show ?case using Cons [of "apply_entry pf dy e h s"] by (simp add: apply_all_def)
qed (simp add: apply_all_def)

lemma visit_machine:
  "machine (fold (apply_all pf dy es) hs s) = fold (\<lambda>h. fold (hook_entry pf dy (heap s) h) es) hs (machine s)"
  by (induction hs arbitrary: s) (simp_all add: apply_all_machine)

lemma visit_log:
  "applied (fold (apply_all pf dy es) hs s) = applied s @ concat (map (\<lambda>h. map (\<lambda>e. (e, h)) es) hs)"
  by (induction hs arbitrary: s) simp_all

lemma enumerate_image_effect:
  assumes "image_list (images s)"
  shows "applied (enumerate_image pf dy e i s) =
      (if unat i < length (images s) then applied s @ [(e, images s ! unat i)] else applied s)"
    and "machine (enumerate_image pf dy e i s) =
      (if unat i < length (images s) then hook_entry pf dy (heap s) (images s ! unat i) e (machine s) else machine s)"
proof -
  have "images s ! unat i \<noteq> 0" if "unat i < length (images s)"
    using assms nth_mem [OF that] unfolding image_list_def by metis
  then show "applied (enumerate_image pf dy e i s) =
      (if unat i < length (images s) then applied s @ [(e, images s ! unat i)] else applied s)"
    "machine (enumerate_image pf dy e i s) =
      (if unat i < length (images s) then hook_entry pf dy (heap s) (images s ! unat i) e (machine s) else machine s)"
    by (simp_all add: enumerate_image_def dyld_get_image_header_def apply_entry_def ApplyRebind_hook Let_def)
qed

text \<open>The enumeration from an index on, exactly: the log and the machine.\<close>

lemma enumerate_loop_effect:
  assumes "image_list (images s)"
  shows "applied (enumerate_loop pf dy e n i s) =
      applied s @ map (\<lambda>h. (e, h)) (drop (unat i) (take (unat n) (images s))) \<and>
    machine (enumerate_loop pf dy e n i s) =
      fold (\<lambda>h. hook_entry pf dy (heap s) h e) (drop (unat i) (take (unat n) (images s))) (machine s)"
  using assms
proof (induction "unat n - unat i" arbitrary: i s)
  case 0
  then show ?case by (subst (1 2) enumerate_loop.simps) (simp add: word_less_nat_alt)
next
  case (Suc k)
  then have lt: "i < n" "unat i < unat n" by (simp_all add: word_less_nat_alt)
  let ?s = "enumerate_image pf dy e i s"
  have k: "k = unat n - unat (i + 1)" using lt(1) Suc(2) by (simp add: unat_inc)
  have same: "images ?s = images s" "heap ?s = heap s" by simp_all
  have eq: "enumerate_loop pf dy e n i s = enumerate_loop pf dy e n (i + 1) ?s"
    using lt(1) by (subst enumerate_loop.simps) simp
  note IH = Suc(1) [OF k, of ?s, unfolded same, OF Suc.prems] and one = enumerate_image_effect [OF Suc.prems, of pf dy e i]
  show ?case
  proof (cases "unat i < length (images s)")
    case True
    then have "drop (unat i) (take (unat n) (images s)) = images s ! unat i # drop (unat (i + 1)) (take (unat n) (images s))"
      using lt by (simp add: unat_inc Cons_nth_drop_Suc [symmetric])
    then show ?thesis using IH one True by (simp add: eq)
  next
    case False
    then have "drop (unat i) (take (unat n) (images s)) = []" "drop (unat (i + 1)) (take (unat n) (images s)) = []"
      using lt by (simp_all add: unat_inc)
    then show ?thesis using IH one False by (simp add: eq)
  qed
qed

lemma goto_goto [simp]: "goto t pc (goto t pc' s) = goto t pc s"
  by (simp add: goto_def)

lemma apply_entry_goto: "apply_entry pf dy e h (goto t pc s) = goto t pc (apply_entry pf dy e h s)"
  by (simp add: apply_entry_def goto_def)

lemma enumerate_image_goto: "enumerate_image pf dy e i (goto t pc s) = goto t pc (enumerate_image pf dy e i s)"
  by (simp add: enumerate_image_def Let_def apply_entry_goto dyld_get_image_header_def)

lemma enumerate_loop_fields:
  "heap (enumerate_loop pf dy e n i s) = heap s \<and> gRebinds (enumerate_loop pf dy e n i s) = gRebinds s \<and>
   gAddImageCallbackOnce (enumerate_loop pf dy e n i s) = gAddImageCallbackOnce s \<and>
   registrations (enumerate_loop pf dy e n i s) = registrations s \<and>
   images (enumerate_loop pf dy e n i s) = images s \<and> threads (enumerate_loop pf dy e n i s) = threads s"
proof (induction "unat n - unat i" arbitrary: i s)
  case 0
  then show ?case by (subst (1 2 3 4 5 6) enumerate_loop.simps) (simp add: word_less_nat_alt)
next
  case (Suc k)
  then have lt: "i < n" by (simp add: word_less_nat_alt)
  then have "k = unat n - unat (i + 1)" using Suc(2) by (simp add: unat_inc)
  then show ?case
    using Suc(1) [of "i + 1"] lt by (subst (1 2 3 4 5 6) enumerate_loop.simps) simp
qed

lemma enumerate_loop_run:
  "(registry_step pf dy)\<^sup>*\<^sup>* (goto t (Enumerate e n i) s) (goto t (Returned True) (enumerate_loop pf dy e n i s))"
proof (induction "unat n - unat i" arbitrary: i s)
  case 0
  then have "\<not> i < n" by (simp add: word_less_nat_alt)
  then show ?case
    using registry_step.enumerate_end [of "goto t (Enumerate e n i) s" t e n i pf dy]
    by (subst enumerate_loop.simps) (simp add: r_into_rtranclp)
next
  case (Suc k)
  then have lt: "i < n" by (simp add: word_less_nat_alt)
  then have "k = unat n - unat (i + 1)" using Suc(2) by (simp add: unat_inc)
  then have "(registry_step pf dy)\<^sup>*\<^sup>* (goto t (Enumerate e n (i + 1)) (enumerate_image pf dy e i s))
      (goto t (Returned True) (enumerate_loop pf dy e n i s))"
    using Suc(1) lt by (subst enumerate_loop.simps) simp
  moreover have "registry_step pf dy (goto t (Enumerate e n i) s)
      (goto t (Enumerate e n (i + 1)) (enumerate_image pf dy e i s))"
    using registry_step.enumerate_next [of "goto t (Enumerate e n i) s" t e n i pf dy] lt
    by (simp add: enumerate_image_goto)
  ultimately show ?case by (rule converse_rtranclp_into_rtranclp [rotated])
qed

lemma traversal_run:
  assumes "chain (heap s) p es"
  shows "(registry_step pf dy)\<^sup>*\<^sup>* (goto t (Visit e (h # hs) (Some p)) s) (goto t (Visit e hs None) (apply_all pf dy es h s))"
  using assms
proof (induction es arbitrary: p s)
  case Nil
  then show ?case
    using registry_step.visit_next [of "goto t (Visit e (h # hs) (Some p)) s" t e h hs pf dy]
    by (simp add: apply_all_def r_into_rtranclp)
next
  case (Cons x es)
  then obtain r where r: "heap s x = Some r" "chain (heap s) (gr_next r) es" "p = x" "x \<noteq> 0" by auto
  then have "registry_step pf dy (goto t (Visit e (h # hs) (Some p)) s)
      (goto t (Visit e (h # hs) (Some (gr_next r))) (apply_entry pf dy x h s))"
    using registry_step.visit_apply [of "goto t (Visit e (h # hs) (Some p)) s" t e h hs x r pf dy]
    by (simp add: apply_entry_goto)
  moreover have "(registry_step pf dy)\<^sup>*\<^sup>* (goto t (Visit e (h # hs) (Some (gr_next r))) (apply_entry pf dy x h s))
      (goto t (Visit e hs None) (apply_all pf dy (x # es) h s))"
    using Cons.IH [of "apply_entry pf dy x h s" "gr_next r"] r(2) by (simp add: apply_all_def)
  ultimately show ?case by (rule converse_rtranclp_into_rtranclp)
qed

lemma visit_run:
  assumes "chain (heap s) (gRebinds s) es"
  shows "(registry_step pf dy)\<^sup>*\<^sup>* (goto t (Visit e hs None) s) (goto t (Visit e [] None) (fold (apply_all pf dy es) hs s))"
  using assms
proof (induction hs arbitrary: s)
  case (Cons h hs)
  have "registry_step pf dy (goto t (Visit e (h # hs) None) s) (goto t (Visit e (h # hs) (Some (gRebinds s))) s)"
    using registry_step.visit_load [of "goto t (Visit e (h # hs) None) s" t e h hs pf dy] by simp
  also have "(registry_step pf dy)\<^sup>*\<^sup>* (goto t (Visit e (h # hs) (Some (gRebinds s))) s)
      (goto t (Visit e hs None) (apply_all pf dy es h s))"
    by (rule traversal_run [OF Cons.prems])
  also have "(registry_step pf dy)\<^sup>*\<^sup>* (goto t (Visit e hs None) (apply_all pf dy es h s))
      (goto t (Visit e [] None) (fold (apply_all pf dy es) (h # hs) s))"
    using Cons.IH [of "apply_all pf dy es h s"] Cons.prems by simp
  finally show ?case by simp
qed simp

lemma register_run:
  assumes "chain (heap s) (gRebinds s) es" "gAddImageCallbackOnce s \<noteq> Once_Running"
  obtains s' where "register_callback_once pf dy s = Some s'"
    "(registry_step pf dy)\<^sup>*\<^sup>* (goto t (Register e) s) (goto t (Count e) s')"
    "heap s' = heap s" "gRebinds s' = gRebinds s" "images s' = images s" "gAddImageCallbackOnce s' = Once_Done"
    "threads s' = threads s" "registrations s' = (if gAddImageCallbackOnce s = Once_Idle then Suc (registrations s) else registrations s)"
    "machine s' = (if gAddImageCallbackOnce s = Once_Idle
       then fold (\<lambda>h. fold (hook_entry pf dy (heap s) h) es) (images s) (machine s) else machine s)"
    "applied s' = applied s @ (if gAddImageCallbackOnce s = Once_Idle
       then concat (map (\<lambda>h. map (\<lambda>e. (e, h)) es) (images s)) else [])"
proof (cases "gAddImageCallbackOnce s")
  case Once_Idle
  let ?s = "s\<lparr>gAddImageCallbackOnce := Once_Running, registrations := Suc (registrations s)\<rparr>"
  let ?r = "fold (apply_all pf dy es) (images s) ?s"
  let ?s' = "?r\<lparr>gAddImageCallbackOnce := Once_Done\<rparr>"
  have "registry_step pf dy (goto t (Register e) s) (goto t (Visit e (images s) None) ?s)"
    using registry_step.once_first [of "goto t (Register e) s" t e pf dy] Once_Idle by (simp add: goto_def)
  also have "(registry_step pf dy)\<^sup>*\<^sup>* (goto t (Visit e (images s) None) ?s) (goto t (Visit e [] None) ?r)"
    using assms(1) by (intro visit_run) simp
  also have "registry_step pf dy (goto t (Visit e [] None) ?r) (goto t (Count e) ?s')"
    using registry_step.visit_end [of "goto t (Visit e [] None) ?r" t e pf dy] by (simp add: goto_def)
  finally have "(registry_step pf dy)\<^sup>*\<^sup>* (goto t (Register e) s) (goto t (Count e) ?s')" .
  moreover have "register_callback_once pf dy s = Some ?s'"
    using Once_Idle assms(1) visit_images_chain [of ?s es pf dy "images s"]
    by (simp add: register_callback_once_def)
  ultimately show ?thesis using Once_Idle by (intro that [of ?s']) (simp_all add: visit_machine visit_log)
next
  case Once_Done
  then have "registry_step pf dy (goto t (Register e) s) (goto t (Count e) s)"
    using registry_step.once_done [of "goto t (Register e) s" t e pf dy] by simp
  then show ?thesis using Once_Done by (intro that [of s]) (auto simp: register_callback_once_def)
qed (use assms(2) in simp)

lemma publish_run:
  assumes "threads s t = Idle" "rebind_source pf dy replacee replacement (machine s) = Some base"
    and "entry \<noteq> 0" "heap s entry = None"
  shows "(registry_step pf dy)\<^sup>*\<^sup>* s (goto t (Register entry)
    ((set_next entry (gRebinds s) (s\<lparr>heap := (heap s)(entry \<mapsto> new_entry base replacee replacement imageFilter)\<rparr>))
      \<lparr>gRebinds := entry\<rparr>))"
proof -
  let ?a = "s\<lparr>heap := (heap s)(entry \<mapsto> new_entry base replacee replacement imageFilter)\<rparr>"
  let ?b = "set_next entry (gRebinds s) ?a"
  have "(registry_step pf dy)\<^sup>*\<^sup>* s (goto t (Publish entry (gRebinds s)) ?a)"
    by (rule r_into_rtranclp) (rule registry_step.call_allocate [OF assms])
  also have "registry_step pf dy (goto t (Publish entry (gRebinds s)) ?a) (goto t (Exchange entry (gRebinds s)) ?b)"
    using registry_step.store_next [of "goto t (Publish entry (gRebinds s)) ?a" t entry "gRebinds s" pf dy]
    by (simp add: goto_def set_next_def)
  also have "registry_step pf dy (goto t (Exchange entry (gRebinds s)) ?b) (goto t (Register entry) (?b\<lparr>gRebinds := entry\<rparr>))"
    using registry_step.exchange [of "goto t (Exchange entry (gRebinds s)) ?b" t entry "gRebinds s" pf dy]
    by (simp add: goto_def set_next_def)
  finally show ?thesis by simp
qed

lemma RebindSymbolGlobally_success:
  assumes inv: "registry_inv s es" and idle: "threads s t = Idle" "gAddImageCallbackOnce s \<noteq> Once_Running"
    and ok: "rebind_source pf dy replacee replacement (machine s) = Some base" "malloc s \<noteq> 0" "heap s (malloc s) = None"
  obtains s' where "RorkHookRebindSymbolGlobally pf dy malloc replacee replacement imageFilter s = Some (True, s')"
    "(registry_step pf dy)\<^sup>*\<^sup>* s (goto t (Returned True) s')"
    "chain (heap s') (gRebinds s') (malloc s # es)" "images s' = images s" "gAddImageCallbackOnce s' = Once_Done"
    "threads s' = threads s" "registrations s' = 1"
    "heap s' = (heap s)(malloc s \<mapsto> \<lparr>gr_sourceHeader = base, gr_replacee = replacee, gr_replacement = replacement,
       gr_filter = imageFilter, gr_next = gRebinds s\<rparr>)" "gRebinds s' = malloc s"
    "machine s' = fold (hook_image pf dy base replacee replacement imageFilter) (images s)
       (if gAddImageCallbackOnce s = Once_Idle
        then fold (\<lambda>h. fold (hook_entry pf dy (heap s') h) (malloc s # es)) (images s) (machine s) else machine s)"
    "applied s' = applied s @ (if gAddImageCallbackOnce s = Once_Idle
       then concat (map (\<lambda>h. map (\<lambda>e. (e, h)) (malloc s # es)) (images s)) else []) @ map (\<lambda>h. (malloc s, h)) (images s)"
proof -
  let ?e = "malloc s"
  let ?r = "\<lparr>gr_sourceHeader = base, gr_replacee = replacee, gr_replacement = replacement,
       gr_filter = imageFilter, gr_next = gRebinds s\<rparr>"
  let ?a = "s\<lparr>heap := (heap s)(?e \<mapsto> new_entry base replacee replacement imageFilter)\<rparr>"
  let ?b = "(set_next ?e (gRebinds s) ?a)\<lparr>gRebinds := ?e\<rparr>"
  note parts = registry_inv_parts(1-3) [OF inv]
  have hb: "heap ?b = (heap s)(?e \<mapsto> ?r)" by (simp add: set_next_def new_entry_def)
  have "?e \<notin> set es" using chain_members [OF parts(1), of ?e] ok(3) by auto
  then have "chain (heap ?b) (gRebinds s) es" unfolding hb using parts(1) by (auto intro: chain_keeps)
  then have chain: "chain (heap ?b) (gRebinds ?b) (?e # es)" using ok(2) hb by simp
  obtain c where c: "register_callback_once pf dy ?b = Some c"
    "(registry_step pf dy)\<^sup>*\<^sup>* (goto t (Register ?e) ?b) (goto t (Count ?e) c)"
    "heap c = heap ?b" "gRebinds c = gRebinds ?b" "images c = images ?b" "gAddImageCallbackOnce c = Once_Done"
    "threads c = threads ?b"
    "registrations c = (if gAddImageCallbackOnce ?b = Once_Idle then Suc (registrations ?b) else registrations ?b)"
    "machine c = (if gAddImageCallbackOnce ?b = Once_Idle
       then fold (\<lambda>h. fold (hook_entry pf dy (heap ?b) h) (?e # es)) (images ?b) (machine ?b) else machine ?b)"
    "applied c = applied ?b @ (if gAddImageCallbackOnce ?b = Once_Idle
       then concat (map (\<lambda>h. map (\<lambda>e. (e, h)) (?e # es)) (images ?b)) else [])"
    using idle(2) by (rule register_run [OF chain, of pf dy t ?e, simplified, unfolded system_updates]) simp_all
  let ?n = "of_nat (length (images s)) :: u32"
  let ?s' = "enumerate_loop pf dy ?e ?n 0 c"
  have n: "unat ?n = length (images s)" using parts(2) by (simp add: image_list_def unat_of_nat)
  have img: "images c = images s" using c(5) by (simp add: set_next_def)
  have "registry_step pf dy (goto t (Count ?e) c) (goto t (Enumerate ?e ?n 0) c)"
    using registry_step.count_images [of "goto t (Count ?e) c" t ?e pf dy] img by simp
  then have run: "(registry_step pf dy)\<^sup>*\<^sup>* s (goto t (Returned True) ?s')"
    using publish_run [OF idle(1) ok, of imageFilter] c(2) enumerate_loop_run [of pf dy t ?e ?n 0 c]
    by (meson rtranclp_trans r_into_rtranclp)
  have seq: "RorkHookRebindSymbolGlobally pf dy malloc replacee replacement imageFilter s = Some (True, ?s')"
    using ok(1,2) c(1) img by (simp add: RorkHookRebindSymbolGlobally_def Let_def)
  have "registrations ?s' = 1"
    using c(8) enumerate_loop_fields [of pf dy ?e ?n 0 c] parts(3) by (simp add: set_next_def)
  moreover have "applied ?s' = applied c @ map (\<lambda>h. (?e, h)) (images s)"
    using enumerate_loop_effect [of c pf dy ?e ?n 0] img n parts(2) by simp
  moreover have "machine ?s' = fold (hook_image pf dy base replacee replacement imageFilter) (images s) (machine c)"
  proof -
    have "(\<lambda>h. hook_entry pf dy (heap c) h ?e) = hook_image pf dy base replacee replacement imageFilter"
      by (simp add: fun_eq_iff hook_entry_def c(3) hb)
    then show ?thesis using enumerate_loop_effect [of c pf dy ?e ?n 0] parts(2) n img by simp
  qed
  moreover have "heap ?s' = heap ?b" using enumerate_loop_fields [of pf dy ?e ?n 0 c] c(3) by simp
  ultimately show ?thesis
    using seq run c(3,4,6,7,9,10) chain hb img enumerate_loop_fields [of pf dy ?e ?n 0 c]
    by (intro that [of ?s']) simp_all
qed

lemma reachable_run: "(registry_step pf dy)\<^sup>*\<^sup>* s s' \<Longrightarrow> reachable pf dy s \<Longrightarrow> reachable pf dy s'"
  by (induction rule: rtranclp_induct) (auto intro: reachable.step)

section \<open>Bringing every thread to rest\<close>

text \<open>Thread \<open>t\<close> can run to its end by its own steps, while the other threads stand still.\<close>

definition finishes :: "'w platform \<Rightarrow> 'w dyld \<Rightarrow> nat \<Rightarrow> 'w system \<Rightarrow> bool" where
  "finishes pf dy t s \<longleftrightarrow>
     (\<exists>s'. (registry_step pf dy)\<^sup>*\<^sup>* s s' \<and> threads s' = (threads s)(t := Idle) \<and> images s' = images s)"

lemma finishes_run:
  assumes "(registry_step pf dy)\<^sup>*\<^sup>* (goto t pc s) (goto t pc' s')" "finishes pf dy t (goto t pc' s')"
    and "threads s' = threads s" "images s' = images s"
  shows "finishes pf dy t (goto t pc s)"
  using assms rtranclp_trans [OF assms(1)] by (auto simp: finishes_def)

lemmas finishes_step = finishes_run [OF r_into_rtranclp]

lemma finishes_returned: "finishes pf dy t (goto t (Returned b) s)"
proof -
  have "registry_step pf dy (goto t (Returned b) s) (goto t Idle s)"
    using registry_step.resume [of "goto t (Returned b) s" t b pf dy] by simp
  then show ?thesis by (auto simp: finishes_def intro!: exI [of _ "goto t Idle s"])
qed

lemma finishes_enumerate: "finishes pf dy t (goto t (Enumerate e n i) s)"
  by (rule finishes_run [OF enumerate_loop_run finishes_returned]) (simp_all add: enumerate_loop_fields)

lemma finishes_count: "finishes pf dy t (goto t (Count e) s)"
proof (rule finishes_step [OF _ finishes_enumerate])
  show "registry_step pf dy (goto t (Count e) s) (goto t (Enumerate e (of_nat (length (images s))) 0) s)"
    using registry_step.count_images [of "goto t (Count e) s" t e pf dy] by simp
qed simp_all

lemma finishes_visit:
  assumes "chain (heap s) (gRebinds s) es"
  shows "finishes pf dy t (goto t (Visit e hs None) s)"
proof (rule finishes_run [OF visit_run [OF assms]])
  let ?s = "fold (apply_all pf dy es) hs s"
  have "registry_step pf dy (goto t (Visit e [] None) ?s) (goto t (Count e) (?s\<lparr>gAddImageCallbackOnce := Once_Done\<rparr>))"
    using registry_step.visit_end [of "goto t (Visit e [] None) ?s" t e pf dy] by (simp add: goto_def)
  then show "finishes pf dy t (goto t (Visit e [] None) ?s)"
    by (rule finishes_step [OF _ finishes_count]) simp_all
qed simp_all

lemma finishes_traversal:
  assumes "chain (heap s) (gRebinds s) es" "chain (heap s) p ys"
  shows "finishes pf dy t (goto t (Visit e (h # hs) (Some p)) s)"
  using assms by (intro finishes_run [OF traversal_run [OF assms(2)]] finishes_visit) simp_all

lemma finishes_register:
  assumes "chain (heap s) (gRebinds s) es" "gAddImageCallbackOnce s \<noteq> Once_Running"
  shows "finishes pf dy t (goto t (Register e) s)"
proof -
  obtain s' where "(registry_step pf dy)\<^sup>*\<^sup>* (goto t (Register e) s) (goto t (Count e) s')"
    "threads s' = threads s" "images s' = images s"
    by (rule register_run [OF assms, of pf dy t e])
  then show ?thesis by (rule finishes_run [OF _ finishes_count])
qed

lemma finishes_publish:
  assumes "chain (heap s) (gRebinds s) es" "gAddImageCallbackOnce s \<noteq> Once_Running"
    and "e \<noteq> 0" "heap s e \<noteq> None" "e \<notin> set es"
  shows "finishes pf dy t (goto t (Publish e (gRebinds s)) s)"
proof -
  let ?b = "set_next e (gRebinds s) s"
  have one: "registry_step pf dy (goto t (Publish e (gRebinds s)) s) (goto t (Exchange e (gRebinds s)) ?b)"
    using registry_step.store_next [of "goto t (Publish e (gRebinds s)) s" t e "gRebinds s" pf dy]
    by (simp add: goto_def set_next_def)
  have two: "registry_step pf dy (goto t (Exchange e (gRebinds s)) ?b) (goto t (Register e) (?b\<lparr>gRebinds := e\<rparr>))"
    using registry_step.exchange [of "goto t (Exchange e (gRebinds s)) ?b" t e "gRebinds s" pf dy]
    by (simp add: goto_def set_next_def)
  have "chain (heap ?b) (gRebinds s) es"
    using assms(1,5) by (auto simp: heap_set_next intro: chain_keeps)
  then have "chain (heap (?b\<lparr>gRebinds := e\<rparr>)) (gRebinds (?b\<lparr>gRebinds := e\<rparr>)) (e # es)"
    using assms(3,4) by (auto simp: heap_set_next)
  from finishes_register [OF this, of pf dy t e] assms(2)
  show ?thesis by (intro finishes_step [OF one] finishes_step [OF two]) simp_all
qed

lemma finishes_exchange:
  assumes "chain (heap s) (gRebinds s) es" "gAddImageCallbackOnce s \<noteq> Once_Running"
    and "e \<noteq> 0" "heap s e \<noteq> None" "e \<notin> set es"
  shows "finishes pf dy t (goto t (Exchange e h) s)"
proof (rule finishes_step [OF _ finishes_publish [OF assms]])
  show "registry_step pf dy (goto t (Exchange e h) s) (goto t (Publish e (gRebinds s)) s)"
    using registry_step.exchange_failed [of "goto t (Exchange e h) s" t e h pf dy] by simp
qed simp_all

lemma finishes_publish_stale:
  assumes "chain (heap s) (gRebinds s) es" "gAddImageCallbackOnce s \<noteq> Once_Running"
    and "e \<noteq> 0" "heap s e \<noteq> None" "e \<notin> set es"
  shows "finishes pf dy t (goto t (Publish e h) s)"
proof (rule finishes_step)
  show "registry_step pf dy (goto t (Publish e h) s) (goto t (Exchange e h) (set_next e h s))"
    using registry_step.store_next [of "goto t (Publish e h) s" t e h pf dy] by (simp add: goto_def set_next_def)
  show "finishes pf dy t (goto t (Exchange e h) (set_next e h s))"
    using assms by (intro finishes_exchange [where es = es]) (auto simp: heap_set_next intro: chain_keeps)
qed simp_all

lemma notify_run:
  assumes "chain (heap s) p es"
  shows "(registry_step pf dy)\<^sup>*\<^sup>* (goto t (Notify h (Some p)) s) (goto t Idle (apply_all pf dy es h s))"
  using assms
proof (induction es arbitrary: p s)
  case Nil
  then show ?case
    using registry_step.notify_end [of "goto t (Notify h (Some p)) s" t h pf dy]
    by (simp add: apply_all_def r_into_rtranclp)
next
  case (Cons x es)
  then obtain r where r: "heap s x = Some r" "chain (heap s) (gr_next r) es" "p = x" "x \<noteq> 0" by auto
  then have "registry_step pf dy (goto t (Notify h (Some p)) s) (goto t (Notify h (Some (gr_next r))) (apply_entry pf dy x h s))"
    using registry_step.notify_apply [of "goto t (Notify h (Some p)) s" t h x r pf dy] by (simp add: apply_entry_goto)
  moreover have "(registry_step pf dy)\<^sup>*\<^sup>* (goto t (Notify h (Some (gr_next r))) (apply_entry pf dy x h s))
      (goto t Idle (apply_all pf dy (x # es) h s))"
    using Cons.IH [of "apply_entry pf dy x h s" "gr_next r"] r(2) by (simp add: apply_all_def)
  ultimately show ?case by (rule converse_rtranclp_into_rtranclp)
qed

lemma finishes_notify:
  assumes "chain (heap s) p es"
  shows "finishes pf dy t (goto t (Notify h (Some p)) s)"
  using notify_run [OF assms, of pf dy t h]
  by (auto simp: finishes_def intro!: exI [of _ "goto t Idle (apply_all pf dy es h s)"])

lemma finishes_notify_start:
  assumes "chain (heap s) (gRebinds s) es"
  shows "finishes pf dy t (goto t (Notify h None) s)"
proof (rule finishes_step [OF _ finishes_notify [OF assms]])
  show "registry_step pf dy (goto t (Notify h None) s) (goto t (Notify h (Some (gRebinds s))) s)"
    using registry_step.notify_load [of "goto t (Notify h None) s" t h pf dy] by simp
qed simp_all

text \<open>The once-only block is held by a thread that can leave it.\<close>

definition once_held :: "'w system \<Rightarrow> bool" where
  "once_held s \<longleftrightarrow>
     (gAddImageCallbackOnce s = Once_Running \<longrightarrow> (\<exists>t. visiting (threads s t))) \<and>
     (\<forall>t e q. threads s t = Visit e [] q \<longrightarrow> q = None) \<and> finite {t. threads s t \<noteq> Idle}"

lemma once_held_goto:
  assumes "once_held s" "threads s' = threads s"
    and "gAddImageCallbackOnce s' = gAddImageCallbackOnce s \<or> gAddImageCallbackOnce s' = Once_Done \<or> visiting pc"
    and "visiting (threads s t) \<Longrightarrow> visiting pc \<or> gAddImageCallbackOnce s' = Once_Done"
    and "\<And>e q. pc = Visit e [] q \<Longrightarrow> q = None"
  shows "once_held (goto t pc s')"
proof -
  have "{u. threads (goto t pc s') u \<noteq> Idle} \<subseteq> insert t {u. threads s u \<noteq> Idle}"
    using assms(2) by auto
  moreover have "finite (insert t {u. threads s u \<noteq> Idle})" using assms(1) by (simp add: once_held_def)
  ultimately have "finite {u. threads (goto t pc s') u \<noteq> Idle}" by (rule finite_subset)
  moreover have "\<exists>u. visiting (threads (goto t pc s') u)" if run: "gAddImageCallbackOnce s' = Once_Running"
  proof (cases "visiting pc")
    case False
    with run assms(3) obtain u where u: "visiting (threads s u)" using assms(1) by (auto simp: once_held_def)
    with assms(4) False run have "u \<noteq> t" by auto
    with u assms(2) show ?thesis by auto
  qed (auto intro: exI [of _ t])
  moreover have "q = None" if "threads (goto t pc s') u = Visit e [] q" for u e q
    using that assms(1,2,5) by (cases "u = t") (auto simp: once_held_def)
  ultimately show ?thesis unfolding once_held_def by (simp only: system_updates) blast
qed

lemma once_held_step: "registry_step pf dy s s' \<Longrightarrow> once_held s \<Longrightarrow> once_held s'"
proof (induction rule: registry_step.induct)
  case (other s m)
  then show ?case by (simp add: once_held_def)
qed (auto intro!: once_held_goto simp: enumerate_image_def Let_def)

interpretation once_held: invariant_system
  "\<lambda>s. \<exists>m hs. image_list hs \<and> s = initial m hs" "registry_step pf dy" once_held for pf dy
proof
  show "once_held s" if "\<exists>m hs. image_list hs \<and> s = initial m hs" for s :: "'a system"
    using that by (auto simp: once_held_def initial_def)
qed (rule once_held_step)

lemma reachable_once_held: "reachable pf dy s \<Longrightarrow> once_held s"
  using reachable_started once_held.started_inv by metis

lemma thread_finishes:
  assumes inv: "registry_inv s es" and held: "once_held s"
    and free: "visiting (threads s t) \<or> gAddImageCallbackOnce s \<noteq> Once_Running"
  shows "finishes pf dy t s"
proof -
  note parts = registry_inv_parts [OF inv]
  have here: "goto t (threads s t) s = s" by (simp add: goto_def)
  note ok = parts(4) [of t]
  have "finishes pf dy t (goto t (threads s t) s)"
  proof (cases "threads s t")
    case Idle
    then show ?thesis by (auto simp: finishes_def intro!: exI [of _ "goto t Idle s"])
  next
    case (Publish e h)
    then show ?thesis using ok free by (simp add: finishes_publish_stale [OF parts(1)])
  next
    case (Exchange e h)
    then show ?thesis using ok free by (auto intro: finishes_exchange [OF parts(1)])
  next
    case (Register e)
    then show ?thesis using free by (simp add: finishes_register [OF parts(1)])
  next
    case (Visit e hs q)
    show ?thesis
    proof (cases q)
      case None
      then show ?thesis using Visit by (simp add: finishes_visit [OF parts(1)])
    next
      case (Some p)
      then obtain h hs' where "hs = h # hs'" using held Visit by (cases hs) (auto simp: once_held_def)
      then show ?thesis using ok Visit Some by (auto simp: tail_at_def intro: finishes_traversal [OF parts(1)])
    qed
  next
    case (Notify h q)
    then show ?thesis using ok
      by (cases q) (auto simp: tail_at_def finishes_notify_start [OF parts(1)] intro: finishes_notify)
  qed (simp_all add: finishes_count finishes_enumerate finishes_returned)
  then show ?thesis by (simp only: here)
qed

lemma reachable_rest:
  assumes "reachable pf dy s"
  shows "\<exists>s'. (registry_step pf dy)\<^sup>*\<^sup>* s s' \<and> (\<forall>t. threads s' t = Idle) \<and> images s' = images s"
  using assms
proof (induction "card {t. threads s t \<noteq> Idle}" arbitrary: s)
  case 0
  then have "{t. threads s t \<noteq> Idle} = {}" using reachable_once_held [OF 0(2)] by (simp add: once_held_def)
  then show ?case by (intro exI [of _ s]) auto
next
  case (Suc k)
  note held = reachable_once_held [OF Suc(3)]
  obtain es where inv: "registry_inv s es" using reachable_inv [OF Suc(3)] ..
  have "\<exists>t. threads s t \<noteq> Idle \<and> (visiting (threads s t) \<or> gAddImageCallbackOnce s \<noteq> Once_Running)"
  proof (cases "gAddImageCallbackOnce s = Once_Running")
    case True
    then obtain t where "visiting (threads s t)" using held by (auto simp: once_held_def)
    then show ?thesis by (intro exI [of _ t]) auto
  next
    case False
    have "{t. threads s t \<noteq> Idle} \<noteq> {}" using Suc(2) by (metis card.empty nat.distinct(1))
    with False show ?thesis by auto
  qed
  then obtain t where t: "threads s t \<noteq> Idle" "visiting (threads s t) \<or> gAddImageCallbackOnce s \<noteq> Once_Running" by auto
  obtain s' where s': "(registry_step pf dy)\<^sup>*\<^sup>* s s'" "threads s' = (threads s)(t := Idle)" "images s' = images s"
    using thread_finishes [OF inv held t(2)] unfolding finishes_def by blast
  have "{u. threads s' u \<noteq> Idle} = {u. threads s u \<noteq> Idle} - {t}" using s'(2) by auto
  then have "k = card {u. threads s' u \<noteq> Idle}"
    using Suc(2) t(1) held by (simp add: once_held_def card_Diff_singleton)
  from Suc(1) [OF this reachable_run [OF s'(1) Suc(3)]] s'(1,3) show ?case
    by (auto intro: rtranclp_trans)
qed

text \<open>A caller that has to wait for the once-only block: the thread that runs the block can leave it by
  its own steps, and then nobody is inside.\<close>

lemma once_released:
  assumes s: "reachable pf dy s" "gAddImageCallbackOnce s = Once_Running"
  obtains s0 u where "(registry_step pf dy)\<^sup>*\<^sup>* s s0" "threads s0 = (threads s)(u := Idle)" "images s0 = images s"
    "gAddImageCallbackOnce s0 \<noteq> Once_Running" "visiting (threads s u)"
proof -
  note held = reachable_once_held [OF s(1)]
  obtain es where inv: "registry_inv s es" using reachable_inv [OF s(1)] ..
  obtain u where u: "visiting (threads s u)" using held s(2) by (auto simp: once_held_def)
  obtain s0 where s0: "(registry_step pf dy)\<^sup>*\<^sup>* s s0" "threads s0 = (threads s)(u := Idle)" "images s0 = images s"
    using thread_finishes [OF inv held disjI1 [OF u]] unfolding finishes_def by blast
  have "\<not> visiting (threads s0 v)" for v
    using inv u s0(2) by (auto simp: registry_inv_defs)
  then have "gAddImageCallbackOnce s0 \<noteq> Once_Running"
    using reachable_once_held [OF reachable_run [OF s0(1) s(1)]] by (auto simp: once_held_def)
  with that s0 u show thesis by blast
qed

end
