(* ===== verification/Registry.thy ===== *)
theory Registry
  imports Registry_Run
begin

text \<open>
  Properties of the global rebind registry: what steps keep and what they add, the effects of
  \<open>RorkHookRebindSymbolGlobally\<close> and \<open>RorkHookHandleImageAdded\<close> on the machine, and the theorems on one
  thread alone and on all interleavings.
\<close>

section \<open>Published entries\<close>

lemma registry_step_published:
  assumes "registry_step pf dy s s'" "registry_inv s es" "e \<in> set es"
  shows "heap s' e = heap s e"
proof -
  note parts = registry_inv_parts [OF assms(2)]
  have e: "heap s e \<noteq> None" using chain_members [OF parts(1) assms(3)] by simp
  from assms(1) show ?thesis
  proof cases
    case (call_allocate t replacee replacement base entry imageFilter)
    then show ?thesis using e by auto
  next
    case (store_next t entry head)
    then have "e \<noteq> entry" using parts(4) [of t] assms(3) by auto
    then show ?thesis using store_next by (simp add: heap_set_next)
  qed simp_all
qed

text \<open>What only grows: the state of the \<open>dispatch_once\<close> predicate, dyld's list of images and the log of
  applications.\<close>

lemma enumerate_image_grows:
  "\<exists>ws. applied (enumerate_image pf dy e i s) = applied s @ ws"
  "images (enumerate_image pf dy e i s) = images s"
  "gAddImageCallbackOnce (enumerate_image pf dy e i s) = gAddImageCallbackOnce s"
  by (simp_all add: enumerate_image_def apply_entry_def Let_def)

lemma registry_step_grows:
  assumes "registry_step pf dy s s'"
  shows "gAddImageCallbackOnce s \<le> gAddImageCallbackOnce s' \<and>
    (\<exists>hs. images s' = images s @ hs) \<and> (\<exists>ws. applied s' = applied s @ ws)"
  using assms
  by cases (simp_all add: once_bounds enumerate_image_grows goto_def set_next_def apply_entry_def)

lemma quiet_thread: "pc = Idle \<or> (\<exists>b. pc = Returned b) \<Longrightarrow> \<not> pending hp hs e h pc"
  by auto

lemma RebindSymbolGlobally_refused:
  "rebind_source pf dy replacee replacement (machine s) = None \<or> malloc s = 0 \<Longrightarrow>
     RorkHookRebindSymbolGlobally pf dy malloc replacee replacement imageFilter s = Some (False, s)"
  by (auto simp: RorkHookRebindSymbolGlobally_def split: option.split)

section \<open>Effects on the machine\<close>

text \<open>The entries that a traversal from \<open>p\<close> meets.\<close>

inductive linked :: "'w rebind_heap \<Rightarrow> u64 \<Rightarrow> u64 \<Rightarrow> bool" for hp where
  here: "p \<noteq> 0 \<Longrightarrow> linked hp p p"
| beyond: "p \<noteq> 0 \<Longrightarrow> hp p = Some q \<Longrightarrow> linked hp (gr_next q) e \<Longrightarrow> linked hp p e"

text \<open>One rebind of one loaded image on behalf of one entry of the list, with the guards of the
  application: the image is not the one that defines the replacement, and the filter accepts it now.\<close>

definition image_step :: "'w platform \<Rightarrow> 'w dyld \<Rightarrow> 'w system \<Rightarrow> 'w machine \<Rightarrow> 'w machine \<Rightarrow> bool" where
  "image_step pf dy s m m' \<longleftrightarrow>
     (\<exists>e r h. linked (heap s) (gRebinds s) e \<and> heap s e = Some r \<and>
        h \<in> set (images s) \<and> h \<noteq> 0 \<and> h \<noteq> gr_sourceHeader r \<and> (\<forall>f. gr_filter r = Some f \<longrightarrow> f m h) \<and>
        image_rewritten pf dy
          \<lparr>ric_header = h, ric_replaceeRaw = RorkHookStripPointer pf (gr_replacee r), ric_replacement = gr_replacement r\<rparr>
          m m')"

definition machine_effect :: "'w platform \<Rightarrow> 'w dyld \<Rightarrow> 'w system \<Rightarrow> 'w system \<Rightarrow> bool" where
  "machine_effect pf dy s s' \<longleftrightarrow>
     heap s' = heap s \<and> gRebinds s' = gRebinds s \<and> images s' = images s \<and>
     (image_step pf dy s)\<^sup>*\<^sup>* (machine s) (machine s')"

lemma image_step_cong:
  "heap s' = heap s \<Longrightarrow> gRebinds s' = gRebinds s \<Longrightarrow> images s' = images s \<Longrightarrow> image_step pf dy s' = image_step pf dy s"
  by (intro ext) (simp add: image_step_def)

lemma machine_effect_refl: "machine_effect pf dy s s"
  by (simp add: machine_effect_def)

lemma machine_effect_trans:
  assumes "machine_effect pf dy s s'" "machine_effect pf dy s' s''"
  shows "machine_effect pf dy s s''"
proof -
  have "image_step pf dy s' = image_step pf dy s"
    using assms(1) by (intro image_step_cong) (simp_all add: machine_effect_def)
  with assms show ?thesis by (auto simp: machine_effect_def intro: rtranclp_trans)
qed

lemma apply_entry_effect:
  assumes "h \<in> set (images s)" "linked (heap s) (gRebinds s) e"
  shows "machine_effect pf dy s (apply_entry pf dy e h s)"
proof -
  have "(image_step pf dy s)\<^sup>*\<^sup>* (machine s) (RorkHookApplyRebind pf dy (heap s e) h (machine s))"
  proof (cases "RorkHookApplyRebind pf dy (heap s e) h (machine s) = machine s")
    case False
    then obtain r where r: "heap s e = Some r" "h \<noteq> 0" "h \<noteq> gr_sourceHeader r" "\<forall>f. gr_filter r = Some f \<longrightarrow> f (machine s) h"
      "RorkHookApplyRebind pf dy (heap s e) h (machine s) =
         RorkHookRebindSymbolInImage pf dy h (gr_replacee r) (gr_replacement r) (machine s)"
      by (auto simp: RorkHookApplyRebind_def split: option.splits if_splits)
    have "image_step pf dy s (machine s) (RorkHookApplyRebind pf dy (heap s e) h (machine s))"
      unfolding image_step_def r(5)
      by (intro exI conjI) (rule assms r(1-4) RebindSymbolInImage_precise)+
    then show ?thesis ..
  qed simp
  then show ?thesis by (simp add: machine_effect_def) (simp add: apply_entry_def)
qed

lemma handle_loop_effect:
  assumes "handle_loop pf dy h p s = Some s'" "h \<in> set (images s)"
    and "\<And>e. linked (heap s) p e \<Longrightarrow> linked (heap s) (gRebinds s) e"
  shows "machine_effect pf dy s s'"
proof -
  have "h \<in> set (images s) \<longrightarrow> (\<forall>e. linked (heap s) p e \<longrightarrow> linked (heap s) (gRebinds s) e) \<longrightarrow> machine_effect pf dy s s'"
  proof (rule handle_loop.raw_induct [OF _ assms(1), where P = "\<lambda>pf dy h p s s'.
      h \<in> set (images s) \<longrightarrow> (\<forall>e. linked (heap s) p e \<longrightarrow> linked (heap s) (gRebinds s) e) \<longrightarrow> machine_effect pf dy s s'"],
      intro impI)
    fix loop and pf :: "'w platform" and dy h p s s'
    assume IH: "\<And>pf dy h p s s'. loop pf dy h p s = Some s' \<Longrightarrow> h \<in> set (images s) \<longrightarrow>
        (\<forall>e. linked (heap s) p e \<longrightarrow> linked (heap s) (gRebinds s) e) \<longrightarrow> machine_effect pf dy s s'"
      and body: "(if p \<noteq> 0 then case heap s p of None \<Rightarrow> None
        | Some r \<Rightarrow> loop pf dy h (gr_next r) (apply_entry pf dy p h s) else Some s) = Some s'"
      and h: "h \<in> set (images s)" and on: "\<forall>e. linked (heap s) p e \<longrightarrow> linked (heap s) (gRebinds s) e"
    show "machine_effect pf dy s s'"
    proof (cases "p = 0")
      case False
      then obtain r where r: "heap s p = Some r" "loop pf dy h (gr_next r) (apply_entry pf dy p h s) = Some s'"
        using body by (auto split: option.splits)
      have "machine_effect pf dy s (apply_entry pf dy p h s)"
        using on linked.here [where hp = "heap s" and p = p, OF False] by (intro apply_entry_effect [OF h]) blast
      moreover have "machine_effect pf dy (apply_entry pf dy p h s) s'"
        using IH [OF r(2)] h on linked.beyond [where hp = "heap s" and p = p and q = r, OF False r(1)] by simp
      ultimately show ?thesis by (rule machine_effect_trans)
    qed (use body in \<open>simp add: machine_effect_refl\<close>)
  qed
  with assms(2,3) show ?thesis by blast
qed

lemma visit_images_effect:
  "visit_images pf dy hs s = Some s' \<Longrightarrow> set hs \<subseteq> set (images s) \<Longrightarrow> machine_effect pf dy s s'"
proof (induction hs arbitrary: s)
  case (Cons h hs)
  then obtain t where t: "RorkHookHandleImageAdded pf dy h s = Some t" "visit_images pf dy hs t = Some s'"
    by (auto split: option.splits)
  have one: "machine_effect pf dy s t"
    using handle_loop_effect [OF t(1) [unfolded RorkHookHandleImageAdded_def]] Cons.prems(2) by simp
  then have "set hs \<subseteq> set (images t)" using Cons.prems(2) by (simp add: machine_effect_def)
  from machine_effect_trans [OF one Cons.IH [OF t(2) this]] show ?case .
qed (simp add: machine_effect_refl)

lemma register_callback_effect:
  assumes "register_callback_once pf dy s = Some s'"
  shows "machine_effect pf dy s s'"
proof (cases "gAddImageCallbackOnce s")
  case Once_Idle
  let ?s = "s\<lparr>gAddImageCallbackOnce := Once_Running, registrations := Suc (registrations s)\<rparr>"
  obtain t where t: "visit_images pf dy (images s) ?s = Some t" "s' = t\<lparr>gAddImageCallbackOnce := Once_Done\<rparr>"
    using assms Once_Idle by (auto simp: register_callback_once_def)
  have "machine_effect pf dy ?s t" by (rule visit_images_effect [OF t(1)]) simp
  moreover have "image_step pf dy ?s = image_step pf dy s" by (rule image_step_cong) simp_all
  ultimately show ?thesis by (simp add: machine_effect_def t(2))
qed (use assms in \<open>simp_all add: register_callback_once_def machine_effect_refl\<close>)

lemma enumerate_loop_steps:
  "linked (heap s) (gRebinds s) e \<Longrightarrow> machine_effect pf dy s (enumerate_loop pf dy e n i s)"
proof (induction "unat n - unat i" arbitrary: i s)
  case 0
  then show ?case by (subst enumerate_loop.simps) (simp add: word_less_nat_alt machine_effect_refl)
next
  case (Suc k)
  then have lt: "i < n" by (simp add: word_less_nat_alt)
  then have k: "k = unat n - unat (i + 1)" using Suc(2) by (simp add: unat_inc)
  have one: "machine_effect pf dy s (enumerate_image pf dy e i s)"
    using apply_entry_effect [OF _ Suc(3)]
    by (simp add: enumerate_image_def dyld_get_image_header_def Let_def machine_effect_refl)
  then have "linked (heap (enumerate_image pf dy e i s)) (gRebinds (enumerate_image pf dy e i s)) e"
    using Suc(3) by (simp add: machine_effect_def)
  then show ?case
    using machine_effect_trans [OF one Suc(1) [OF k]] lt by (subst enumerate_loop.simps) simp
qed

text \<open>A registration that returns true, from any state.\<close>

lemma RebindSymbolGlobally_effect:
  assumes "RorkHookRebindSymbolGlobally pf dy malloc replacee replacement imageFilter s = Some (True, s')"
  shows "\<exists>base. rebind_source pf dy replacee replacement (machine s) = Some base \<and> malloc s \<noteq> 0 \<and>
    heap s' = (heap s)(malloc s \<mapsto> \<lparr>gr_sourceHeader = base, gr_replacee = replacee, gr_replacement = replacement,
      gr_filter = imageFilter, gr_next = gRebinds s\<rparr>) \<and>
    gRebinds s' = malloc s \<and> images s' = images s \<and> (image_step pf dy s')\<^sup>*\<^sup>* (machine s) (machine s')"
proof -
  let ?e = "malloc s"
  obtain base where base: "rebind_source pf dy replacee replacement (machine s) = Some base" "?e \<noteq> 0"
    using assms by (auto simp: RorkHookRebindSymbolGlobally_def Let_def split: option.splits if_splits)
  let ?b = "(set_next ?e (gRebinds s)
      (s\<lparr>heap := (heap s)(?e \<mapsto> new_entry base replacee replacement imageFilter)\<rparr>))\<lparr>gRebinds := ?e\<rparr>"
  obtain c where c: "register_callback_once pf dy ?b = Some c"
    "s' = enumerate_loop pf dy ?e (of_nat (length (images c))) 0 c"
    using assms base by (auto simp: RorkHookRebindSymbolGlobally_def Let_def split: option.splits)
  note one = register_callback_effect [OF c(1)]
  have "linked (heap c) (gRebinds c) ?e"
    using one base(2) by (auto simp: machine_effect_def intro: linked.here)
  then have "machine_effect pf dy ?b s'" unfolding c(2) by (rule machine_effect_trans [OF one enumerate_loop_steps])
  moreover from this have "image_step pf dy s' = image_step pf dy ?b"
    by (intro image_step_cong) (simp_all add: machine_effect_def)
  ultimately show ?thesis
    using base by (simp add: machine_effect_def) (simp add: set_next_def new_entry_def)
qed

lemma RebindSymbolGlobally_stuck:
  assumes "RorkHookRebindSymbolGlobally pf dy malloc replacee replacement imageFilter s = None"
  shows "gAddImageCallbackOnce s \<noteq> Once_Done"
proof
  assume "gAddImageCallbackOnce s = Once_Done"
  then have "register_callback_once pf dy ((set_next e n (s\<lparr>heap := hp\<rparr>))\<lparr>gRebinds := e\<rparr>) =
      Some ((set_next e n (s\<lparr>heap := hp\<rparr>))\<lparr>gRebinds := e\<rparr>)" for e n hp
    by (simp add: register_callback_once_def)
  then show False
    using assms by (simp add: RorkHookRebindSymbolGlobally_def Let_def split: option.splits if_splits)
qed

lemma RebindSymbolGlobally_false:
  assumes "RorkHookRebindSymbolGlobally pf dy malloc replacee replacement imageFilter s = Some (False, s')"
  shows "(rebind_source pf dy replacee replacement (machine s) = None \<or> malloc s = 0) \<and> s' = s"
  using assms by (auto simp: RorkHookRebindSymbolGlobally_def Let_def split: option.splits if_splits)

section \<open>A registration as a run\<close>


section \<open>Unloading an image\<close>




section \<open>The library's own protect calls\<close>

lemma rebound_apply: "RorkHookApplyRebind (rebind_vm_protect hook pf) = RorkHookApplyRebind pf"
  unfolding fun_eq_iff RorkHookApplyRebind_def rebound_image by simp

lemma rebound_entry: "apply_entry (rebind_vm_protect hook pf) = apply_entry pf"
  unfolding fun_eq_iff apply_entry_def rebound_apply by simp

lemma rebound_source: "rebind_source (rebind_vm_protect hook pf) = rebind_source pf"
  unfolding fun_eq_iff rebind_source_def rebound_strip by simp

text \<open>A traversal depends on the platform through the applications only.\<close>

lemma handle_loop_transfer:
  assumes "handle_loop pf dy h p s = Some s'" "apply_entry pf = apply_entry pf'"
  shows "handle_loop pf' dy h p s = Some s'"
proof -
  have "apply_entry pf = apply_entry pf' \<longrightarrow> handle_loop pf' dy h p s = Some s'"
  proof (rule handle_loop.raw_induct [OF _ assms(1), where P = "\<lambda>pf dy h p s s'.
      apply_entry pf = apply_entry pf' \<longrightarrow> handle_loop pf' dy h p s = Some s'"], intro impI)
    fix loop pf dy h p s s'
    assume IH: "\<And>pf dy h p s s'. loop pf dy h p s = Some s' \<Longrightarrow>
        apply_entry pf = apply_entry pf' \<longrightarrow> handle_loop pf' dy h p s = Some s'"
      and body: "(if p \<noteq> 0 then case heap s p of None \<Rightarrow> None
        | Some r \<Rightarrow> loop pf dy h (gr_next r) (apply_entry pf dy p h s) else Some s) = Some s'"
      and same: "apply_entry pf = apply_entry pf'"
    show "handle_loop pf' dy h p s = Some s'"
      using body IH same by (subst handle_loop.simps) (auto split: if_splits option.splits)
  qed
  then show ?thesis using assms(2) by (rule mp)
qed

lemma rebound_handle: "RorkHookHandleImageAdded (rebind_vm_protect hook pf) = RorkHookHandleImageAdded pf"
proof -
  have "handle_loop (rebind_vm_protect hook pf) dy h p s = handle_loop pf dy h p s" for dy h p s
    using handle_loop_transfer [OF _ rebound_entry] handle_loop_transfer [OF _ rebound_entry [symmetric]]
    by (metis not_Some_eq)
  then show ?thesis by (simp add: fun_eq_iff RorkHookHandleImageAdded_def)
qed

lemma rebound_callback: "register_callback_once (rebind_vm_protect hook pf) = register_callback_once pf"
proof -
  have "visit_images (rebind_vm_protect hook pf) dy hs s = visit_images pf dy hs s" for dy hs s
    by (induction hs arbitrary: s) (simp_all add: rebound_handle cong: option.case_cong)
  then show ?thesis unfolding fun_eq_iff register_callback_once_def by (simp split: once.split)
qed

lemma rebound_enumerate: "enumerate_image (rebind_vm_protect hook pf) = enumerate_image pf"
  unfolding fun_eq_iff enumerate_image_def rebound_entry by simp

lemma rebound_enumeration: "enumerate_loop (rebind_vm_protect hook pf) dy e n i s = enumerate_loop pf dy e n i s"
proof (induction "unat n - unat i" arbitrary: i s)
  case 0
  then show ?case by (subst (1 2) enumerate_loop.simps) (simp add: word_less_nat_alt)
next
  case (Suc k)
  then have lt: "i < n" by (simp add: word_less_nat_alt)
  then have "k = unat n - unat (i + 1)" using Suc(2) by (simp add: unat_inc)
  then show ?case using lt Suc(1) by (subst (1 2) enumerate_loop.simps) (simp add: rebound_enumerate)
qed

lemma rebound_global: "RorkHookRebindSymbolGlobally (rebind_vm_protect hook pf) = RorkHookRebindSymbolGlobally pf"
  unfolding fun_eq_iff RorkHookRebindSymbolGlobally_def rebound_source rebound_callback rebound_enumeration by simp

text \<open>The interleaved steps as well.\<close>

lemma step_transfer:
  assumes "registry_step pf dy s s'" "rebind_source pf = rebind_source pf'" "apply_entry pf = apply_entry pf'"
    "enumerate_image pf = enumerate_image pf'"
  shows "registry_step pf' dy s s'"
  using assms(1) unfolding registry_step.simps [of pf] registry_step.simps [of pf'] assms(2-) .

lemma rebound_step: "registry_step (rebind_vm_protect hook pf) = registry_step pf"
  using step_transfer [OF _ rebound_source rebound_entry rebound_enumerate]
    step_transfer [OF _ rebound_source [symmetric] rebound_entry [symmetric] rebound_enumerate [symmetric]]
  by (intro ext) blast

section \<open>Properties\<close>

text \<open>
  C3: No image is missed. In every reachable state, whatever the interleaving of registrations,
  image loads and callbacks, each registration on the list has been applied to each loaded image,
  or some thread is still on its way to apply exactly this registration to exactly this image: the
  caller of the registration before or in its enumeration, or a callback that has not passed the
  entry yet. Once every thread has returned, every registration has been applied to every image; and
  there is no deadlock: from every reachable state, in the middle of any operations, the threads can
  go on until all of them have left the library, with no further image load.
\<close>

theorem registry_complete:
  assumes "reachable pf dy s"
  shows "\<exists>es. chain (heap s) (gRebinds s) es \<and>
    (\<forall>e\<in>set es. \<forall>h\<in>set (images s).
       (e, h) \<in> set (applied s) \<or> (\<exists>t. pending (heap s) (images s) e h (threads s t))) \<and>
    ((\<forall>t. threads s t = Idle \<or> (\<exists>b. threads s t = Returned b)) \<longrightarrow>
       set es \<times> set (images s) \<subseteq> set (applied s)) \<and>
    (\<exists>s'. (registry_step pf dy)\<^sup>*\<^sup>* s s' \<and> (\<forall>t. threads s' t = Idle) \<and> images s' = images s)"
proof -
  obtain es where inv: "registry_inv s es" using reachable_inv [OF assms] ..
  then have cover: "\<forall>e\<in>set es. \<forall>h\<in>set (images s). covered s e h"
    by (simp add: registry_inv_def inv_cover_def)
  have "(e, h) \<in> set (applied s)"
    if "\<forall>t. threads s t = Idle \<or> (\<exists>b. threads s t = Returned b)" "e \<in> set es" "h \<in> set (images s)" for e h
    using cover that quiet_thread unfolding covered_def by (metis (no_types, lifting))
  then show ?thesis
    using registry_inv_parts(1) [OF inv] cover reachable_rest [OF assms]
    by (intro exI [of _ es]) (auto simp: covered_def)
qed

text \<open>
  C23: Registrations are permanent and immutable: a step of any thread keeps the published list as
  the tail of the new list, with every field of every published entry unchanged, so that a
  traversal in progress stays valid without locks; dyld never gets more than one callback, the
  state of the once-only block never goes back, and what has been applied stays applied.
\<close>

theorem registry_append_only:
  assumes "reachable pf dy s" "registry_step pf dy s s'" "chain (heap s) (gRebinds s) es"
  shows "(\<exists>zs. chain (heap s') (gRebinds s') (zs @ es)) \<and> (\<forall>e\<in>set es. heap s' e = heap s e) \<and>
    registrations s' \<le> 1 \<and> gAddImageCallbackOnce s \<le> gAddImageCallbackOnce s' \<and>
    set (applied s) \<subseteq> set (applied s')"
proof -
  obtain es' where inv: "registry_inv s es'" using reachable_inv [OF assms(1)] ..
  then have "es' = es" using registry_inv_parts(1) [OF inv] assms(3) chain_unique by auto
  with inv have inv: "registry_inv s es" by simp
  obtain zs where "registry_inv s' (zs @ es)" using registry_inv_step [OF assms(2) inv] ..
  then show ?thesis
    using registry_inv_parts(1,3) [of s' "zs @ es"] registry_step_published [OF assms(2) inv]
      registry_step_grows [OF assms(2)] by auto
qed

text \<open>
  C26: The image-load callback returns: in every reachable state the list it walks is finite and
  null-terminated, and the callback applies its entries to the image from the newest to the oldest,
  each once.
\<close>

theorem HandleImageAdded_terminates:
  assumes "reachable pf dy s"
  shows "\<exists>es. chain (heap s) (gRebinds s) es \<and>
    RorkHookHandleImageAdded pf dy h s = Some (apply_all pf dy es h s)"
  using reachable_inv [OF assms] registry_inv_parts(1) handle_loop_chain
  unfolding RorkHookHandleImageAdded_def by metis

text \<open>
  C24: What a registration by a thread that runs alone does, exactly. It returns, and returns true if and
  only if both pointers are non-null, the replacement belongs to an image and memory is available; a
  refused registration changes nothing. An accepted one stores one new entry, with the arguments of
  the call, the image of the replacement and the old head of the list as its successor, and makes it
  the head; no other entry and no image changes; dyld has exactly one callback. The machine is the old
  one with, if this was the first registration, every entry of the new list applied to every loaded
  image (the callback that dyld makes), and then the new registration applied to every loaded image,
  in dyld's order: the image of the replacement and images its filter rejects at that moment are
  passed over, every other one is rebound.
\<close>

theorem RebindSymbolGlobally_alone:
  assumes "reachable pf dy s" "threads s t = Idle" "gAddImageCallbackOnce s \<noteq> Once_Running"
    and "malloc s = 0 \<or> heap s (malloc s) = None"
  shows "case RorkHookRebindSymbolGlobally pf dy malloc replacee replacement imageFilter s of
    None \<Rightarrow> False
  | Some (ok, s') \<Rightarrow>
      (case rebind_source pf dy replacee replacement (machine s) of
         None \<Rightarrow> \<not> ok \<and> s' = s
       | Some base \<Rightarrow>
           if malloc s = 0 then \<not> ok \<and> s' = s
           else ok \<and>
             heap s' = (heap s)(malloc s \<mapsto> \<lparr>gr_sourceHeader = base, gr_replacee = replacee,
               gr_replacement = replacement, gr_filter = imageFilter, gr_next = gRebinds s\<rparr>) \<and>
             gRebinds s' = malloc s \<and> images s' = images s \<and> registrations s' = 1 \<and>
             gAddImageCallbackOnce s' = Once_Done \<and> threads s' = threads s \<and>
             (\<exists>es. chain (heap s) (gRebinds s) es \<and> chain (heap s') (gRebinds s') (malloc s # es) \<and>
                machine s' = fold (hook_image pf dy base replacee replacement imageFilter) (images s)
                  (if gAddImageCallbackOnce s = Once_Idle
                   then fold (\<lambda>h. fold (hook_entry pf dy (heap s') h) (malloc s # es)) (images s) (machine s)
                   else machine s) \<and>
                applied s' = applied s @ (if gAddImageCallbackOnce s = Once_Idle
                  then concat (map (\<lambda>h. map (\<lambda>e. (e, h)) (malloc s # es)) (images s)) else []) @
                  map (\<lambda>h. (malloc s, h)) (images s)))"
proof (cases "rebind_source pf dy replacee replacement (machine s)")
  case None
  then show ?thesis
    using RebindSymbolGlobally_refused [where pf = pf and dy = dy and s = s and malloc = malloc
        and replacee = replacee and replacement = replacement] by simp
next
  case (Some base)
  show ?thesis
  proof (cases "malloc s = 0")
    case True
    then show ?thesis
      using RebindSymbolGlobally_refused [where pf = pf and dy = dy and s = s and malloc = malloc
          and replacee = replacee and replacement = replacement] Some by simp
  next
    case False
    then have fresh: "heap s (malloc s) = None" using assms(4) by simp
    obtain es where inv: "registry_inv s es" using reachable_inv [OF assms(1)] ..
    obtain s' where run: "RorkHookRebindSymbolGlobally pf dy malloc replacee replacement imageFilter s = Some (True, s')"
      and list: "chain (heap s') (gRebinds s') (malloc s # es)"
      and fields: "images s' = images s" "gAddImageCallbackOnce s' = Once_Done" "threads s' = threads s"
        "registrations s' = 1" "gRebinds s' = malloc s"
        "heap s' = (heap s)(malloc s \<mapsto> \<lparr>gr_sourceHeader = base, gr_replacee = replacee, gr_replacement = replacement,
           gr_filter = imageFilter, gr_next = gRebinds s\<rparr>)"
      and machine: "machine s' = fold (hook_image pf dy base replacee replacement imageFilter) (images s)
           (if gAddImageCallbackOnce s = Once_Idle
            then fold (\<lambda>h. fold (hook_entry pf dy (heap s') h) (malloc s # es)) (images s) (machine s) else machine s)"
      and log: "applied s' = applied s @ (if gAddImageCallbackOnce s = Once_Idle
           then concat (map (\<lambda>h. map (\<lambda>e. (e, h)) (malloc s # es)) (images s)) else []) @ map (\<lambda>h. (malloc s, h)) (images s)"
      by (rule RebindSymbolGlobally_success [where malloc = malloc, OF inv assms(2,3) Some False fresh])
    show ?thesis
      unfolding run option.case prod.case Some if_not_P [OF False]
      by (intro conjI TrueI fields exI [of _ es]) (rule registry_inv_parts(1) [OF inv] list machine log)+
  qed
qed



section \<open>A sample run\<close>

text \<open>A process with two images, in which one thread registers one rebind.\<close>

definition sample_start :: "vm_state system" where
  "sample_start = initial sample_state [0x10000, 0x18000]"

definition sample_call :: "(bool \<times> vm_state system) option" where
  "sample_call = RorkHookRebindSymbolGlobally (ref_platform True) sample_dyld (\<lambda>_. 0x900) 0x5000 0x6000 None sample_start"

definition sample_end :: "vm_state system" where
  "sample_end = goto 0 (Returned True) (snd (the sample_call))"

lemma sample_start_reachable: "reachable (ref_platform True) sample_dyld sample_start"
  unfolding sample_start_def by (rule reachable.start) (simp add: image_list_def)

lemma sample_start_fields:
  "threads sample_start t = Idle" "gAddImageCallbackOnce sample_start \<noteq> Once_Running" "heap sample_start e = None"
  "images sample_start = [0x10000, 0x18000]" "gRebinds sample_start = 0"
  "rebind_source (ref_platform True) sample_dyld 0x5000 0x6000 (machine sample_start) = Some 0x18000"
  by (simp_all add: sample_start_def initial_def rebind_source_def sample_dyld_def)

lemma sample_source: "rebind_source (ref_platform True) sample_dyld 0x5000 0x6000 m = Some 0x18000"
  by (simp add: rebind_source_def sample_dyld_def)

lemma sample_end_facts:
  "reachable (ref_platform True) sample_dyld sample_end"
  "chain (heap sample_end) (gRebinds sample_end) [0x900]"
  "images sample_end = [0x10000, 0x18000]" "threads sample_end = (\<lambda>_. Idle)(0 := Returned True)"
  "gAddImageCallbackOnce sample_end = Once_Done" "e \<noteq> 0x900 \<Longrightarrow> heap sample_end e = None"
  "set (applied sample_end) \<subseteq> {0x900} \<times> UNIV"
proof -
  have inv: "registry_inv sample_start []"
    unfolding sample_start_def by (rule initial_inv) (simp add: image_list_def)
  obtain s' where run: "RorkHookRebindSymbolGlobally (ref_platform True) sample_dyld (\<lambda>_. 0x900) 0x5000 0x6000 None sample_start = Some (True, s')"
      "(registry_step (ref_platform True) sample_dyld)\<^sup>*\<^sup>* sample_start (goto 0 (Returned True) s')"
    and list: "chain (heap s') (gRebinds s') [0x900]"
    and fields: "images s' = images sample_start" "gAddImageCallbackOnce s' = Once_Done" "threads s' = threads sample_start"
      "heap s' = (heap sample_start)(0x900 \<mapsto> \<lparr>gr_sourceHeader = 0x18000, gr_replacee = 0x5000,
         gr_replacement = 0x6000, gr_filter = None, gr_next = gRebinds sample_start\<rparr>)"
    and log: "applied s' = applied sample_start @ (if gAddImageCallbackOnce sample_start = Once_Idle
       then concat (map (\<lambda>h. map (\<lambda>e. (e, h)) [0x900]) (images sample_start)) else []) @ map (\<lambda>h. (0x900, h)) (images sample_start)"
    by (rule RebindSymbolGlobally_success [where malloc = "\<lambda>_. 0x900" and imageFilter = None and t = 0,
          OF inv sample_start_fields(1,2,6) _ sample_start_fields(3)]) (simp, rule that, assumption+)
  have s': "sample_call = Some (True, s')"
    "(registry_step (ref_platform True) sample_dyld)\<^sup>*\<^sup>* sample_start (goto 0 (Returned True) s')"
    "chain (heap s') (gRebinds s') [0x900]" "images s' = [0x10000, 0x18000]" "threads s' = threads sample_start"
    "gAddImageCallbackOnce s' = Once_Done" "\<forall>e. e \<noteq> 0x900 \<longrightarrow> heap s' e = None" "set (applied s') \<subseteq> {0x900} \<times> UNIV"
    using run list fields(1-3) by (simp_all add: sample_call_def sample_start_fields fields(4) log)
       (auto simp: sample_start_def initial_def)
  have e: "sample_end = goto 0 (Returned True) s'" by (simp only: sample_end_def s'(1) option.sel snd_conv)
  show "reachable (ref_platform True) sample_dyld sample_end"
    unfolding e by (rule reachable_run [OF s'(2) sample_start_reachable])
  show "chain (heap sample_end) (gRebinds sample_end) [0x900]" "images sample_end = [0x10000, 0x18000]"
    "gAddImageCallbackOnce sample_end = Once_Done" "e \<noteq> 0x900 \<Longrightarrow> heap sample_end e = None"
    "set (applied sample_end) \<subseteq> {0x900} \<times> UNIV"
    using s'(3,4,6-8) by (simp_all add: e)
  show "threads sample_end = (\<lambda>_. Idle)(0 := Returned True)"
    using s'(5) by (simp add: e fun_eq_iff sample_start_fields)
qed





theorem registry_complete_witness:
  "{0x900} \<times> {0x10000, 0x18000} \<subseteq> set (applied sample_end)"
proof -
  obtain es where es: "chain (heap sample_end) (gRebinds sample_end) es"
    "(\<forall>t. threads sample_end t = Idle \<or> (\<exists>b. threads sample_end t = Returned b)) \<longrightarrow>
       set es \<times> set (images sample_end) \<subseteq> set (applied sample_end)"
    using registry_complete [OF sample_end_facts(1)] by (elim exE conjE)
  have "es = [0x900]" using chain_unique [OF es(1) sample_end_facts(2)] .
  then show ?thesis using es(2) by (auto simp: sample_end_facts(3,4) split: if_splits)
qed

theorem registry_append_only_witness:
  "(\<exists>zs. chain (heap (goto 0 Idle sample_end)) (gRebinds (goto 0 Idle sample_end)) (zs @ [0x900])) \<and>
   heap (goto 0 Idle sample_end) 0x900 = heap sample_end 0x900 \<and> registrations (goto 0 Idle sample_end) \<le> 1"
proof -
  have "registry_step (ref_platform True) sample_dyld sample_end (goto 0 Idle sample_end)"
    by (rule registry_step.resume [where b = True]) (simp add: sample_end_facts(4))
  from registry_append_only [OF sample_end_facts(1) this sample_end_facts(2)] show ?thesis by simp
qed

theorem HandleImageAdded_terminates_witness:
  "RorkHookHandleImageAdded (ref_platform True) sample_dyld 0x1c000 sample_end =
     Some (apply_all (ref_platform True) sample_dyld [0x900] 0x1c000 sample_end)"
proof -
  obtain es where es: "chain (heap sample_end) (gRebinds sample_end) es"
    "RorkHookHandleImageAdded (ref_platform True) sample_dyld 0x1c000 sample_end =
       Some (apply_all (ref_platform True) sample_dyld es 0x1c000 sample_end)"
    using HandleImageAdded_terminates [OF sample_end_facts(1), of "0x1c000"] by (elim exE conjE)
  then show ?thesis using chain_unique [OF es(1) sample_end_facts(2)] by simp
qed

theorem RebindSymbolGlobally_alone_witness:
  "case sample_call of
     None \<Rightarrow> False
   | Some (ok, s') \<Rightarrow> ok \<and> gRebinds s' = 0x900 \<and>
       heap s' 0x900 = Some \<lparr>gr_sourceHeader = 0x18000, gr_replacee = 0x5000, gr_replacement = 0x6000,
         gr_filter = None, gr_next = 0\<rparr> \<and>
       machine s' = fold (hook_image (ref_platform True) sample_dyld 0x18000 0x5000 0x6000 None) [0x10000, 0x18000]
         (fold (hook_image (ref_platform True) sample_dyld 0x18000 0x5000 0x6000 None) [0x10000, 0x18000] sample_state)"
proof -
  have start: "gAddImageCallbackOnce sample_start = Once_Idle" "machine sample_start = sample_state"
    by (simp_all add: sample_start_def initial_def)
  note exact = RebindSymbolGlobally_alone [where malloc = "\<lambda>_. 0x900" and imageFilter = None and replacee = "0x5000"
      and replacement = "0x6000", OF sample_start_reachable sample_start_fields(1,2) disjI2 [OF sample_start_fields(3)],
      folded sample_call_def, unfolded sample_source option.case if_False]
  show ?thesis
  proof (cases sample_call)
    case None
    then show ?thesis using exact by simp
  next
    case (Some r)
    obtain ok s' where r: "r = (ok, s')" by fastforce
    have "hook_entry (ref_platform True) sample_dyld (heap s') h 0x900 =
        hook_image (ref_platform True) sample_dyld 0x18000 0x5000 0x6000 None h" for h
      using exact by (simp add: Some r fun_eq_iff hook_entry_def)
    with exact show ?thesis by (auto simp: Some r sample_start_fields start)
  qed
qed



end
