(* ===== verification/Global_Rebind.thy ===== *)
theory Global_Rebind
  imports Progress Registry
begin

text \<open>
  A global registration from end to end: the images it visits, the passes over their sections, and the
  stores to their slots. The pieces are the registry (\<open>Registry\<close>), the pass over one image (\<open>Rebind\<close>) and
  the success of the writing operations (\<open>Progress\<close>); what is new here is that the passes over several images do not
  disturb each other.
\<close>

section \<open>The images of a process\<close>

definition image_span :: "memory \<Rightarrow> u64 \<Rightarrow> nat" where
  "image_span m h = 32 + unat (header_sizeofcmds m h)"

text \<open>
  Images that can be rebound: while the platform state satisfies \<open>ok\<close> each has a well-formed command
  table with the offsets \<open>tbl\<close>, its sections are found from its header and load commands alone, and no
  symbol-pointer section of any of them overlaps the header or load commands of any of them.
\<close>

definition images_hookable ::
  "'w platform \<Rightarrow> 'w dyld \<Rightarrow> ('w \<Rightarrow> bool) \<Rightarrow> memory \<Rightarrow> (u64 \<Rightarrow> nat list) \<Rightarrow> u64 list \<Rightarrow> bool" where
  "images_hookable pf dy ok m tbl hs \<longleftrightarrow>
     (\<forall>h\<in>set hs.
        (\<forall>w. ok w \<longrightarrow> command_table m h (unat (RorkHookReadableMemoryLength pf w h)) = Some (tbl h)) \<and>
        sections_apart dy m h (image_span m h) \<and>
        (\<forall>g\<in>set hs. \<forall>sect\<in>set (image_sections m g (tbl g)). case section_range dy m g sect of (a, z) \<Rightarrow>
           unat a + unat z \<le> unat h \<or> unat h + image_span m h \<le> unat a))"

definition headers_kept :: "memory \<Rightarrow> u64 list \<Rightarrow> memory \<Rightarrow> bool" where
  "headers_kept m hs m' \<longleftrightarrow> (\<forall>h\<in>set hs. agree m m' h (image_span m h))"

lemma sections_apart_agree:
  assumes "sections_apart dy m h n" "agree m m' h n"
  shows "sections_apart dy m' h n"
proof -
  have "getsectiondata dy m' h = getsectiondata dy m h"
    using assms unfolding sections_apart_def fun_eq_iff by blast
  moreover have "agree m' m'' h n \<Longrightarrow> agree m m'' h n" for m''
    using assms(2) by (rule agree_trans)
  ultimately show ?thesis using assms(1) unfolding sections_apart_def by metis
qed

lemma agree_pointer_sections:
  assumes "agree m m' c (unat (command_cmdsize m c))" "8 \<le> unat (command_cmdsize m c)"
  shows "pointer_sections m' c = pointer_sections m c"
proof -
  note cmd = agree_command [OF assms]
  show ?thesis
  proof (cases "command_cmd m c = RORK_HOOK_LC_SEGMENT \<and> 72 \<le> unat (command_cmdsize m c)")
    case True
    then have n: "segment_nsects m c = segment_nsects m' c" using agree_segment(5) [OF assms(1)] by simp
    have "is_pointer_section m' x = is_pointer_section m x" if "x \<in> set (segment_sections m c)" for x
    proof -
      from that obtain i where i: "i < unat (segment_nsects m c)" "x = c + 72 + of_nat (80 * i)"
        "72 + 80 * unat (segment_nsects m c) \<le> unat (command_cmdsize m c)"
        by (auto simp: segment_sections_def split: if_splits)
      then show ?thesis using agree_section_flags [OF assms(1), of i] by simp
    qed
    moreover have "segment_sections m' c = segment_sections m c"
      using cmd n by (simp add: segment_sections_def)
    ultimately show ?thesis by (auto simp: pointer_sections_def intro: filter_cong)
  next
    case False
    then show ?thesis using cmd by (auto simp: pointer_sections_def segment_sections_def)
  qed
qed

lemma agree_image:
  assumes table: "command_table m h n = Some offs" and same: "agree m m' h (image_span m h)"
  shows "command_table m' h n = Some offs" "image_span m' h = image_span m h"
    "image_sections m' h offs = image_sections m h offs"
proof -
  note room = command_table_room [OF table]
  have fields: "header_magic m h = header_magic m' h" "header_ncmds m h = header_ncmds m' h"
    "header_sizeofcmds m h = header_sizeofcmds m' h"
    using agree_header [OF same] by (simp_all add: image_span_def)
  then show "image_span m' h = image_span m h" by (simp add: image_span_def)
  have "command_table m h (image_span m h) = Some offs"
    using room by (simp add: command_table_def image_span_def)
  then have "command_table m' h (image_span m h) = Some offs"
    using agree_command_table [OF same] by simp
  then show "command_table m' h n = Some offs"
    using room fields by (auto simp: command_table_def image_span_def split: if_splits)
  have "pointer_sections m' (h + 32 + of_nat off) = pointer_sections m (h + 32 + of_nat off)"
    if "off \<in> set offs" for off
  proof (rule agree_pointer_sections)
    note b = command_offsets_bounds [OF room(5) that]
    have "agree m m' (h + of_nat (32 + off)) (unat (command_cmdsize m (h + 32 + of_nat off)))"
      using b by (intro agree_sub_nat [OF same]) (simp add: image_span_def)
    then show "agree m m' (h + 32 + of_nat off) (unat (command_cmdsize m (h + 32 + of_nat off)))"
      by (simp add: add.assoc)
    show "8 \<le> unat (command_cmdsize m (h + 32 + of_nat off))" using b by simp
  qed
  then show "image_sections m' h offs = image_sections m h offs"
    by (simp add: image_sections_def cong: map_cong)
qed

section \<open>A pass over one of several images\<close>

lemma hookable_parts:
  assumes "images_hookable pf dy ok m tbl hs" "ok w" "h \<in> set hs"
  shows "command_table m h (unat (RorkHookReadableMemoryLength pf w h)) = Some (tbl h)"
    and "sections_apart dy m h (image_span m h)"
    and "unat h + image_span m h \<le> 2 ^ 64"
    and "g \<in> set hs \<Longrightarrow> sect \<in> set (image_sections m g (tbl g)) \<Longrightarrow> section_range dy m g sect = (a, z) \<Longrightarrow>
      unat a + unat z \<le> unat h \<or> unat h + image_span m h \<le> unat a"
proof -
  show table: "command_table m h (unat (RorkHookReadableMemoryLength pf w h)) = Some (tbl h)"
    and "sections_apart dy m h (image_span m h)"
    using assms unfolding images_hookable_def by blast+
  show "unat h + image_span m h \<le> 2 ^ 64"
    using command_table_room(2) [OF table] table_nonempty_region [OF table] by (simp add: image_span_def)
  show "g \<in> set hs \<Longrightarrow> sect \<in> set (image_sections m g (tbl g)) \<Longrightarrow> section_range dy m g sect = (a, z) \<Longrightarrow>
      unat a + unat z \<le> unat h \<or> unat h + image_span m h \<le> unat a"
    using assms unfolding images_hookable_def by fastforce
qed

lemma frame_agree:
  assumes frame: "\<And>x. unat x < unat a \<or> unat a + unat z \<le> unat x \<Longrightarrow> m' x = m x"
    and apart: "unat a + unat z \<le> unat h \<or> unat h + n \<le> unat a" and room: "unat h + n \<le> 2 ^ 64"
  shows "agree m m' h n"
proof -
  have "m (h + of_nat i) = m' (h + of_nat i)" if "i < n" for i
  proof -
    have "unat (h + of_nat i) = unat h + i"
      using that room by (subst unat_add_no_wrap) (simp_all add: unat_of_nat)
    with that apart show ?thesis by (intro frame [symmetric]) auto
  qed
  then show ?thesis by (simp add: agree_def)
qed

text \<open>Sections of the images, by their ranges before the call.\<close>

definition outside_sections :: "'w dyld \<Rightarrow> memory \<Rightarrow> u64 \<Rightarrow> u64 list \<Rightarrow> u64 \<Rightarrow> bool" where
  "outside_sections dy m g sects x \<longleftrightarrow>
     (\<forall>sect\<in>set sects. case section_range dy m g sect of (a, z) \<Rightarrow> unat x < unat a \<or> unat a + unat z \<le> unat x)"

lemma fold_sections_kept:
  assumes hook: "images_hookable pf dy ok m tbl hs" "ok w" "ric_header c \<in> set hs"
    and "set sects \<subseteq> set (image_sections m (ric_header c) (tbl (ric_header c)))" "headers_kept m hs (mem t)"
  shows "headers_kept m hs (mem (fold (RorkHookRebindSection pf dy c) sects t)) \<and>
    (\<forall>x. outside_sections dy m (ric_header c) sects x \<longrightarrow>
       mem (fold (RorkHookRebindSection pf dy c) sects t) x = mem t x)"
  using assms(4,5)
proof (induction sects arbitrary: t)
  case (Cons sect sects)
  let ?g = "ric_header c" and ?t = "RorkHookRebindSection pf dy c sect t"
  have sect: "sect \<in> set (image_sections m ?g (tbl ?g))" using Cons.prems(1) by simp
  have ag: "agree m (mem t) ?g (image_span m ?g)" using Cons.prems(2) hook(3) by (simp add: headers_kept_def)
  note parts = hookable_parts [OF hook]
  have r: "section_range dy (mem t) ?g sect = section_range dy m ?g sect"
    using section_range_agree(1) [OF parts(2) ag image_section_agree [OF parts(1) sect ag [unfolded image_span_def]]] .
  obtain a z where az: "section_range dy m ?g sect = (a, z)" by fastforce
  have frame: "mem ?t x = mem t x" if "unat x < unat a \<or> unat a + unat z \<le> unat x" for x
    using that RebindSection_frame r az by metis
  have "agree m (mem ?t) h (image_span m h)" if "h \<in> set hs" for h
  proof (rule agree_trans)
    show "agree m (mem t) h (image_span m h)" using Cons.prems(2) that by (simp add: headers_kept_def)
    note other = hookable_parts(3,4) [OF hook(1,2) that]
    show "agree (mem t) (mem ?t) h (image_span m h)"
      by (rule frame_agree [OF frame other(2) [OF hook(3) sect az] other(1)])
  qed
  then have "headers_kept m hs (mem ?t)" by (simp add: headers_kept_def)
  then have "headers_kept m hs (mem (fold (RorkHookRebindSection pf dy c) sects ?t)) \<and>
    (\<forall>x. outside_sections dy m ?g sects x \<longrightarrow>
       mem (fold (RorkHookRebindSection pf dy c) sects ?t) x = mem ?t x)"
    using Cons.prems(1) by (intro Cons.IH) simp_all
  then show ?case using frame by (auto simp: outside_sections_def az)
qed simp

lemma image_pass_kept:
  assumes hook: "images_hookable pf dy ok m tbl hs" "g \<in> set hs" and t: "ok (world t)" "headers_kept m hs (mem t)"
  shows "headers_kept m hs (mem (RorkHookRebindSymbolInImage pf dy g replacee replacement t)) \<and>
    (\<forall>x. outside_sections dy m g (image_sections m g (tbl g)) x \<longrightarrow>
       mem (RorkHookRebindSymbolInImage pf dy g replacee replacement t) x = mem t x)"
proof -
  let ?c = "\<lparr>ric_header = g, ric_replaceeRaw = RorkHookStripPointer pf replacee, ric_replacement = replacement\<rparr>"
  have ag: "agree m (mem t) g (image_span m g)" using t(2) hook(2) by (simp add: headers_kept_def)
  note parts = hookable_parts(1,2) [OF hook(1) t(1) hook(2)]
  note same = agree_image [OF parts(1) ag]
  have "sections_apart dy (mem t) g (32 + unat (header_sizeofcmds (mem t) g))"
    using sections_apart_agree [OF parts(2) ag] same(2) by (simp add: image_span_def)
  then have "RorkHookRebindSymbolInImage pf dy g replacee replacement t =
      (if replacee = 0 \<or> replacement = 0 then t
       else fold (RorkHookRebindSection pf dy ?c) (image_sections m g (tbl g)) t)"
    using RebindSymbolInImage_fold [OF same(1), of dy ?c] command_table_room(1) [OF same(1)] same(3)
    by (simp add: RorkHookRebindSymbolInImage_def Let_def)
  then show ?thesis
    using fold_sections_kept [OF hook(1) t(1), of ?c "image_sections m g (tbl g)" t] hook(2) t(2) by simp
qed

section \<open>A slot of one image while all are visited\<close>

definition ranges_apart :: "u64 \<times> u64 \<Rightarrow> u64 \<times> u64 \<Rightarrow> bool" where
  "ranges_apart = (\<lambda>(b, y) (a, z). unat b + unat y \<le> unat a \<or> unat a + unat z \<le> unat b)"

text \<open>\<open>sect\<close> is a symbol-pointer section of the image \<open>h\<close>, a whole number of slots at \<open>a\<close>, and no other
  symbol-pointer section of the images overlaps it.\<close>

definition own_section ::
  "'w dyld \<Rightarrow> memory \<Rightarrow> (u64 \<Rightarrow> nat list) \<Rightarrow> u64 list \<Rightarrow> u64 \<Rightarrow> u64 \<Rightarrow> u64 \<Rightarrow> u64 \<Rightarrow> bool" where
  "own_section dy m tbl hs h sect a z \<longleftrightarrow>
     h \<in> set hs \<and> section_range dy m h sect = (a, z) \<and> unat z mod 8 = 0 \<and>
     (\<exists>before after. image_sections m h (tbl h) = before @ sect # after \<and>
        (\<forall>other\<in>set (before @ after). ranges_apart (section_range dy m h other) (a, z))) \<and>
     (\<forall>g\<in>set hs - {h}. \<forall>other\<in>set (image_sections m g (tbl g)). ranges_apart (section_range dy m g other) (a, z))"

lemma own_sectionE:
  assumes "own_section dy m tbl hs h sect a z"
  obtains before after where "image_sections m h (tbl h) = before @ sect # after"
    "\<And>other b y. other \<in> set (before @ after) \<Longrightarrow> section_range dy m h other = (b, y) \<Longrightarrow>
       unat b + unat y \<le> unat a \<or> unat a + unat z \<le> unat b"
proof -
  obtain before after where split: "image_sections m h (tbl h) = before @ sect # after"
    "\<forall>other\<in>set (before @ after). ranges_apart (section_range dy m h other) (a, z)"
    using assms unfolding own_section_def by (elim conjE exE)
  from split(2) show thesis by (intro that [OF split(1)]) (auto simp: ranges_apart_def split: prod.splits)
qed

lemma own_section_outside:
  assumes "own_section dy m tbl hs h sect a z" "g \<in> set hs" "g \<noteq> h" "unat a \<le> unat x" "unat x < unat a + unat z"
  shows "outside_sections dy m g (image_sections m g (tbl g)) x"
  unfolding outside_sections_def
proof
  fix other assume "other \<in> set (image_sections m g (tbl g))"
  then have "ranges_apart (section_range dy m g other) (a, z)"
    using assms(1-3) by (simp add: own_section_def)
  then show "case section_range dy m g other of (b, y) \<Rightarrow> unat x < unat b \<or> unat b + unat y \<le> unat x"
    using assms(4,5) by (auto simp: ranges_apart_def split: prod.splits)
qed

text \<open>The pass over one of the images: the images stay hookable, and the slot is rewritten by the pass
  over its own image alone.\<close>

lemma apply_one:
  fixes pf :: "'w platform"
  assumes kernel: "vm_law pf ok maximum" "ok (world s)"
    and size: "vm_page_size pf AND (vm_page_size pf - 1) = 0" "8 \<le> unat (vm_page_size pf)"
    and hook: "images_hookable pf dy ok (mem s) tbl hs"
    and own: "own_section dy (mem s) tbl hs h sect a z" "unat (vm_page_size pf) \<le> unat a"
    and r: "gr_replacee r \<noteq> 0" "gr_replacement r \<noteq> 0" "raw = RorkHookStripPointer pf (gr_replacee r)"
      "h \<noteq> gr_sourceHeader r" "\<forall>f t. gr_filter r = Some f \<and> rewritten pf raw (gr_replacement r) s t \<longrightarrow> f t h"
    and readable: "\<And>w. ok w \<Longrightarrow> RorkHookMemoryIsReadable pf w a z"
      "\<And>w x. ok w \<Longrightarrow> unat a \<le> unat x \<Longrightarrow> unat x < unat a + unat z \<Longrightarrow> page_readable pf w x"
    and permitted: "\<And>w. ok w \<Longrightarrow> allows pf maximum w a z (VM_PROT_READ OR VM_PROT_WRITE OR VM_PROT_COPY)"
    and law: "\<And>t. rewritten pf raw (gr_replacement r) s t \<Longrightarrow> device_arm64 pf \<longrightarrow> tpro_law pf (mem t)"
    and i: "i < unat z div 8" "slot = a + of_nat (8 * i)"
    and t: "rewritten pf raw (gr_replacement r) s t" "headers_kept (mem s) hs (mem t)" and g: "g \<in> set hs"
  defines "t' \<equiv> RorkHookApplyRebind pf dy (Some r) g t"
  shows "rewritten pf raw (gr_replacement r) s t'" "headers_kept (mem s) hs (mem t')"
    and "load64 (mem t') slot =
      (if g = h \<and> matches pf raw (load64 (mem t) slot)
       then slot_value pf (gr_replacement r) (is_auth_got (mem s) sect) slot else load64 (mem t) slot)"
proof -
  let ?p = "RorkHookRebindSymbolInImage pf dy g (gr_replacee r) (gr_replacement r) t"
  have ok: "ok (world t)" by (rule rewritten_advances [OF t(1) kernel size(2)])
  have t': "t' = t \<or> t' = ?p" by (simp add: t'_def RorkHookApplyRebind_def)
  have p: "rewritten pf raw (gr_replacement r) t ?p" unfolding r(3) by (rule RebindSymbolInImage_rewritten)
  note kept = image_pass_kept [OF hook g ok t(2), of "gr_replacee r" "gr_replacement r"]
  show "rewritten pf raw (gr_replacement r) s t'" using t' t(1) rewritten_trans [OF t(1) p] by auto
  show "headers_kept (mem s) hs (mem t')" using t' t(2) kept by auto
  have room: "unat a + unat z < 2 ^ 64" by (rule readable_no_wrap [OF readable(1) [OF ok]])
  note slot = slot_of_range [OF room i(1), folded i(2)]
  show "load64 (mem t') slot =
      (if g = h \<and> matches pf raw (load64 (mem t) slot)
       then slot_value pf (gr_replacement r) (is_auth_got (mem s) sect) slot else load64 (mem t) slot)"
  proof (cases "g = h")
    case False
    have "load64 (mem ?p) slot = load64 (mem t) slot"
      using own_section_outside [OF own(1) g False] kept slot room by (intro load64_frame) auto
    with t' False show ?thesis by auto
  next
    case True
    have ag: "agree (mem s) (mem t) h (image_span (mem s) h)" using t(2) g True by (simp add: headers_kept_def)
    note parts = hookable_parts(1,2) [OF hook ok g [unfolded True]]
    note same = agree_image [OF parts(1) ag]
    obtain before after where split: "image_sections (mem s) h (tbl h) = before @ sect # after"
      "\<And>other b y. other \<in> set (before @ after) \<Longrightarrow> section_range dy (mem s) h other = (b, y) \<Longrightarrow>
         unat b + unat y \<le> unat a \<or> unat a + unat z \<le> unat b"
      by (rule own_sectionE [OF own(1)]) blast
    have stable: "section_range dy (mem t) h x = section_range dy (mem s) h x \<and> is_auth_got (mem t) x = is_auth_got (mem s) x"
      if "x \<in> set (before @ sect # after)" for x
      using section_range_agree [OF parts(2) ag image_section_agree [OF parts(1) _ ag [unfolded image_span_def]]] that split(1)
      by simp
    have apart: "sections_apart dy (mem t) h (32 + unat (header_sizeofcmds (mem t) h))"
      using sections_apart_agree [OF parts(2) ag] same(2) by (simp add: image_span_def)
    have range: "section_range dy (mem t) h sect = (a, z)" "unat z mod 8 = 0"
      using own(1) stable [of sect] by (simp_all add: own_section_def)
    have others: "unat b + unat y \<le> unat a \<or> unat a + unat z \<le> unat b"
      if "other \<in> set (before @ after)" "section_range dy (mem t) h other = (b, y)" for other b y
      using split(2) [OF that(1)] stable [of other] that by auto
    have "t' = RorkHookRebindSymbolInImage pf dy h (gr_replacee r) (gr_replacement r) t"
      using r(4,5) t(1) command_table_room(1) [OF parts(1)]
      by (auto simp: t'_def True RorkHookApplyRebind_def split: option.splits)
    moreover have "load64 (mem (RorkHookRebindSymbolInImage pf dy h (gr_replacee r) (gr_replacement r) t)) slot =
        (if matches pf raw (load64 (mem t) slot)
         then slot_value pf (gr_replacement r) (is_auth_got (mem t) sect) slot else load64 (mem t) slot)"
      unfolding r(3)
      by (rule RebindSymbolInImage_permitted [OF kernel(1) ok size same(1) apart r(1,2) same(3) [unfolded split(1)] range(1) own(2)
            range(2) others readable permitted law [OF rewritten_trans [OF t(1)], unfolded r(3)] i])
        (simp_all add: r(3))
    ultimately show ?thesis using stable [of sect] by (simp add: True)
  qed
qed

lemma fold_slot:
  assumes step: "\<And>t g. K t \<Longrightarrow> g \<in> set hs \<Longrightarrow> K (f g t) \<and> view (f g t) = (if g = h then F (view t) else view t)"
    and idem: "\<And>v. F (F v) = F v" and start: "K t" "set xs \<subseteq> set hs"
  shows "K (fold f xs t) \<and> view (fold f xs t) = (if h \<in> set xs then F (view t) else view t)"
  using start
proof (induction xs arbitrary: t)
  case (Cons g xs)
  then have "K (f g t)" "view (f g t) = (if g = h then F (view t) else view t)" using step by simp_all
  with Cons.IH [of "f g t"] Cons.prems(2) show ?case by (auto simp: idem)
qed simp

section \<open>The machine after a registration\<close>

text \<open>What a registration does to the machine, when no other one has to be applied: one or two passes
  over the images with the new entry.\<close>

lemma registration_machine:
  assumes source: "rebind_source pf dy replacee replacement (machine s) = Some base" "malloc s \<noteq> 0"
    and once: "gAddImageCallbackOnce s = Once_Done \<or> gAddImageCallbackOnce s = Once_Idle \<and> gRebinds s = 0"
    and list: "image_list (images s)"
    and r: "r = (new_entry base replacee replacement imageFilter)\<lparr>gr_next := gRebinds s\<rparr>"
  obtains s' xs where "RorkHookRebindSymbolGlobally pf dy malloc replacee replacement imageFilter s = Some (True, s')"
    "set xs = set (images s)" "machine s' = fold (RorkHookApplyRebind pf dy (Some r)) xs (machine s)"
proof -
  let ?e = "malloc s" and ?f = "RorkHookApplyRebind pf dy (Some r)"
  let ?b = "(set_next ?e (gRebinds s)
      (s\<lparr>heap := (heap s)(?e \<mapsto> new_entry base replacee replacement imageFilter)\<rparr>))\<lparr>gRebinds := ?e\<rparr>"
  have b: "heap ?b ?e = Some r" "images ?b = images s" "machine ?b = machine s" "gRebinds ?b = ?e"
    "gAddImageCallbackOnce ?b = gAddImageCallbackOnce s"
    by (simp_all add: set_next_def r)
  obtain c ys where c: "register_callback_once pf dy ?b = Some c" "heap c = heap ?b" "images c = images s"
    "set ys \<subseteq> set (images s)" "machine c = fold ?f ys (machine s)"
  proof (cases "gAddImageCallbackOnce s = Once_Done")
    case True
    then show thesis using that [of ?b "[]"] b by (simp add: register_callback_once_def)
  next
    case False
    let ?s = "?b\<lparr>gAddImageCallbackOnce := Once_Running, registrations := Suc (registrations ?b)\<rparr>"
    have "chain (heap ?s) (gRebinds ?s) [?e]" using False once source(2) b by (simp add: r)
    moreover have "(\<lambda>h. fold (hook_entry pf dy (heap ?s) h) [?e]) = ?f"
      using b(1) by (simp add: fun_eq_iff flip: ApplyRebind_hook)
    ultimately show thesis
      using visit_images_chain [of ?s "[?e]" pf dy "images s"] visit_machine [of pf dy "[?e]" "images s" ?s]
        that [of "fold (apply_all pf dy [?e]) (images s) ?s\<lparr>gAddImageCallbackOnce := Once_Done\<rparr>" "images s"]
        False once b by (simp add: register_callback_once_def)
  qed
  let ?n = "of_nat (length (images s)) :: u32"
  have n: "unat ?n = length (images s)" using list by (simp add: image_list_def unat_of_nat)
  have "(\<lambda>h. hook_entry pf dy (heap c) h ?e) = ?f"
    using b(1) c(2) by (simp add: fun_eq_iff flip: ApplyRebind_hook)
  then have "machine (enumerate_loop pf dy ?e ?n 0 c) = fold ?f (images s) (machine c)"
    using enumerate_loop_effect [of c pf dy ?e ?n 0] list n c(3) by simp
  also have "\<dots> = fold ?f (ys @ images s) (machine s)" using c(5) by simp
  finally show thesis
    using source c(1,3,4) by (intro that [of "enumerate_loop pf dy ?e ?n 0 c" "ys @ images s"])
      (auto simp: RorkHookRebindSymbolGlobally_def Let_def)
qed

section \<open>Property\<close>

text \<open>
  C17: A global registration hooks the process: on a kernel that behaves as documented, when no other
  registration is waiting to be applied, the call returns true, and afterwards every slot of a
  symbol-pointer section of a loaded image that resolved to the replacee holds the replacement (raw, or
  signed for the slot in \<open>__auth_got\<close>), and every other slot of the section has kept its value, although
  the images are visited once or twice and rewritten one after the other. (The image is not the one
  that defines the replacement, and the filter accepts it throughout. Hypotheses on the images: none
  of their sections overlaps a header or another section; the section stays on readable pages that may
  be made writable by copying.)
\<close>

theorem RebindSymbolGlobally_succeeds:
  assumes kernel: "vm_law pf ok maximum" "ok (world (machine s))"
    and size: "vm_page_size pf AND (vm_page_size pf - 1) = 0" "8 \<le> unat (vm_page_size pf)"
    and source: "rebind_source pf dy replacee replacement (machine s) = Some base" "malloc s \<noteq> 0"
    and once: "gAddImageCallbackOnce s = Once_Done \<or> gAddImageCallbackOnce s = Once_Idle \<and> gRebinds s = 0"
    and images: "image_list (images s)" "images_hookable pf dy ok (mem (machine s)) tbl (images s)"
    and own: "own_section dy (mem (machine s)) tbl (images s) h sect a z" "unat (vm_page_size pf) \<le> unat a"
    and accepted: "h \<noteq> base" "\<And>f t. imageFilter = Some f \<Longrightarrow>
      rewritten pf (RorkHookStripPointer pf replacee) replacement (machine s) t \<Longrightarrow> f t h"
    and readable: "\<And>w. ok w \<Longrightarrow> RorkHookMemoryIsReadable pf w a z"
      "\<And>w x. ok w \<Longrightarrow> unat a \<le> unat x \<Longrightarrow> unat x < unat a + unat z \<Longrightarrow> page_readable pf w x"
    and permitted: "\<And>w. ok w \<Longrightarrow> allows pf maximum w a z (VM_PROT_READ OR VM_PROT_WRITE OR VM_PROT_COPY)"
    and law: "\<And>t. rewritten pf (RorkHookStripPointer pf replacee) replacement (machine s) t \<Longrightarrow>
      device_arm64 pf \<longrightarrow> tpro_law pf (mem t)"
    and i: "i < unat z div 8" "slot = a + of_nat (8 * i)"
  shows "\<exists>s'. RorkHookRebindSymbolGlobally pf dy malloc replacee replacement imageFilter s = Some (True, s') \<and>
    load64 (mem (machine s')) slot =
      (if matches pf (RorkHookStripPointer pf replacee) (load64 (mem (machine s)) slot)
       then slot_value pf replacement (is_auth_got (mem (machine s)) sect) slot
       else load64 (mem (machine s)) slot)"
proof -
  define r where "r = (new_entry base replacee replacement imageFilter)\<lparr>gr_next := gRebinds s\<rparr>"
  let ?raw = "RorkHookStripPointer pf replacee"
  let ?F = "\<lambda>v. if matches pf ?raw v then slot_value pf replacement (is_auth_got (mem (machine s)) sect) slot else v"
  let ?K = "\<lambda>t. rewritten pf ?raw replacement (machine s) t \<and> headers_kept (mem (machine s)) (images s) (mem t)"
  have fields: "gr_replacee r = replacee" "gr_replacement r = replacement" "gr_sourceHeader r = base" "gr_filter r = imageFilter"
    by (simp_all add: r_def new_entry_def)
  have accept: "\<forall>f t. imageFilter = Some f \<and> rewritten pf ?raw replacement (machine s) t \<longrightarrow> f t h"
    using accepted(2) by blast
  have nonnull: "replacee \<noteq> 0" "replacement \<noteq> 0" using source(1) by (auto simp: rebind_source_def)
  obtain s' xs where run: "RorkHookRebindSymbolGlobally pf dy malloc replacee replacement imageFilter s = Some (True, s')"
    "set xs = set (images s)" "machine s' = fold (RorkHookApplyRebind pf dy (Some r)) xs (machine s)"
    by (rule registration_machine [where malloc = malloc, OF source once images(1) r_def])
  have "?K (fold (RorkHookApplyRebind pf dy (Some r)) xs (machine s)) \<and>
      load64 (mem (fold (RorkHookApplyRebind pf dy (Some r)) xs (machine s))) slot =
        (if h \<in> set xs then ?F (load64 (mem (machine s)) slot) else load64 (mem (machine s)) slot)"
  proof (rule fold_slot [where K = ?K and hs = "images s" and view = "\<lambda>t. load64 (mem t) slot" and F = ?F])
    fix t g assume t: "?K t" and g: "g \<in> set (images s)"
    note one = apply_one [OF kernel size images(2) own, of r, unfolded fields, OF nonnull refl accepted(1) accept readable permitted law i
        conjunct1 [OF t] conjunct2 [OF t] g]
    show "?K (RorkHookApplyRebind pf dy (Some r) g t) \<and> load64 (mem (RorkHookApplyRebind pf dy (Some r) g t)) slot =
        (if g = h then ?F (load64 (mem t) slot) else load64 (mem t) slot)"
      using one by simp
  qed (use run(2) in \<open>simp_all add: rewritten.unchanged headers_kept_def agree_def\<close>)
  moreover have "h \<in> set xs" using own(1) run(2) by (simp add: own_section_def)
  ultimately show ?thesis using run(1,3) by simp
qed

text \<open>Two images with one pointer section each: the second defines the replacement and has registered a
  hook for the first, from a process that has not used the registry before.\<close>

definition two_images :: "mach_state machine" where
  "two_images =
     \<lparr>mem = store_bytes (mem sample_state) 0x18000 sample_image,
      world = \<lparr>mapped = [(4, 5, 5), (5, 1, 1), (6, 5, 5), (7, 1, 3)], thread_register = 0\<rparr>, events = []\<rparr>"

definition two_dyld :: "mach_state dyld" where
  "two_dyld = \<lparr>getsectiondata = (\<lambda>_ header _ _. (if header = 0x10000 then 0x14000 else 0x1c000, 16)),
     dladdr = (\<lambda>_ _. (1, 0x18000))\<rparr>"

definition two_start :: "mach_state system" where
  "two_start = initial two_images [0x10000, 0x18000]"

lemma two_tables:
  "command_table (mem two_images) 0x10000 0x4000 = Some [0]" "command_table (mem two_images) 0x18000 0x4000 = Some [0]"
  "image_sections (mem two_images) 0x10000 [0] = [0x10068]" "image_sections (mem two_images) 0x18000 [0] = [0x18068]"
  "image_span (mem two_images) 0x10000 = 184" "image_span (mem two_images) 0x18000 = 184"
proof -
  have span: "image_span (mem sample_state) 0x10000 = 184" by (simp add: image_span_def sample_table)
  have "agree (mem sample_state) (mem two_images) 0x10000 184"
    by (rule frame_agree [where a = "0x18000 :: u64" and z = "184 :: u64"])
      (auto simp: two_images_def sample_image_def intro!: store_bytes_byte_frame)
  then have "agree (mem sample_state) (mem two_images) 0x10000 (image_span (mem sample_state) 0x10000)"
    by (simp only: span)
  note same = agree_image [OF sample_table(1) this]
  show "command_table (mem two_images) 0x10000 0x4000 = Some [0]"
    "image_sections (mem two_images) 0x10000 [0] = [0x10068]" "image_span (mem two_images) 0x10000 = 184"
    using same by (simp_all add: sample_table span)
  show "command_table (mem two_images) 0x18000 0x4000 = Some [0]" by code_simp
  show "image_sections (mem two_images) 0x18000 [0] = [0x18068]" by code_simp
  show "image_span (mem two_images) 0x18000 = 184" by code_simp
qed

lemma two_ranges:
  "section_range two_dyld m 0x10000 sect = (0x14000, 16)" "section_range two_dyld m 0x18000 sect = (0x1c000, 16)"
  by (simp_all add: section_range_def two_dyld_def)

lemma two_headers:
  assumes "mach_ok [4, 5, 6] w"
  shows "RorkHookReadableMemoryLength (mach_platform False) w 0x10000 = 0x4000"
    and "RorkHookReadableMemoryLength (mach_platform False) w 0x18000 = 0x4000"
proof -
  have "\<exists>c m. map_of (mapped w) q = Some (c, m) \<and> c AND VM_PROT_READ \<noteq> 0" if "q = 4 \<or> q = 6" for q
    using assms that by (auto simp: mach_ok_def split: option.splits)
  then obtain c m d n where e: "map_of (mapped w) 4 = Some (c, m)" "c AND VM_PROT_READ \<noteq> 0"
    "map_of (mapped w) 6 = Some (d, n)" "d AND VM_PROT_READ \<noteq> 0" by metis
  then show "RorkHookReadableMemoryLength (mach_platform False) w 0x10000 = 0x4000"
    "RorkHookReadableMemoryLength (mach_platform False) w 0x18000 = 0x4000"
    by (simp_all add: RorkHookReadableMemoryLength_def mach_query [OF assms _ refl])
qed

lemma two_hookable:
  "images_hookable (mach_platform False) two_dyld (mach_ok [4, 5, 6]) (mem two_images) (\<lambda>_. [0]) [0x10000, 0x18000]"
proof -
  have "sections_apart two_dyld (mem two_images) h 184" if "h = 0x10000 \<or> h = 0x18000" for h
    using that by (auto simp: sections_apart_def two_dyld_def)
  then show ?thesis
    by (simp add: images_hookable_def two_tables two_ranges two_headers)
qed

lemma two_slot: "load64 (mem two_images) 0x14000 = 0x5000"
proof -
  have "load64 (mem two_images) 0x14000 = load64 (mem sample_state) 0x14000"
    unfolding load64_def two_images_def by (simp add: load_store_frame sample_image_def)
  then show ?thesis using auth_slot by (simp add: auth_state_def)
qed

theorem RebindSymbolGlobally_succeeds_witness:
  "\<exists>s'. RorkHookRebindSymbolGlobally (mach_platform False) two_dyld (\<lambda>_. 0x900) 0x5000 0x6000 None two_start = Some (True, s') \<and>
     load64 (mem (machine s')) 0x14000 = 0x6000"
proof -
  have fields: "machine two_start = two_images" "images two_start = [0x10000, 0x18000]"
    "gAddImageCallbackOnce two_start = Once_Idle" "gRebinds two_start = 0"
    by (simp_all add: two_start_def initial_def)
  have ok: "mach_ok [4, 5, 6] (world two_images)" by (simp add: mach_ok_def two_images_def)
  have source: "rebind_source (mach_platform False) two_dyld 0x5000 0x6000 two_images = Some 0x18000"
    by (simp add: rebind_source_def two_dyld_def)
  have own: "own_section two_dyld (mem two_images) (\<lambda>_. [0]) [0x10000, 0x18000] 0x10000 0x10068 0x14000 16"
    unfolding own_section_def
    by (intro conjI exI [of _ "[]"]) (simp_all add: ranges_apart_def two_tables two_ranges)
  have strip: "RorkHookStripPointer (mach_platform False) p = p" for p
    by (simp add: RorkHookStripPointer_def)
  have val: "slot_value (mach_platform False) v auth slot = v" for v auth slot
    by (simp add: slot_value_def)
  have pages: "vm_page_size (mach_platform False) = 0x4000" "\<not> device_arm64 (mach_platform False)"
    by simp_all
  show ?thesis
    using RebindSymbolGlobally_succeeds [OF mach_vm_law, of "[4, 5, 6]" two_start False two_dyld "0x5000" "0x6000" "0x18000"
        "\<lambda>_. 0x900" "\<lambda>_. [0]" "0x10000" "0x10068" "0x14000" 16 None 0 "0x14000"]
      mach_section two_hookable two_slot own ok source fields
    by (simp add: image_list_def strip val pages matches_def)
qed

end
