(* ===== verification/Version.thy ===== *)
theory Version
  imports Prelude
begin

text \<open>
  The version constants (\<open>include/RorkHookVersion.h\<close>) and their run-time accessors
  (\<open>RorkHookVersion.c\<close>), with the consistency a release must keep between them.
\<close>

definition RORK_HOOK_VERSION_MAJOR :: nat where "RORK_HOOK_VERSION_MAJOR = 0"
definition RORK_HOOK_VERSION_MINOR :: nat where "RORK_HOOK_VERSION_MINOR = 3"
definition RORK_HOOK_VERSION_PATCH :: nat where "RORK_HOOK_VERSION_PATCH = 1"
definition RORK_HOOK_VERSION_STRING :: string where "RORK_HOOK_VERSION_STRING = ''0.3.1''"
definition RORK_HOOK_ABI_VERSION :: u32 where "RORK_HOOK_ABI_VERSION = 1"

definition RorkHookVersion :: string where "RorkHookVersion = RORK_HOOK_VERSION_STRING"
definition RorkHookABIVersion :: u32 where "RorkHookABIVersion = RORK_HOOK_ABI_VERSION"

text \<open>Decimal notation, and dotted version strings.\<close>

fun decimal :: "nat \<Rightarrow> string" where
  "decimal n = (if n < 10 then [char_of (48 + n)] else decimal (n div 10) @ [char_of (48 + n mod 10)])"

definition dotted :: "nat \<Rightarrow> nat \<Rightarrow> nat \<Rightarrow> string" where
  "dotted a b c = decimal a @ ''.'' @ decimal b @ ''.'' @ decimal c"

text \<open>
  The version string returned at run time is the dotted form of the three version macros, and
  the ABI version is a positive number.
\<close>

lemma version_string_consistent:
  "RorkHookVersion = dotted RORK_HOOK_VERSION_MAJOR RORK_HOOK_VERSION_MINOR RORK_HOOK_VERSION_PATCH \<and>
   0 < RorkHookABIVersion"
  by (simp add: RorkHookVersion_def RORK_HOOK_VERSION_STRING_def dotted_def RORK_HOOK_VERSION_MAJOR_def
      RORK_HOOK_VERSION_MINOR_def RORK_HOOK_VERSION_PATCH_def char_of_def RorkHookABIVersion_def
      RORK_HOOK_ABI_VERSION_def bit_0)

end
