(* ===== verification/Spec2Isabelle.thy ===== *)
theory Spec2Isabelle
  imports Arm64 Load_Commands Memory Detour Symbols Cache_Files Rebind Progress Registry Global_Rebind Version
begin

text \<open>
  A verification of RorkHook (\<open>Sources/RorkHook\<close>), a C library for hooking functions and reading
  Mach-O images inside a running process on Apple platforms.

  \<^bold>\<open>The program and its parts.\<close> The Arm64 decoders (\<open>RorkHookArm64.c\<close>) read single instructions.
  Internal helpers (\<open>RorkHookInternal.c\<close>) query VM regions and iterate over the load commands of an
  image. On these rest the symbol lookups in live and file-mapped images (\<open>RorkHookSymbols.c\<close>) and
  in the dyld shared cache (\<open>RorkHookSharedCache.c\<close>). Memory services (\<open>RorkHookMemory.c\<close>) change
  page protections, open the thread's TPRO write window and store one pointer into protected
  memory. Function detours (\<open>RorkHookFunction.c\<close>) overwrite a function's first instructions with a
  jump; rebinding (\<open>RorkHookRebind.c\<close>) rewrites symbol-pointer slots through the protected store, in
  one image or, through a lock-free registry and a dyld callback, in all present and future ones.

  \<^bold>\<open>Theories and sources.\<close>
  \<^item> \<open>Prelude\<close>: C integer types as words, byte memory with little-endian access, output parameters
    (locale \<open>out_param\<close>, interpreted by every checked operation), agreement of memories on a range.
  \<^item> \<open>Platform\<close>, \<open>Pages\<close>, \<open>Reference_Platform\<close>: the machine state (memory, hidden platform state,
    trace of effects), the system functions the sources call as a record of parameters with each
    \<open>#if\<close> as a Boolean, the law of what \<open>vm_protect\<close> does (\<open>protect_law\<close>), and a concrete platform
    that satisfies it, used by the witnesses; also the trap stub in assembly, the law of pointer
    authentication (\<open>ptrauth_law\<close>) and a platform with signed pointers.
  \<^item> \<open>Vm_Kernel\<close>: no source of its own; the law of when \<open>vm_protect\<close> succeeds (\<open>vm_law\<close>: mapped pages with
    current and maximum protections, \<open>VM_PROT_COPY\<close>), and a kernel with such a page table that refuses
    unmapped pages, wrapping ranges and requests beyond a maximum, used by the witnesses of \<open>Progress\<close>
    and \<open>Global_Rebind\<close>.
  \<^item> \<open>Arm64\<close>: \<open>RorkHookArm64.c\<close>, against a reference instruction set.
  \<^item> \<open>Regions\<close> and \<open>Load_Commands\<close>: \<open>RorkHookInternal.c\<close> and \<open>private/RorkHookInternal.h\<close>, with the
    callback interface as locales (\<open>pure_visitor\<close>, \<open>bounded_visitor\<close>).
  \<^item> \<open>Memory\<close>: \<open>RorkHookMemory.c\<close>. \<open>Detour\<close>: \<open>RorkHookFunction.c\<close>, with an executable processor for
    the emitted instructions.
  \<^item> \<open>Symbols\<close>: \<open>RorkHookSymbols.c\<close>. \<open>Dyld_Cache\<close>: the structs of \<open>private/RorkHookDyldCache.h\<close>.
    \<open>Shared_Cache\<close>: the parser of \<open>RorkHookSharedCache.c\<close>. \<open>Cache_Files\<close>: the rest of that file (mapping,
    path discovery, lookup by path), with the file system as a parameter.
  \<^item> \<open>Rebind_Model\<close>: \<open>RorkHookRebind.c\<close> up to \<open>RorkHookRebindSymbolInImage\<close>, with lemmas on one section in
    \<open>Rebind_Section\<close> and on an image in \<open>Rebind\<close> (locale \<open>steady_visitor\<close> for callbacks that write).
    \<open>Registry_Model\<close>: the rest of that file, as functions of one thread and as a step relation of
    interleaved threads, with the invariant in \<open>Registry_Invariant\<close> (locale \<open>invariant_system\<close>), the
    specification of one application (\<open>hook_image\<close>) and runs of steps in \<open>Registry_Run\<close>, and the chains of
    image rebinds (\<open>image_step\<close>), the steps with unloading and the properties in \<open>Registry\<close>.
  \<^item> \<open>Progress\<close>: no source of its own; what the writing operations of \<open>Memory\<close>, \<open>Detour\<close> and \<open>Rebind\<close>
    achieve on a kernel that behaves as documented (\<open>vm_law\<close>). \<open>Global_Rebind\<close>: the same for a global
    registration, over all the images of a process (\<open>images_hookable\<close>).
  \<^item> \<open>Version\<close>: \<open>RorkHookVersion.c\<close> and \<open>include/RorkHookVersion.h\<close>.
  Definitions keep the names of the C functions; a function whose body has a loop or several stages
  is split into the loop (\<open>validate_loop\<close>, \<open>find_entry_loop\<close>, \<open>rebind_slots_loop\<close>, ...) and the
  stages (\<open>store_transaction\<close>, \<open>patch_transaction\<close>, \<open>image_symbol_range\<close>, ...).

  \<^bold>\<open>What the theorems show.\<close>
  \<^item> Parsers: validation accepts exactly the well-formed command tables of a specification by
    structural recursion, lookups return exactly the specified symbol, and nothing outside the
    mapped (or, for live images, readable) bytes influences a result. A lookup by cache path is a
    function of the contents of the files, wherever they are mapped. Sample images and a sample cache
    on which the lookups succeed are evaluated in the theories.
  \<^item> Protected stores: only the slot changes, only under an open window or a successful reprotection
    that covers it; window and page protections are as before.
  \<^item> Detours: the emitted code jumps to the replacement from every processor state, a detour that
    fails leaves memory unchanged, and each error code is that of the first check or call that fails.
  \<^item> Rebinding: a section pass rewrites exactly the matching slots, an image pass exactly the pointer
    sections, and no slot of them is left with the replacee unless its store was refused; whatever the
    image contains, every store goes to a matching slot of a symbol-pointer section and has the value
    for that slot (\<open>image_rewritten\<close>); rebinding back restores the slots; and a pointer that symbol lookup
    returned signed is hooked at its raw address.
  \<^item> Progress: where the pages concerned are mapped, readable and may be made writable by copying, the
    protected store, the detour (once its checks pass), the rebinding of every matching slot of an image
    and a global registration, for every such slot of every loaded image, succeed, so no theorem about
    successful calls is about calls that never happen.
  \<^item> Registry: in every interleaving no loaded image is missed, published entries never change, the
    callback terminates, and a thread completes its registration by its own steps once no other thread
    runs the once-only block, which can always be left; a registration by a thread alone has exactly the
    specified effect on list, log and machine; the once-only block never runs backwards, and from every
    reachable state all threads can come to rest.

  \<^bold>\<open>Loops and bounds.\<close> No definition uses fuel. Loops over word counters terminate by a measure on
  the counter; a loop whose bound is re-read from memory that a callback may change is bounded by the
  width of its index. The walk over the registration list, which would not end on a cyclic list, is a
  \<open>partial_function\<close> into \<open>option\<close>, with a theorem that it returns in every reachable state.

  \<^bold>\<open>Parameters and assumptions.\<close> Kernel calls, the TPRO register, pointer authentication, the file
  system, \<open>getsectiondata\<close>, \<open>dladdr\<close>, \<open>malloc\<close>, dyld's image list and \<open>dispatch_once\<close> are not part of
  the repository; properties that rely on their documented behaviour name it as a hypothesis
  (\<open>protect_law\<close>, \<open>vm_law\<close>, \<open>tpro_law\<close>, \<open>ptrauth_law\<close>, \<open>file_law\<close>, \<open>mmap_nonnull\<close>, \<open>sections_apart\<close>,
  \<open>images_hookable\<close>) or, for the
  registry, as the steps of the environment.

  \<^bold>\<open>Not modelled.\<close> Memory ordering weaker than sequential consistency; concurrent writes to the same
  slot by two threads (applying one rebind to one image is one step); the loader lock of dyld, under
  which callbacks run (\<open>RorkHookRebind.c\<close> and \<open>Docs/Safety.md\<close> mention it): without it the steps allow
  more interleavings than a process has, so what holds of all steps holds with the lock too, while
  deadlocks between that lock and a lock of the program are outside the model, and the liveness results
  speak of runs that the lock would also have to admit; unloading of images, except in
  \<open>enumeration_misses_after_unload\<close>, which adds it to the steps and shows what it breaks;
  32-bit targets (the branches without \<open>__LP64__\<close>); the public headers beyond their macros and types,
  which hold prototypes and comments; the Swift and Objective-C tests, the device test host and the
  release scripts, which hold no logic of the library.
\<close>

section \<open>Properties that span components\<close>

text \<open>
  C37: The library is immune to its own hooks on \<open>vm_protect\<close>: on a device, replacing that import by
  any function changes nothing about a protected store, a detour (through the checked entry point and
  through the legacy one, which is the checked detour with exactly the length of the jump), the
  rebinding of an image, the image-load callback, a global registration or any step of interleaved
  registrations, neither results nor effects.
\<close>

theorem library_ignores_rebound_stub:
  "RorkHookStoreProtectedPointer (rebind_vm_protect hook pf) = RorkHookStoreProtectedPointer pf \<and>
   RorkHookReplaceFunctionWithSize (rebind_vm_protect hook pf) = RorkHookReplaceFunctionWithSize pf \<and>
   RorkHookReplaceFunction (rebind_vm_protect hook pf) f r s = RorkHookReplaceFunctionWithSize pf f 20 r s \<and>
   RorkHookRebindSymbolInImage (rebind_vm_protect hook pf) = RorkHookRebindSymbolInImage pf \<and>
   RorkHookApplyRebind (rebind_vm_protect hook pf) = RorkHookApplyRebind pf \<and>
   RorkHookHandleImageAdded (rebind_vm_protect hook pf) = RorkHookHandleImageAdded pf \<and>
   RorkHookRebindSymbolGlobally (rebind_vm_protect hook pf) = RorkHookRebindSymbolGlobally pf \<and>
   registry_step (rebind_vm_protect hook pf) = registry_step pf"
  by (intro conjI rebind_store rebind_detour rebind_replace rebound_image rebound_apply rebound_handle rebound_global
      rebound_step)

text \<open>
  C18: End to end, from any state and whichever images dyld reports, however malformed they are: a
  registration that is refused changes nothing; one that returns true has put exactly one new entry,
  with the arguments of the call and the image of the replacement, in front of the list, and has changed
  the machine only by rebinding loaded images on behalf of entries of the list, each only where the
  guards allow it (the image is not the one that defines the replacement, the filter accepts it at
  that moment) and each by protected stores only, to matching slots of symbol-pointer sections, of the
  value for that slot. It fails to return only if the callback was not registered before.
\<close>

theorem global_rebind_effect:
  "case RorkHookRebindSymbolGlobally pf dy malloc replacee replacement imageFilter s of
     None \<Rightarrow> gAddImageCallbackOnce s \<noteq> Once_Done
   | Some (False, s') \<Rightarrow>
       (rebind_source pf dy replacee replacement (machine s) = None \<or> malloc s = 0) \<and> s' = s
   | Some (True, s') \<Rightarrow>
       (\<exists>base. rebind_source pf dy replacee replacement (machine s) = Some base \<and> malloc s \<noteq> 0 \<and>
          heap s' = (heap s)(malloc s \<mapsto> \<lparr>gr_sourceHeader = base, gr_replacee = replacee,
            gr_replacement = replacement, gr_filter = imageFilter, gr_next = gRebinds s\<rparr>) \<and>
          gRebinds s' = malloc s \<and> images s' = images s \<and>
          (image_step pf dy s')\<^sup>*\<^sup>* (machine s) (machine s'))"
proof (cases "RorkHookRebindSymbolGlobally pf dy malloc replacee replacement imageFilter s")
  case None
  then show ?thesis using RebindSymbolGlobally_stuck [of pf dy malloc replacee replacement imageFilter s] by simp
next
  case (Some r)
  obtain ok s' where r: "r = (ok, s')" by fastforce
  show ?thesis
  proof (cases ok)
    case True
    with RebindSymbolGlobally_effect [of pf dy malloc replacee replacement imageFilter s s'] Some r
    show ?thesis by simp
  next
    case False
    with RebindSymbolGlobally_false [of pf dy malloc replacee replacement imageFilter s s'] Some r
    show ?thesis by simp
  qed
qed

section \<open>Signed pointers across components\<close>

text \<open>Signing is undone by the stripping that rebinding and detouring perform on their arguments.\<close>

lemma strip_signed:
  assumes "ptrauth_law pf"
  shows "RorkHookStripPointer pf (RorkHookSignPointerIfExecutable pf w p) = RorkHookStripPointer pf p"
  using assms
  by (auto simp: ptrauth_law_def RorkHookStripPointer_def RorkHookSignPointerIfExecutable_def Let_def
      split: option.splits)

lemma signed_nonnull:
  assumes "ptrauth_law pf" "RorkHookStripPointer pf p \<noteq> 0"
  shows "RorkHookSignPointerIfExecutable pf w p \<noteq> 0" "p \<noteq> 0"
  using strip_signed [OF assms(1), of w p] strip_null [OF assms(1)] assms(2) by auto

lemma detour_raw:
  assumes "RorkHookStripPointer pf f = RorkHookStripPointer pf g" "f \<noteq> 0" "g \<noteq> 0"
  shows "RorkHookReplaceFunctionWithSize pf f n r s = RorkHookReplaceFunctionWithSize pf g n r s"
    and "RorkHookReplaceFunctionWithSize pf r n f s = RorkHookReplaceFunctionWithSize pf r n g s"
proof -
  have e: "(if ptrauth_calls pf then ptrauth_strip pf f else f) = (if ptrauth_calls pf then ptrauth_strip pf g else g)"
    using assms(1) by (simp add: RorkHookStripPointer_def)
  have j: "RorkHookBuildAbsoluteJump pf f out c = RorkHookBuildAbsoluteJump pf g out c" for out c
    using assms(2,3) by (simp only: RorkHookBuildAbsoluteJump_def e)
  show "RorkHookReplaceFunctionWithSize pf f n r s = RorkHookReplaceFunctionWithSize pf g n r s"
    using assms(2,3) by (simp only: RorkHookReplaceFunctionWithSize_def e)
  show "RorkHookReplaceFunctionWithSize pf r n f s = RorkHookReplaceFunctionWithSize pf r n g s"
    using assms(2,3) by (simp only: RorkHookReplaceFunctionWithSize_def j)
qed

text \<open>
  C21: A pointer found by symbol lookup is fit for hooking: although it comes back signed when it is
  executable, stripping yields the raw address of the symbol again, rebinding an image away from the
  pointer acts exactly as rebinding away from that address, and so does a detour that has the pointer
  as its target or as its destination. (Hypothesis: the documented behaviour of pointer
  authentication, and a symbol whose raw address is not null.)
\<close>

theorem found_symbol_hooks:
  assumes "ptrauth_law pf" "live_symbol pf (world s) (mem s) header name = Some a"
    and "RorkHookStripPointer pf a \<noteq> 0"
    and "found = RorkHookFindSymbol pf s header (Some name)"
  shows "found \<noteq> 0 \<and> RorkHookStripPointer pf found = RorkHookStripPointer pf a \<and>
    RorkHookRebindSymbolInImage pf dy img found replacement t = RorkHookRebindSymbolInImage pf dy img a replacement t \<and>
    RorkHookReplaceFunctionWithSize pf found n replacement t = RorkHookReplaceFunctionWithSize pf a n replacement t \<and>
    RorkHookReplaceFunctionWithSize pf function n found t = RorkHookReplaceFunctionWithSize pf function n a t"
proof -
  have found: "found = RorkHookSignPointerIfExecutable pf (world s) a"
    using assms(2,4) by (simp add: FindSymbol_value)
  have raw: "RorkHookStripPointer pf found = RorkHookStripPointer pf a" "found \<noteq> 0" "a \<noteq> 0"
    unfolding found by (rule strip_signed [OF assms(1)], (rule signed_nonnull [OF assms(1,3)])+)
  have "RorkHookRebindSymbolInImage pf dy img found replacement t = RorkHookRebindSymbolInImage pf dy img a replacement t"
    using raw by (simp add: RorkHookRebindSymbolInImage_def)
  then show ?thesis using raw detour_raw [OF raw] by simp
qed

definition live_state :: "unit machine" where
  "live_state = \<lparr>mem = macho_memory, world = (), events = []\<rparr>"

theorem found_symbol_hooks_witness:
  "RorkHookStripPointer (signed_platform :: unit platform)
     (RorkHookFindSymbol signed_platform live_state 0x13F00 (Some [95, 102])) = 0x13F40 \<and>
   RorkHookReplaceFunctionWithSize signed_platform
     (RorkHookFindSymbol signed_platform live_state 0x13F00 (Some [95, 102])) 32 0x20000 live_state =
   RorkHookReplaceFunctionWithSize signed_platform 0x13F40 32 0x20000 live_state"
proof -
  have strip: "RorkHookStripPointer (signed_platform :: unit platform) 0x13F40 = 0x13F40"
    by (simp add: RorkHookStripPointer_def signed_platform_def)
  have "live_symbol signed_platform (world live_state) (mem live_state) 0x13F00 [95, 102] = Some 0x13F40"
    by (simp add: live_state_def macho_live_symbol)
  from found_symbol_hooks [OF signed_ptrauth_law this _ refl, of auth_dyld "0x10000" "0x20000" live_state 32 "0x30000"] strip show ?thesis by simp
qed

end
